(* ===== verification/Errors.thy ===== *)
theory Errors
  imports Main
begin

text \<open>
  The driver's error values (\<^verbatim>\<open>src/src/error.rs\<close>) and the ways a Rust function can end.
  \<open>error\<close> is the enum \<^verbatim>\<open>Error\<close>; \<open>display_error\<close> is its \<^verbatim>\<open>Display\<close> implementation;
  \<open>error_from_io\<close> and \<open>error_from_string\<close> are its \<^verbatim>\<open>From\<close> implementations, the conversions
  that the operator \<^verbatim>\<open>?\<close> applies. \<open>panic\<close> lists the run-time checks that end the
  program: a failed \<^verbatim>\<open>assert!\<close>, an index outside an array or slice, \<^verbatim>\<open>unwrap\<close> or
  \<^verbatim>\<open>expect\<close> on the wrong variant, and division by zero.
\<close>

text \<open>An operating-system error as \<^verbatim>\<open>std::io::Error\<close> shows it: a kind and a text.\<close>

datatype io_kind = NotFound | OtherKind nat

record io_error =
  kind :: io_kind
  message :: string

datatype error =
    Vroom string
  | Io io_error
  | Allocation string
  | Mmap string io_error
  | Ioctl string io_error
  | Vfio string
  | Mmio string

fun display_error :: "error \<Rightarrow> string" where
  "display_error (Io e) = ''IO Error: '' @ message e"
| "display_error (Vroom s) = ''Custom Error: '' @ s"
| "display_error (Allocation s) = ''Allocation Error: '' @ s"
| "display_error (Mmap s e) = ''Mmap failed Error: '' @ s @ '' OS error: '' @ message e"
| "display_error (Ioctl s e) = ''Ioctl failed Error: '' @ s @ '' OS error: '' @ message e"
| "display_error (Vfio s) = ''Vfio Error: '' @ s"
| "display_error (Mmio s) = ''Mmio Error: '' @ s"

definition error_from_io :: "io_error \<Rightarrow> error" where
  "error_from_io value = Io value"

definition error_from_string :: "string \<Rightarrow> error" where
  "error_from_string value = Vroom value"

datatype panic =
    Assertion_failed
  | Index_out_of_bounds
  | Unwrap_failed
  | Division_by_zero

text \<open>How a call ends: with a value, with an \<^verbatim>\<open>Err\<close> that the caller may handle, or in a panic.\<close>

datatype 'a outcome = Ret 'a | Err error | Panic panic

end
