(* ===== verification/Prelude.thy ===== *)
theory Prelude
  imports Errors "HOL-Library.Word"
begin

unbundle bit_operations_syntax

text \<open>
  What every component shares: Rust's integer types as words, little-endian byte layouts, a
  byte-addressed memory with its read-over-write lemmas, and computations that thread a state
  and end in a value, an error or a panic, or never end.

  Integer arithmetic is that of the release profile (the README builds with
  \<^verbatim>\<open>cargo build --release\<close>): \<open>+\<close>, \<open>-\<close> and \<open>*\<close> wrap at the width of the type,
  an \<^verbatim>\<open>as\<close> cast truncates or zero-extends. Division and remainder by zero panic in every
  profile and are written out where they can occur. \<^verbatim>\<open>usize\<close> has 64 bits, as on the x86-64
  hosts the driver is written for.
\<close>

type_synonym u8 = "8 word"
type_synonym u16 = "16 word"
type_synonym u32 = "32 word"
type_synonym u64 = "64 word"
type_synonym usize = "64 word"

named_theorems run_simps \<open>equations that run a computation one step\<close>
named_theorems layout_simps \<open>byte layouts: lengths and field offsets\<close>

subsection \<open>Words\<close>

lemma unat_add_no_wrap:
  "unat (x :: 'a::len word) + unat y < 2 ^ LENGTH('a) \<Longrightarrow> unat (x + y) = unat x + unat y"
  by (simp add: unat_word_ariths)

lemma unat_mult_no_wrap:
  "unat (x :: 'a::len word) * unat y < 2 ^ LENGTH('a) \<Longrightarrow> unat (x * y) = unat x * unat y"
  by (simp add: unat_word_ariths)

lemma unat_mod_word: "unat ((x :: 'a::len word) mod y) = unat x mod unat y"
  by (simp add: unat_mod)

lemma unat_diff_word: "y \<le> (x :: 'a::len word) \<Longrightarrow> unat (x - y) = unat x - unat y"
  by (simp add: unat_sub)

lemma unat_less_2p64 [simp]: "unat (x :: u64) < 18446744073709551616"
  using unsigned_less [of x] by (simp del: unsigned_less)

lemma word_eq_unatI: "unat x = unat y \<Longrightarrow> x = (y :: 'a::len word)"
  by (rule word_eq_iff_unsigned [THEN iffD2])

lemma word_of_unat: "unat x = n \<Longrightarrow> x = (of_nat n :: 'a::len word)"
  by (auto simp: word_eq_iff_unsigned [where ?'a = nat])

lemma not_bit_ge [simp]: "LENGTH('a) \<le> n \<Longrightarrow> \<not> bit (w :: 'a::len word) n"
  by (auto dest: bit_imp_le_length)

lemma ucast_u16_u32 [simp]: "(ucast (ucast w :: u32) :: u16) = w"
  by (rule bit_word_eqI) (simp add: bit_simps)

lemma unat_of_nat_u64: "n < 2 ^ 64 \<Longrightarrow> unat (of_nat n :: u64) = n"
  by (simp add: unat_of_nat)

lemma unat_ucast_up:
  assumes "LENGTH('a::len) \<le> LENGTH('b::len)"
  shows "unat (ucast (w :: 'a word) :: 'b word) = unat w"
proof -
  have "unat w < 2 ^ LENGTH('b)"
    by (rule less_le_trans [OF unsigned_less]) (use assms in \<open>simp add: power_increasing\<close>)
  then show ?thesis by (simp add: unsigned_ucast_eq take_bit_nat_eq_self_iff)
qed

subsection \<open>Little-endian byte layouts\<close>

text \<open>
  \<open>le_bytes n w\<close> is the value \<open>w\<close> as \<open>n\<close> bytes in memory order on a little-endian host;
  \<open>le_word\<close> reads bytes back. \<open>bytes_field bs off n\<close> is the field of \<open>n\<close> bytes at offset
  \<open>off\<close> of a \<^verbatim>\<open>repr(C, packed)\<close> structure.
\<close>

definition le_bytes :: "nat \<Rightarrow> 'a::len word \<Rightarrow> u8 list" where
  "le_bytes n w = map (\<lambda>i. ucast (drop_bit (8 * i) w)) [0..<n]"

primrec le_word :: "u8 list \<Rightarrow> 'a::len word" where
  "le_word [] = 0"
| "le_word (b # bs) = ucast b OR push_bit 8 (le_word bs)"

definition bytes_field :: "u8 list \<Rightarrow> nat \<Rightarrow> nat \<Rightarrow> 'a::len word" where
  "bytes_field bs off n = le_word (take n (drop off bs))"

lemma length_le_bytes [simp, layout_simps]: "length (le_bytes n w) = n"
  by (simp add: le_bytes_def)

lemma bit_le_word:
  "bit (le_word bs :: 'a::len word) k \<longleftrightarrow>
     k < LENGTH('a) \<and> k div 8 < length bs \<and> bit (bs ! (k div 8)) (k mod 8)"
proof (induction bs arbitrary: k)
  case Nil
  show ?case by simp
next
  case (Cons b bs)
  show ?case
  proof (cases "k < 8")
    case True
    then show ?thesis
      by (auto simp: bit_simps bit_or_iff dest: bit_imp_le_length)
  next
    case False
    then have "k div 8 = Suc ((k - 8) div 8)" "k mod 8 = (k - 8) mod 8"
      by (simp_all add: div_if mod_if)
    moreover have "\<not> bit b k"
      using False bit_imp_le_length [of b k] by auto
    ultimately show ?thesis
      using False by (auto simp: bit_simps bit_or_iff Cons.IH)
  qed
qed

lemma le_word_le_bytes [simp]:
  assumes "LENGTH('a) \<le> 8 * n"
  shows "le_word (le_bytes n (w :: 'a::len word)) = w"
proof (rule bit_word_eqI)
  fix k assume k: "k < LENGTH('a)"
  then have "k div 8 < n" using assms by linarith
  then show "bit (le_word (le_bytes n w) :: 'a word) k = bit w k"
    using k by (simp add: bit_le_word le_bytes_def bit_simps)
qed

lemma bytes_field_append_left:
  "length xs = off \<Longrightarrow> bytes_field (xs @ ys) off n = bytes_field ys 0 n"
  by (simp add: bytes_field_def)

lemma bytes_field_exact:
  "LENGTH('a) \<le> 8 * n \<Longrightarrow> bytes_field (le_bytes n (w :: 'a::len word) @ ys) 0 n = w"
  by (simp add: bytes_field_def)

subsection \<open>Byte-addressed memory\<close>

text \<open>
  Memory that both the driver and the controller read and write, by virtual address.
  \<open>mem_read m a n\<close> copies \<open>n\<close> bytes from address \<open>a\<close> on, \<open>mem_write m a bs\<close> stores the
  bytes \<open>bs\<close> from \<open>a\<close> on; addresses wrap at \<open>2 ^ 64\<close>. Two ranges are \<open>disjoint_ranges\<close> when
  no address of one is an address of the other.
\<close>

type_synonym memory = "u64 \<Rightarrow> u8"

definition mem_read :: "memory \<Rightarrow> u64 \<Rightarrow> nat \<Rightarrow> u8 list" where
  "mem_read m a n = map (\<lambda>i. m (a + of_nat i)) [0..<n]"

definition mem_write :: "memory \<Rightarrow> u64 \<Rightarrow> u8 list \<Rightarrow> memory" where
  "mem_write m a bs = (\<lambda>x. if unat (x - a) < length bs then bs ! unat (x - a) else m x)"

definition disjoint_ranges :: "u64 \<Rightarrow> nat \<Rightarrow> u64 \<Rightarrow> nat \<Rightarrow> bool" where
  "disjoint_ranges a n b k \<longleftrightarrow> n \<le> unat (b - a) \<and> unat (b - a) + k \<le> 2 ^ 64"

lemma length_mem_read [simp, layout_simps]: "length (mem_read m a n) = n"
  by (simp add: mem_read_def)

lemma mem_read_cong: "(\<And>i. i < n \<Longrightarrow> m (a + of_nat i) = m' (a + of_nat i)) \<Longrightarrow> mem_read m a n = mem_read m' a n"
  by (simp add: mem_read_def)

lemma mem_read_write_same [simp]:
  "length bs \<le> 2 ^ 64 \<Longrightarrow> mem_read (mem_write m a bs) a (length bs) = bs"
  by (auto simp: mem_read_def mem_write_def unat_of_nat intro!: nth_equalityI)

lemma mem_read_write_exact:
  "length bs = n \<Longrightarrow> n \<le> 2 ^ 64 \<Longrightarrow> mem_read (mem_write m a bs) a n = bs"
  using mem_read_write_same by blast

lemma disjoint_offset:
  assumes "disjoint_ranges a n b k" and "i < k"
  shows "n \<le> unat (b + of_nat i - a)"
proof -
  have "unat (b - a) + i < 2 ^ 64"
    using assms by (simp add: disjoint_ranges_def)
  then have "unat ((b - a) + of_nat i) = unat (b - a) + i"
    using assms(2) by (simp add: unat_add_no_wrap unat_of_nat)
  then have "unat (b + of_nat i - a) = unat (b - a) + i"
    by (simp add: algebra_simps)
  then show ?thesis
    using assms(1) by (simp add: disjoint_ranges_def)
qed

lemma mem_read_write_disjoint:
  "disjoint_ranges a (length bs) b k \<Longrightarrow> mem_read (mem_write m a bs) b k = mem_read m b k"
  using disjoint_offset [of a "length bs" b k]
  by (fastforce simp: mem_read_def mem_write_def)

lemma mem_write_outside:
  "length bs \<le> unat (x - a) \<Longrightarrow> mem_write m a bs x = m x"
  by (simp add: mem_write_def)

text \<open>Cells of an array that starts at \<open>base\<close> and whose elements have \<open>w\<close> bytes each.\<close>

definition cell :: "u64 \<Rightarrow> nat \<Rightarrow> nat \<Rightarrow> u64" where
  "cell base w i = base + of_nat (w * i)"

lemma unat_cell_diff:
  assumes "i \<le> j" and "w * j < 2 ^ 64"
  shows "unat (cell base w j - cell base w i) = w * j - w * i"
proof -
  have le: "w * i \<le> w * j" using assms(1) by simp
  have "cell base w j - cell base w i = of_nat (w * j) - of_nat (w * i)"
    by (simp add: cell_def)
  also have "\<dots> = of_nat (w * j - w * i)"
    using le by (simp add: of_nat_diff)
  finally show ?thesis
    using assms(2) by (simp add: unat_of_nat)
qed

lemma disjoint_ranges_sym:
  assumes "disjoint_ranges a n b k" and "0 < n"
  shows "disjoint_ranges b k a n"
proof -
  let ?d = "unat (b - a)"
  have d: "n \<le> ?d" "?d + k \<le> 2 ^ 64" using assms(1) by (simp_all add: disjoint_ranges_def)
  have "unat (a - b) = unat (0 - (b - a))" by simp
  also have "\<dots> = 2 ^ 64 - ?d"
    using d assms(2) by (subst unat_sub_if_size) (simp add: word_size)
  finally show ?thesis
    using d by (simp only: disjoint_ranges_def) linarith
qed

lemma cell_disjoint_less:
  assumes "i < j" and "j < n" and "w * n \<le> 2 ^ 64"
  shows "disjoint_ranges (cell base w i) w (cell base w j) w"
proof (cases "w = 0")
  case True
  then show ?thesis by (simp add: disjoint_ranges_def cell_def)
next
  case False
  have 1: "w * Suc i \<le> w * j" using assms(1) by (intro mult_le_mono2) simp
  have 2: "w * Suc j \<le> w * n" using assms(2) by (intro mult_le_mono2) simp
  have "unat (cell base w j - cell base w i) = w * j - w * i"
    using assms 2 False by (intro unat_cell_diff) auto
  then show ?thesis
    using 1 2 assms(3) unfolding disjoint_ranges_def mult_Suc_right by linarith
qed

lemma cell_disjoint:
  assumes "i \<noteq> j" and "i < n" and "j < n" and "w * n \<le> 2 ^ 64" and "0 < w"
  shows "disjoint_ranges (cell base w i) w (cell base w j) w"
proof (cases "i < j")
  case True
  then show ?thesis using assms(3,4) by (rule cell_disjoint_less)
next
  case False
  then have "j < i" using assms(1) by simp
  then have "disjoint_ranges (cell base w j) w (cell base w i) w"
    using assms(2,4) by (rule cell_disjoint_less)
  then show ?thesis using assms(5) by (rule disjoint_ranges_sym)
qed

subsection \<open>Computations\<close>

text \<open>
  A computation over a state \<open>'s\<close> ends with an outcome and a new state, or never ends
  (\<open>None\<close>). Changes made before an error or a panic stay in the state, as they do in the code.
\<close>

type_synonym ('s, 'a) comp = "'s \<Rightarrow> ('a outcome \<times> 's) option"

definition mret :: "'a \<Rightarrow> ('s, 'a) comp" where
  "mret x = (\<lambda>s. Some (Ret x, s))"

definition merr :: "error \<Rightarrow> ('s, 'a) comp" where
  "merr e = (\<lambda>s. Some (Err e, s))"

definition mpanic :: "panic \<Rightarrow> ('s, 'a) comp" where
  "mpanic p = (\<lambda>s. Some (Panic p, s))"

definition mbind :: "('s, 'a) comp \<Rightarrow> ('a \<Rightarrow> ('s, 'b) comp) \<Rightarrow> ('s, 'b) comp" where
  "mbind m f = (\<lambda>s. case m s of None \<Rightarrow> None
     | Some (Ret x, t) \<Rightarrow> f x t
     | Some (Err e, t) \<Rightarrow> Some (Err e, t)
     | Some (Panic p, t) \<Rightarrow> Some (Panic p, t))"

primrec mlift :: "panic + 'a \<Rightarrow> ('s, 'a) comp" where
  "mlift (Inl p) = mpanic p"
| "mlift (Inr x) = mret x"

definition massert :: "bool \<Rightarrow> ('s, unit) comp" where
  "massert b = (if b then mret () else mpanic Assertion_failed)"

definition mget :: "('s \<Rightarrow> 'a) \<Rightarrow> ('s, 'a) comp" where
  "mget f = (\<lambda>s. Some (Ret (f s), s))"

definition mmodify :: "('s \<Rightarrow> 's) \<Rightarrow> ('s, unit) comp" where
  "mmodify f = (\<lambda>s. Some (Ret (), f s))"

text \<open>\<open>mignore m\<close>: the caller drops the \<^verbatim>\<open>Result\<close> that \<open>m\<close> returns, error or not.\<close>

definition mignore :: "('s, 'a) comp \<Rightarrow> ('s, unit) comp" where
  "mignore m = (\<lambda>s. case m s of None \<Rightarrow> None
     | Some (Panic p, t) \<Rightarrow> Some (Panic p, t)
     | Some (_, t) \<Rightarrow> Some (Ret (), t))"

text \<open>\<open>mzoom get put m\<close>: a call on a component of the state.\<close>

definition mzoom :: "('s \<Rightarrow> 't) \<Rightarrow> ('t \<Rightarrow> 's \<Rightarrow> 's) \<Rightarrow> ('t, 'a) comp \<Rightarrow> ('s, 'a) comp" where
  "mzoom get put m = (\<lambda>s. case m (get s) of None \<Rightarrow> None
     | Some (r, t) \<Rightarrow> Some (r, put t s))"

text \<open>\<open>mfor xs body\<close>: a \<^verbatim>\<open>for\<close> loop whose body is left early only by \<^verbatim>\<open>?\<close> or a panic; an
  accumulator carries the loop's local variables.\<close>

fun mfold :: "('x \<Rightarrow> 'b \<Rightarrow> ('s, 'b) comp) \<Rightarrow> 'x list \<Rightarrow> 'b \<Rightarrow> ('s, 'b) comp" where
  "mfold body [] acc = mret acc"
| "mfold body (x # xs) acc = mbind (body x acc) (mfold body xs)"

lemma mret_run [simp, run_simps]: "mret x s = Some (Ret x, s)"
  by (simp add: mret_def)

lemma merr_run [simp, run_simps]: "merr e s = Some (Err e, s)"
  by (simp add: merr_def)

lemma mpanic_run [simp, run_simps]: "mpanic p s = Some (Panic p, s)"
  by (simp add: mpanic_def)

lemma mget_run [simp, run_simps]: "mget f s = Some (Ret (f s), s)"
  by (simp add: mget_def)

lemma mmodify_run [simp, run_simps]: "mmodify f s = Some (Ret (), f s)"
  by (simp add: mmodify_def)

lemma massert_run [simp, run_simps]:
  "massert b s = Some (if b then Ret () else Panic Assertion_failed, s)"
  by (simp add: massert_def)

lemma mbind_run [run_simps]:
  "mbind m f s = (case m s of None \<Rightarrow> None
     | Some (Ret x, t) \<Rightarrow> f x t
     | Some (Err e, t) \<Rightarrow> Some (Err e, t)
     | Some (Panic p, t) \<Rightarrow> Some (Panic p, t))"
  by (simp add: mbind_def)

lemma mzoom_run [run_simps]:
  "mzoom get put m s = (case m (get s) of None \<Rightarrow> None | Some (r, t) \<Rightarrow> Some (r, put t s))"
  by (simp add: mzoom_def)

lemma mbind_mret [simp]: "mbind (mret x) f = f x"
  by (simp add: mbind_def mret_def fun_eq_iff)

lemma mbind_assoc: "mbind (mbind m f) g = mbind m (\<lambda>x. mbind (f x) g)"
  by (rule ext) (simp add: mbind_def split: option.split prod.split outcome.split)

lemma mfold_append: "mfold body (xs @ ys) acc = mbind (mfold body xs acc) (mfold body ys)"
proof (induction xs arbitrary: acc)
  case Nil
  show ?case by (simp del: mret_run)
next
  case (Cons x xs)
  have "mfold body (xs @ ys) = (\<lambda>a. mbind (mfold body xs a) (mfold body ys))"
    by (rule ext) (rule Cons.IH)
  then show ?case by (simp add: mbind_assoc)
qed

end
