(* ===== verification/Hardware.thy ===== *)
theory Hardware
  imports Prelude
begin

text \<open>
  What lies outside the driver. A \<open>world\<close> is the memory that driver and controller share and
  a state \<open>'d\<close> of everything the driver cannot see: the controller, its registers and the
  clock. \<open>hw\<close> collects the operations the driver performs on it; they are parameters of every
  definition that touches the controller:
  \<^item> \<open>hw_tick\<close>: what the controller does, in memory and inside, between two polls of a loop;
  \<^item> \<open>hw_write32\<close>, \<open>hw_write64\<close>: \<^verbatim>\<open>std::ptr::write_volatile\<close> to a register address;
  \<^item> \<open>hw_read32\<close>, \<open>hw_read64\<close>: \<^verbatim>\<open>std::ptr::read_volatile\<close> of a register address;
  \<^item> \<open>hw_now\<close>: \<^verbatim>\<open>std::time::Instant::now\<close>, in nanoseconds.
  A register access may change the whole world, since the controller reacts to it.
\<close>

record 'd world =
  wmem :: memory
  wdev :: 'd

record 'd hw =
  hw_tick :: "'d world \<Rightarrow> 'd world"
  hw_write32 :: "usize \<Rightarrow> u32 \<Rightarrow> 'd world \<Rightarrow> 'd world"
  hw_write64 :: "usize \<Rightarrow> u64 \<Rightarrow> 'd world \<Rightarrow> 'd world"
  hw_read32 :: "usize \<Rightarrow> 'd world \<Rightarrow> u32 \<times> 'd world"
  hw_read64 :: "usize \<Rightarrow> 'd world \<Rightarrow> u64 \<times> 'd world"
  hw_now :: "'d world \<Rightarrow> nat \<times> 'd world"

text \<open>
  A named assumption on the controller, used where a property follows queue memory over
  several doorbell writes: the controller only reads submission queues, so ringing a doorbell
  leaves the bytes of the range alone.
\<close>

definition doorbell_keeps :: "'d hw \<Rightarrow> usize \<Rightarrow> u64 \<Rightarrow> nat \<Rightarrow> bool" where
  "doorbell_keeps hw db a n \<longleftrightarrow>
     (\<forall>v w i. i < n \<longrightarrow> wmem (hw_write32 hw db v w) (a + of_nat i) = wmem w (a + of_nat i))"

text \<open>A controller that records the register writes it sees and does nothing else, for
  evaluating definitions on concrete inputs.\<close>

definition log_hw :: "(usize \<times> u64) list hw" where
  "log_hw = \<lparr>hw_tick = (\<lambda>w. w),
     hw_write32 = (\<lambda>a v w. w\<lparr>wdev := wdev w @ [(a, ucast v)]\<rparr>),
     hw_write64 = (\<lambda>a v w. w\<lparr>wdev := wdev w @ [(a, v)]\<rparr>),
     hw_read32 = (\<lambda>a w. (0, w)), hw_read64 = (\<lambda>a w. (0, w)), hw_now = (\<lambda>w. (0, w))\<rparr>"

lemma log_hw_doorbell_keeps [simp]: "doorbell_keeps log_hw db a n"
  by (simp add: doorbell_keeps_def log_hw_def)

definition blank_world :: "'d \<Rightarrow> 'd world" where
  "blank_world d = \<lparr>wmem = (\<lambda>_. 0), wdev = d\<rparr>"

end
