(* ===== verification/Memory.thy ===== *)
theory Memory
  imports Prelude
begin

text \<open>
  Page sizes and DMA regions (\<^verbatim>\<open>src/src/memory.rs\<close>). \<open>pagesize\<close> is the enum \<^verbatim>\<open>Pagesize\<close> with
  its methods; \<open>dma\<close> is the struct \<^verbatim>\<open>Dma<T>\<close>: where a region starts for the host
  (\<open>virt\<close>), where it starts for the controller (\<open>phys\<close>), and its length. The region's bytes
  live in the memory of the state. \<open>dma_chunks\<close> is the iterator \<^verbatim>\<open>DmaChunks\<close> at \<^verbatim>\<open>u8\<close>, the only
  instance \<^verbatim>\<open>DmaSlice::chunks\<close> makes. The lemmas show that rounding up to a page gives the
  least multiple of the page size, and that the chunks of a region tile it without gaps or
  overlaps.
\<close>

subsection \<open>Page sizes\<close>

definition SHIFT_4KIB :: u32 where "SHIFT_4KIB = 12"
definition PAGESIZE_4KIB :: usize where "PAGESIZE_4KIB = push_bit (unat SHIFT_4KIB) 1"
definition SHIFT_2MIB :: u32 where "SHIFT_2MIB = 21"
definition PAGESIZE_2MIB :: usize where "PAGESIZE_2MIB = push_bit (unat SHIFT_2MIB) 1"
definition SHIFT_1GIB :: u32 where "SHIFT_1GIB = 30"
definition PAGESIZE_1GIB :: usize where "PAGESIZE_1GIB = push_bit (unat SHIFT_1GIB) 1"

lemma page_constants [simp]:
  "SHIFT_4KIB = 12" "SHIFT_2MIB = 21" "SHIFT_1GIB = 30"
  "PAGESIZE_4KIB = 4096" "PAGESIZE_2MIB = 2097152" "PAGESIZE_1GIB = 1073741824"
  by (simp_all add: SHIFT_4KIB_def SHIFT_2MIB_def SHIFT_1GIB_def PAGESIZE_4KIB_def
      PAGESIZE_2MIB_def PAGESIZE_1GIB_def)

datatype pagesize = Page4K | Page2M | Page1G

definition DEFAULT_PAGE_SIZE :: pagesize where
  "DEFAULT_PAGE_SIZE = Page2M"

fun pagesize_size :: "pagesize \<Rightarrow> usize" where
  "pagesize_size Page4K = PAGESIZE_4KIB"
| "pagesize_size Page2M = PAGESIZE_2MIB"
| "pagesize_size Page1G = PAGESIZE_1GIB"

fun pagesize_shift :: "pagesize \<Rightarrow> u32" where
  "pagesize_shift Page4K = SHIFT_4KIB"
| "pagesize_shift Page2M = SHIFT_2MIB"
| "pagesize_shift Page1G = SHIFT_1GIB"

definition shift_up :: "pagesize \<Rightarrow> usize \<Rightarrow> usize" where
  "shift_up p n =
     (if n mod pagesize_size p = 0 then n
      else push_bit (unat (pagesize_shift p)) (drop_bit (unat (pagesize_shift p)) n + 1))"

definition from_usize :: "usize \<Rightarrow> pagesize" where
  "from_usize n =
     (if n = PAGESIZE_4KIB then Page4K
      else if n = PAGESIZE_2MIB then Page2M
      else if n = PAGESIZE_1GIB then Page1G
      else Page2M)"

text \<open>The flags of \<^verbatim>\<open>libc::mmap\<close> by name; a bitwise or of flags is the union.\<close>

datatype mmap_flag =
    MAP_HUGETLB | MAP_HUGE_2MB | MAP_HUGE_1GB | MAP_SHARED | MAP_ANONYMOUS
  | MAP_POPULATE | MAP_32BIT | MAP_FIXED

fun mmap_flags :: "pagesize \<Rightarrow> mmap_flag set" where
  "mmap_flags Page4K = {}"
| "mmap_flags Page2M = {MAP_HUGETLB, MAP_HUGE_2MB}"
| "mmap_flags Page1G = {MAP_HUGETLB, MAP_HUGE_1GB}"

definition pagesize_from_str :: "string \<Rightarrow> pagesize" where
  "pagesize_from_str s =
     (if s = ''4k'' then Page4K
      else if s = ''2m'' then Page2M
      else if s = ''1g'' then Page1G
      else Page2M)"

fun display_pagesize :: "pagesize \<Rightarrow> string" where
  "display_pagesize Page4K = ''4KiB''"
| "display_pagesize Page2M = ''2MiB''"
| "display_pagesize Page1G = ''1GiB''"

text \<open>Page sizes are ordered by how much they cover.\<close>

instantiation pagesize :: linorder
begin

definition less_eq_pagesize :: "pagesize \<Rightarrow> pagesize \<Rightarrow> bool" where
  "less_eq_pagesize p q \<longleftrightarrow> pagesize_shift p \<le> pagesize_shift q"

definition less_pagesize :: "pagesize \<Rightarrow> pagesize \<Rightarrow> bool" where
  "less_pagesize p q \<longleftrightarrow> pagesize_shift p < pagesize_shift q"

instance
proof
  fix p q r :: pagesize
  show "p < q \<longleftrightarrow> p \<le> q \<and> \<not> q \<le> p"
    by (auto simp: less_eq_pagesize_def less_pagesize_def)
  show "p \<le> p" by (simp add: less_eq_pagesize_def)
  show "p \<le> q \<Longrightarrow> q \<le> r \<Longrightarrow> p \<le> r" by (simp add: less_eq_pagesize_def)
  show "p \<le> q \<Longrightarrow> q \<le> p \<Longrightarrow> p = q"
    by (cases p; cases q) (simp_all add: less_eq_pagesize_def)
  show "p \<le> q \<or> q \<le> p" by (auto simp: less_eq_pagesize_def)
qed

end

subsection \<open>DMA regions\<close>

record dma =
  virt :: usize
  phys :: usize
  dsize :: usize

text \<open>A Rust slice into a region: where it starts and how many bytes it has.\<close>

type_synonym slice = "usize \<times> usize"

definition size_of_u8 :: usize where "size_of_u8 = 1"

record dma_chunks =
  current_offset :: usize
  chunk_size :: usize
  chunks_dma :: dma

record dma_chunk =
  phys_addr :: usize
  chunk_slice :: slice

abbreviation chunk_len :: "dma_chunk \<Rightarrow> usize" where
  "chunk_len c \<equiv> snd (chunk_slice c)"

definition dma_chunks_next :: "dma_chunks \<Rightarrow> dma_chunk option \<times> dma_chunks" where
  "dma_chunks_next it =
     (let d = chunks_dma it; off = current_offset it in
      if dsize d \<le> off then (None, it)
      else
        let chunk_phys_addr = phys d + off * size_of_u8;
            offset_ptr = virt d + off * size_of_u8;
            len = min (chunk_size it) ((dsize d - off) div size_of_u8)
        in (Some \<lparr>phys_addr = chunk_phys_addr, chunk_slice = (offset_ptr, len)\<rparr>,
            it\<lparr>current_offset := off + len\<rparr>))"

definition chunks :: "dma \<Rightarrow> usize \<Rightarrow> dma_chunks" where
  "chunks d bytes = \<lparr>current_offset = 0, chunk_size = bytes, chunks_dma = d\<rparr>"

text \<open>Running an iterator to its end, as a \<^verbatim>\<open>for\<close> loop does; \<open>None\<close> when it has no end.\<close>

partial_function (option) dma_chunks_collect :: "dma_chunks \<Rightarrow> dma_chunk list option" where
  "dma_chunks_collect it =
     (case dma_chunks_next it of
        (None, it') \<Rightarrow> Some []
      | (Some c, it') \<Rightarrow> Option.bind (dma_chunks_collect it') (\<lambda>cs. Some (c # cs)))"

definition dma_slice :: "dma \<Rightarrow> usize \<Rightarrow> usize \<Rightarrow> panic + dma" where
  "dma_slice d start stop =
     (if stop \<le> dsize d
      then Inr \<lparr>virt = virt d + start, phys = phys d + start, dsize = stop - start\<rparr>
      else Inl Assertion_failed)"

definition dma_index_range :: "dma \<Rightarrow> usize \<Rightarrow> usize \<Rightarrow> panic + slice" where
  "dma_index_range d start stop =
     (if stop \<le> dsize d then Inr (virt d + start, stop - start) else Inl Assertion_failed)"

definition dma_index_to :: "dma \<Rightarrow> usize \<Rightarrow> panic + slice" where
  "dma_index_to d stop = dma_index_range d 0 stop"

definition dma_index_full :: "dma \<Rightarrow> panic + slice" where
  "dma_index_full d = dma_index_range d 0 (dsize d)"

subsection \<open>Rounding up to a page\<close>

lemma unat_pagesize_size: "unat (pagesize_size p) = 2 ^ unat (pagesize_shift p)"
  by (cases p) simp_all

lemma pagesize_shift_less: "unat (pagesize_shift p) < 64"
  by (cases p) simp_all

lemma unat_push_bit: "unat (push_bit n (w :: u64)) = (unat w * 2 ^ n) mod 2 ^ 64"
  by (simp only: unsigned_push_bit_eq) (simp add: push_bit_eq_mult take_bit_eq_mod)

lemma unat_drop_bit: "unat (drop_bit n (w :: u64)) = unat w div 2 ^ n"
  by (simp only: unsigned_drop_bit_eq) (simp add: drop_bit_eq_div take_bit_eq_mod)

text \<open>The value that rounding up aims at, over the naturals.\<close>

definition round_up :: "nat \<Rightarrow> nat \<Rightarrow> nat" where
  "round_up P n = (n + P - 1) div P * P"

lemma round_up_eq:
  assumes "0 < P"
  shows "round_up P n = (if n mod P = 0 then n else (n div P + 1) * P)"
proof -
  define q r where "q = n div P" and "r = n mod P"
  have n: "n = q * P + r" and r: "r < P"
    using assms by (simp_all add: q_def r_def)
  have "(n + P - 1) div P = (q * P + (r + P - 1)) div P"
    using assms by (simp add: n add.assoc)
  also have "\<dots> = q + (r + P - 1) div P"
    using assms by (simp only: div_mult_self3)
  also have "(r + P - 1) div P = (if r = 0 then 0 else 1)"
  proof (cases "r = 0")
    case False
    then have "r + P - 1 = P + (r - 1)" by simp
    then show ?thesis using False r by (simp only: div_add_self1) simp
  qed (use assms in simp)
  finally have "round_up P n = (if r = 0 then n else (q + 1) * P)"
    using n by (simp add: round_up_def)
  then show ?thesis by (simp only: q_def r_def)
qed

lemma round_up_props:
  assumes "0 < P"
  shows "P dvd round_up P n" "n \<le> round_up P n" "round_up P n < n + P"
proof -
  have n: "n = n div P * P + n mod P" by simp
  have r: "n mod P < P" using assms by simp
  show "P dvd round_up P n" by (simp add: round_up_def)
  have "n \<le> P + n div P * P" using n r by linarith
  then show "n \<le> round_up P n"
    using assms by (simp add: round_up_eq)
  show "round_up P n < n + P"
  proof (cases "n mod P = 0")
    case True
    then show ?thesis using assms by (simp add: round_up_eq)
  next
    case False
    then have "n div P * P < n" using n by linarith
    then show ?thesis using False assms by (simp add: round_up_eq)
  qed
qed

lemma unat_shift_up:
  assumes "round_up (unat (pagesize_size p)) (unat s) < 2 ^ 64"
  shows "unat (shift_up p s) = round_up (unat (pagesize_size p)) (unat s)"
proof -
  let ?k = "unat (pagesize_shift p)"
  have P: "unat (pagesize_size p) = 2 ^ ?k" by (rule unat_pagesize_size)
  have aligned: "s mod pagesize_size p = 0 \<longleftrightarrow> unat s mod 2 ^ ?k = 0"
    by (metis P unat_eq_zero unat_mod_word)
  show ?thesis
  proof (cases "unat s mod 2 ^ ?k = 0")
    case True
    then show ?thesis using aligned by (simp add: shift_up_def round_up_eq P)
  next
    case False
    then have r: "(unat s div 2 ^ ?k + 1) * 2 ^ ?k < 2 ^ 64"
      using assms by (simp add: round_up_eq P)
    then have "unat s div 2 ^ ?k + 1 < 2 ^ 64"
      by (metis le_less_trans mult.right_neutral mult_le_mono2 one_le_power one_le_numeral)
    then have "unat (drop_bit ?k s + 1) = unat s div 2 ^ ?k + 1"
      by (subst unat_add_no_wrap) (simp_all add: unat_drop_bit)
    then show ?thesis
      using False aligned r by (simp add: shift_up_def round_up_eq P unat_push_bit)
  qed
qed

text \<open>
  Rounding a byte count up to a page size gives a multiple of the page size that is at
  least the count and less than one page above it, as long as that multiple fits \<^verbatim>\<open>usize\<close>.
\<close>

lemma shift_up_bounds:
  assumes "unat s + unat (pagesize_size p) \<le> 2 ^ 64"
  shows "unat (pagesize_size p) dvd unat (shift_up p s)
    \<and> unat s \<le> unat (shift_up p s)
    \<and> unat (shift_up p s) < unat s + unat (pagesize_size p)"
proof -
  have P: "0 < unat (pagesize_size p)" by (simp add: unat_pagesize_size)
  note props = round_up_props [OF P, of "unat s"]
  have "round_up (unat (pagesize_size p)) (unat s) < 2 ^ 64"
    using props(3) assms by linarith
  then show ?thesis
    using props by (simp add: unat_shift_up)
qed

lemma shift_up_idem:
  assumes "unat s + unat (pagesize_size p) \<le> 2 ^ 64"
  shows "shift_up p (shift_up p s) = shift_up p s"
proof -
  have P: "0 < unat (pagesize_size p)" by (simp add: unat_pagesize_size)
  note props = round_up_props [OF P, of "unat s"]
  have "unat (shift_up p s) = round_up (unat (pagesize_size p)) (unat s)"
    using props(3) assms by (intro unat_shift_up) linarith
  then have "shift_up p s mod pagesize_size p = 0"
    using props(1) by (metis dvd_imp_mod_0 unat_eq_zero unat_mod_word)
  then show ?thesis by (simp add: shift_up_def [of p "shift_up p s"])
qed

subsection \<open>Address ranges\<close>

text \<open>The addresses of \<open>n\<close> bytes from \<open>a\<close> on, and of a region.\<close>

definition addr_range :: "usize \<Rightarrow> usize \<Rightarrow> usize set" where
  "addr_range a n = {x. unat (x - a) < unat n}"

lemma in_addr_range:
  assumes "unat a + unat n \<le> 2 ^ 64"
  shows "x \<in> addr_range a n \<longleftrightarrow> unat a \<le> unat x \<and> unat x < unat a + unat n"
proof (cases "a \<le> x")
  case True
  then show ?thesis by (auto simp: addr_range_def unat_diff_word word_le_nat_alt)
next
  case False
  then have x: "unat x < unat a" by (simp add: word_le_nat_alt)
  then have "unat (x - a) = unat x + 2 ^ 64 - unat a" by (subst unat_sub_if_size) (simp add: word_size)
  then show ?thesis using assms x by (simp add: addr_range_def)
qed

definition region :: "dma \<Rightarrow> usize set" where
  "region d = addr_range (virt d) (dsize d)"

lemma mem_write_range:
  assumes "off + length bs \<le> unat n" and "x \<notin> addr_range a n"
  shows "mem_write m (a + of_nat off) bs x = m x"
proof (rule mem_write_outside, rule ccontr)
  assume "\<not> length bs \<le> unat (x - (a + of_nat off))"
  then have less: "unat (x - (a + of_nat off)) < length bs" by simp
  have n: "unat n < 2 ^ 64" by simp
  have off: "unat (of_nat off :: usize) = off" using assms(1) n by (intro unat_of_nat_u64) linarith
  have "x - a = (x - (a + of_nat off)) + of_nat off" by simp
  also have "unat \<dots> = unat (x - (a + of_nat off)) + off"
  proof -
    have "unat (x - (a + of_nat off)) + off < unat n" using less assms(1) by simp
    then have "unat (x - (a + of_nat off)) + off < 2 ^ 64" using n by (rule less_trans)
    then show ?thesis by (subst unat_add_no_wrap) (simp_all add: off)
  qed
  finally have "unat (x - a) < unat n" using less assms(1) by simp
  then show False using assms(2) by (simp add: addr_range_def)
qed

subsection \<open>The chunks of a region\<close>

text \<open>How many chunks of \<open>b\<close> bytes cover \<open>n\<close> bytes, and the \<open>i\<close>-th of them.\<close>

definition chunk_count :: "nat \<Rightarrow> nat \<Rightarrow> nat" where
  "chunk_count b n = (n + b - 1) div b"

definition nth_chunk :: "dma \<Rightarrow> usize \<Rightarrow> nat \<Rightarrow> dma_chunk" where
  "nth_chunk d bytes i =
     \<lparr>phys_addr = phys d + of_nat (i * unat bytes),
      chunk_slice = (virt d + of_nat (i * unat bytes),
                     of_nat (min (unat bytes) (unat (dsize d) - i * unat bytes)))\<rparr>"

lemma chunk_count_less: "0 < b \<Longrightarrow> i < chunk_count b n \<longleftrightarrow> i * b < n"
proof -
  assume b: "0 < b"
  have "i < (n + b - 1) div b \<longleftrightarrow> Suc i * b \<le> n + b - 1"
    using b by (metis Suc_le_eq less_eq_div_iff_mult_less_eq)
  then show ?thesis using b by (auto simp: chunk_count_def)
qed

lemma dma_chunks_collect_at:
  assumes b: "0 < unat bytes"
    and i: "i \<le> chunk_count (unat bytes) (unat (dsize d))"
  shows "dma_chunks_collect
      \<lparr>current_offset = of_nat (min (i * unat bytes) (unat (dsize d))),
       chunk_size = bytes, chunks_dma = d\<rparr>
    = Some (map (nth_chunk d bytes) [i..<chunk_count (unat bytes) (unat (dsize d))])"
  using i
proof (induction "chunk_count (unat bytes) (unat (dsize d)) - i" arbitrary: i)
  case 0
  then have "\<not> i * unat bytes < unat (dsize d)"
    using chunk_count_less [OF b] by (metis diff_is_0_eq leD)
  then show ?case
    using 0 by (subst dma_chunks_collect.simps) (simp add: dma_chunks_next_def)
next
  case (Suc k)
  let ?b = "unat bytes" and ?n = "unat (dsize d)"
  let ?N = "chunk_count ?b ?n"
  have less: "i < ?N" using Suc.hyps(2) by simp
  then have off: "i * ?b < ?n" using chunk_count_less [OF b] by simp
  have small: "?n < 2 ^ 64" by simp
  define w :: usize where "w = of_nat (i * ?b)"
  have uw: "unat w = i * ?b"
    unfolding w_def using off small by (subst unat_of_nat) (simp add: order.strict_trans)
  let ?len = "min bytes (dsize d - w)"
  have not_end: "\<not> dsize d \<le> w"
    using off by (simp add: word_le_nat_alt uw)
  have ulen: "unat ?len = min ?b (?n - i * ?b)"
    using off by (simp add: min_def word_le_nat_alt unat_diff_word uw)
  then have len: "?len = of_nat (min ?b (?n - i * ?b))"
    by (rule word_of_unat)
  have "unat w + unat ?len < 2 ^ 64"
    using off small unfolding uw ulen by linarith
  then have "unat (w + ?len) = unat w + unat ?len"
    by (intro unat_add_no_wrap) simp
  then have "unat (w + ?len) = min (Suc i * ?b) ?n"
    using off unfolding uw ulen by simp
  then have step: "w + ?len = of_nat (min (Suc i * ?b) ?n)"
    by (rule word_of_unat)
  have start: "of_nat (min (i * ?b) ?n) = w"
    using off unfolding w_def by (simp only: min_absorb1 less_imp_le)
  have next_eq: "dma_chunks_next \<lparr>current_offset = of_nat (min (i * ?b) ?n),
       chunk_size = bytes, chunks_dma = d\<rparr>
     = (Some (nth_chunk d bytes i), \<lparr>current_offset = of_nat (min (Suc i * ?b) ?n),
       chunk_size = bytes, chunks_dma = d\<rparr>)"
    unfolding step [symmetric] start nth_chunk_def len [symmetric] w_def [symmetric]
    using not_end by (simp add: dma_chunks_next_def size_of_u8_def Let_def)
  have "dma_chunks_collect \<lparr>current_offset = of_nat (min (Suc i * ?b) ?n),
       chunk_size = bytes, chunks_dma = d\<rparr> = Some (map (nth_chunk d bytes) [Suc i..<?N])"
    using less Suc.hyps(2) by (intro Suc.hyps(1)) simp_all
  then show ?case
    using less by (subst dma_chunks_collect.simps) (simp add: next_eq upt_conv_Cons del: mult_Suc)
qed


text \<open>
  C9. A loop over the chunks of a region visits them in order and ends: for a positive chunk
  size the \<open>i\<close>-th chunk starts \<open>i * bytes\<close> into the region, on the host side and on the
  controller side alike, and holds the next \<open>bytes\<close> bytes, or what is left of the region.
\<close>

theorem chunks_tile_region:
  assumes "bytes \<noteq> 0"
  shows "dma_chunks_collect (chunks d bytes)
    = Some (map (nth_chunk d bytes) [0..<chunk_count (unat bytes) (unat (dsize d))])"
proof -
  have "0 < unat bytes" using assms by (simp add: unat_gt_0)
  from dma_chunks_collect_at [OF this, of 0] show ?thesis by (simp add: chunks_def)
qed

theorem chunks_tile_region_witness:
  "dma_chunks_collect (chunks \<lparr>virt = 0, phys = 65536, dsize = 10000\<rparr> 8192)
    = Some [\<lparr>phys_addr = 65536, chunk_slice = (0, 8192)\<rparr>,
            \<lparr>phys_addr = 73728, chunk_slice = (8192, 1808)\<rparr>]"
proof -
  have "chunk_count (unat (8192 :: usize)) (unat (10000 :: usize)) = 2"
    by (simp add: chunk_count_def)
  then show ?thesis
    by (subst chunks_tile_region) (simp_all add: nth_chunk_def upt_conv_Cons)
qed

lemma sum_list_chunk_lens:
  assumes "bytes \<noteq> 0"
  shows "sum_list (map (\<lambda>i. unat (chunk_len (nth_chunk d bytes i)))
            [0..<chunk_count (unat bytes) (unat (dsize d))]) = unat (dsize d)"
proof -
  let ?b = "unat bytes" and ?n = "unat (dsize d)"
  have b: "0 < ?b" using assms by (simp add: unat_gt_0)
  have len: "unat (chunk_len (nth_chunk d bytes i)) = min ?b (?n - i * ?b)" for i
  proof -
    have "min ?b (?n - i * ?b) < 2 ^ 64" by (simp add: min.strict_coboundedI1)
    then show ?thesis by (simp add: nth_chunk_def unat_of_nat del: of_nat_diff)
  qed
  have "sum_list (map (\<lambda>i. min ?b (?n - i * ?b)) [0..<k]) = min (k * ?b) ?n" for k
    by (induction k) auto
  moreover have "?n \<le> chunk_count ?b ?n * ?b"
    using chunk_count_less [OF b, of "chunk_count ?b ?n" ?n] by simp
  ultimately show ?thesis by (simp add: len)
qed

subsection \<open>Slices of a region\<close>

lemma dma_slice_out_of_bounds:
  "dma_slice d start stop = Inl Assertion_failed \<longleftrightarrow> dsize d < stop"
  by (auto simp: dma_slice_def)

text \<open>
  Slicing composes with indexing: a range that lies within a region gives a sub-region whose
  bytes at \<open>a .. b\<close> are the region's bytes at \<open>start + a .. start + b\<close>, at the same offset
  from the region's start for the controller, and in bounds.
\<close>

lemma dma_slice_index:
  assumes "start \<le> stop" and "stop \<le> dsize d" and "a \<le> b" and "b \<le> stop - start"
  shows "\<exists>s. dma_slice d start stop = Inr s
    \<and> phys s + a = phys d + (start + a)
    \<and> dma_index_range s a b = Inr (virt d + (start + a), b - a)
    \<and> dma_index_range d (start + a) (start + b) = Inr (virt d + (start + a), b - a)"
proof -
  have "unat start + unat b \<le> unat stop"
    using assms(1,4) by (simp add: word_le_nat_alt unat_diff_word)
  moreover have "unat (start + b) = unat start + unat b"
    using calculation unat_less_2p64 [of stop]
    by (intro unat_add_no_wrap) (simp del: unat_less_2p64)
  ultimately have "start + b \<le> dsize d"
    using assms(2) by (simp add: word_le_nat_alt)
  then show ?thesis
    using assms by (simp add: dma_slice_def dma_index_range_def add.assoc)
qed

lemma region_offset:
  assumes "j < unat (dsize d)"
  shows "virt d + of_nat j \<in> region d"
proof -
  have "unat (of_nat j :: usize) = j"
    using assms unat_less_2p64 [of "dsize d"] by (intro unat_of_nat_u64) (simp del: unat_less_2p64)
  then show ?thesis using assms by (simp add: region_def addr_range_def)
qed

end
