(* ===== verification/Cmd.thy ===== *)
theory Cmd
  imports Prelude
begin

text \<open>
  Submission queue entries (\<^verbatim>\<open>src/src/cmd.rs\<close>). \<open>nvme_command\<close> is the struct
  \<^verbatim>\<open>NvmeCommand\<close>, one \<open>cmd_\<close> function per constructor of its \<^verbatim>\<open>impl\<close>. \<open>encode_command\<close> is
  its \<^verbatim>\<open>repr(C, packed)\<close> layout, the 64 bytes that a store into a queue slot writes and that the
  controller fetches. The lemmas show that the layout loses nothing and that the packed dwords
  carry the block address, block count, queue identifier and queue size they were made from.
\<close>

unbundle bit_operations_syntax

record nvme_command =
  opcode :: u8
  flags :: u8
  c_id :: u16
  ns_id :: u32
  rsvd :: u64
  md_ptr :: u64
  d_ptr :: "u64 \<times> u64"
  cdw10 :: u32
  cdw11 :: u32
  cdw12 :: u32
  cdw13 :: u32
  cdw14 :: u32
  cdw15 :: u32

definition default_command :: nvme_command where
  "default_command = \<lparr>opcode = 0, flags = 0, c_id = 0, ns_id = 0, rsvd = 0, md_ptr = 0,
     d_ptr = (0, 0), cdw10 = 0, cdw11 = 0, cdw12 = 0, cdw13 = 0, cdw14 = 0, cdw15 = 0\<rparr>"

definition cmd_create_io_completion_queue :: "u16 \<Rightarrow> u16 \<Rightarrow> usize \<Rightarrow> u16 \<Rightarrow> nvme_command" where
  "cmd_create_io_completion_queue cid qid ptr qsize =
     \<lparr>opcode = 5, flags = 0, c_id = cid, ns_id = 0, rsvd = 0, md_ptr = 0,
      d_ptr = (ptr, 0),
      cdw10 = push_bit 16 (ucast qsize) OR ucast qid,
      cdw11 = 1,
      cdw12 = 0, cdw13 = 0, cdw14 = 0, cdw15 = 0\<rparr>"

definition cmd_create_io_submission_queue ::
    "u16 \<Rightarrow> u16 \<Rightarrow> usize \<Rightarrow> u16 \<Rightarrow> u16 \<Rightarrow> nvme_command" where
  "cmd_create_io_submission_queue cid qid ptr qsize cqid =
     \<lparr>opcode = 1, flags = 0, c_id = cid, ns_id = 0, rsvd = 0, md_ptr = 0,
      d_ptr = (ptr, 0),
      cdw10 = push_bit 16 (ucast qsize) OR ucast qid,
      cdw11 = push_bit 16 (ucast cqid) OR 1,
      cdw12 = 0, cdw13 = 0, cdw14 = 0, cdw15 = 0\<rparr>"

definition cmd_delete_io_submission_queue :: "u16 \<Rightarrow> u16 \<Rightarrow> nvme_command" where
  "cmd_delete_io_submission_queue cid qid =
     default_command\<lparr>opcode := 0, c_id := cid, cdw10 := ucast qid\<rparr>"

definition cmd_delete_io_completion_queue :: "u16 \<Rightarrow> u16 \<Rightarrow> nvme_command" where
  "cmd_delete_io_completion_queue cid qid =
     default_command\<lparr>opcode := 4, c_id := cid, cdw10 := ucast qid\<rparr>"

definition cmd_identify_namespace :: "u16 \<Rightarrow> usize \<Rightarrow> u32 \<Rightarrow> nvme_command" where
  "cmd_identify_namespace cid ptr nsid =
     \<lparr>opcode = 6, flags = 0, c_id = cid, ns_id = nsid, rsvd = 0, md_ptr = 0,
      d_ptr = (ptr, 0), cdw10 = 0, cdw11 = 0, cdw12 = 0, cdw13 = 0, cdw14 = 0, cdw15 = 0\<rparr>"

definition cmd_identify_controller :: "u16 \<Rightarrow> usize \<Rightarrow> nvme_command" where
  "cmd_identify_controller cid ptr =
     \<lparr>opcode = 6, flags = 0, c_id = cid, ns_id = 0, rsvd = 0, md_ptr = 0,
      d_ptr = (ptr, 0), cdw10 = 1, cdw11 = 0, cdw12 = 0, cdw13 = 0, cdw14 = 0, cdw15 = 0\<rparr>"

definition cmd_identify_namespace_list :: "u16 \<Rightarrow> usize \<Rightarrow> u32 \<Rightarrow> nvme_command" where
  "cmd_identify_namespace_list cid ptr base =
     \<lparr>opcode = 6, flags = 0, c_id = cid, ns_id = base, rsvd = 0, md_ptr = 0,
      d_ptr = (ptr, 0), cdw10 = 2, cdw11 = 0, cdw12 = 0, cdw13 = 0, cdw14 = 0, cdw15 = 0\<rparr>"

text \<open>The constructor takes a command identifier and does not store it.\<close>

definition cmd_get_features :: "u16 \<Rightarrow> usize \<Rightarrow> u8 \<Rightarrow> nvme_command" where
  "cmd_get_features cid ptr fid =
     default_command\<lparr>opcode := 0xA, d_ptr := (ptr, 0), cdw10 := ucast fid\<rparr>"

definition cmd_io_read :: "u16 \<Rightarrow> u32 \<Rightarrow> u64 \<Rightarrow> u16 \<Rightarrow> u64 \<Rightarrow> u64 \<Rightarrow> nvme_command" where
  "cmd_io_read cid nsid lba blocks_1 ptr0 ptr1 =
     \<lparr>opcode = 2, flags = 0, c_id = cid, ns_id = nsid, rsvd = 0, md_ptr = 0,
      d_ptr = (ptr0, ptr1),
      cdw10 = ucast lba, cdw11 = ucast (drop_bit 32 lba), cdw12 = ucast blocks_1,
      cdw13 = 0, cdw14 = 0, cdw15 = 0\<rparr>"

definition cmd_io_write :: "u16 \<Rightarrow> u32 \<Rightarrow> u64 \<Rightarrow> u16 \<Rightarrow> u64 \<Rightarrow> u64 \<Rightarrow> nvme_command" where
  "cmd_io_write cid nsid lba blocks_1 ptr0 ptr1 =
     \<lparr>opcode = 1, flags = 0, c_id = cid, ns_id = nsid, rsvd = 0, md_ptr = 0,
      d_ptr = (ptr0, ptr1),
      cdw10 = ucast lba, cdw11 = ucast (drop_bit 32 lba), cdw12 = ucast blocks_1,
      cdw13 = 0, cdw14 = 0, cdw15 = 0\<rparr>"

definition cmd_format_nvm :: "u16 \<Rightarrow> u32 \<Rightarrow> nvme_command" where
  "cmd_format_nvm cid nsid =
     \<lparr>opcode = 0x80, flags = 0, c_id = cid, ns_id = nsid, rsvd = 0, md_ptr = 0,
      d_ptr = (0, 0), cdw10 = push_bit 9 1,
      cdw11 = 0, cdw12 = 0, cdw13 = 0, cdw14 = 0, cdw15 = 0\<rparr>"

definition cmd_async_event_req :: "u16 \<Rightarrow> nvme_command" where
  "cmd_async_event_req cid =
     \<lparr>opcode = 0xC, flags = 0, c_id = cid, ns_id = 0, rsvd = 0, md_ptr = 0,
      d_ptr = (0, 0), cdw10 = 0,
      cdw11 = 0, cdw12 = 0, cdw13 = 0, cdw14 = 0, cdw15 = 0\<rparr>"

definition cmd_get_log_page :: "u16 \<Rightarrow> u32 \<Rightarrow> u64 \<Rightarrow> u64 \<Rightarrow> u8 \<Rightarrow> u16 \<Rightarrow> nvme_command" where
  "cmd_get_log_page cid numd ptr0 ptr1 lid lpid =
     default_command\<lparr>c_id := cid, d_ptr := (ptr0, ptr1),
       cdw10 := push_bit 16 numd OR ucast lid,
       cdw11 := push_bit 16 (ucast lpid) OR drop_bit 16 numd\<rparr>"

definition cmd_write_zeroes :: "u16 \<Rightarrow> u32 \<Rightarrow> u64 \<Rightarrow> u16 \<Rightarrow> bool \<Rightarrow> nvme_command" where
  "cmd_write_zeroes cid nsid slba nlb deac =
     \<lparr>opcode = 8, flags = 0, c_id = cid, ns_id = nsid, rsvd = 0, md_ptr = 0,
      d_ptr = (0, 0),
      cdw10 = ucast slba, cdw11 = ucast (drop_bit 32 slba),
      cdw12 = push_bit 25 (of_bool deac) OR ucast nlb,
      cdw13 = 0, cdw14 = 0, cdw15 = 0\<rparr>"

subsection \<open>Layout\<close>

definition size_of_NvmeCommand :: usize where "size_of_NvmeCommand = 64"

definition encode_command :: "nvme_command \<Rightarrow> u8 list" where
  "encode_command c =
     le_bytes 1 (opcode c) @ le_bytes 1 (flags c) @ le_bytes 2 (c_id c) @ le_bytes 4 (ns_id c)
     @ le_bytes 8 (rsvd c) @ le_bytes 8 (md_ptr c)
     @ le_bytes 8 (fst (d_ptr c)) @ le_bytes 8 (snd (d_ptr c))
     @ le_bytes 4 (cdw10 c) @ le_bytes 4 (cdw11 c) @ le_bytes 4 (cdw12 c)
     @ le_bytes 4 (cdw13 c) @ le_bytes 4 (cdw14 c) @ le_bytes 4 (cdw15 c)"

definition decode_command :: "u8 list \<Rightarrow> nvme_command" where
  "decode_command bs =
     \<lparr>opcode = bytes_field bs 0 1, flags = bytes_field bs 1 1, c_id = bytes_field bs 2 2,
      ns_id = bytes_field bs 4 4, rsvd = bytes_field bs 8 8, md_ptr = bytes_field bs 16 8,
      d_ptr = (bytes_field bs 24 8, bytes_field bs 32 8),
      cdw10 = bytes_field bs 40 4, cdw11 = bytes_field bs 44 4, cdw12 = bytes_field bs 48 4,
      cdw13 = bytes_field bs 52 4, cdw14 = bytes_field bs 56 4, cdw15 = bytes_field bs 60 4\<rparr>"

lemma length_encode_command [simp, layout_simps]: "length (encode_command c) = 64"
  by (simp add: encode_command_def)

lemma decode_encode_command [simp]: "decode_command (encode_command c) = c"
  by (cases c) (simp add: decode_command_def encode_command_def bytes_field_def)

text \<open>
  The layout of a submission entry has exactly the size the queue arithmetic uses, 64 bytes,
  and every field of the entry can be read back from those bytes.
\<close>

lemma command_layout_roundtrip:
  "length (encode_command c) = unat size_of_NvmeCommand \<and> decode_command (encode_command c) = c"
  by (simp add: size_of_NvmeCommand_def)

subsection \<open>Packed dwords\<close>

lemma ucast_split_32: "push_bit 32 (ucast (ucast (drop_bit 32 w) :: u32)) OR ucast (ucast w :: u32) = (w :: u64)"
  by (rule bit_word_eqI) (auto simp: bit_simps bit_or_iff)

lemma dword_halves:
  "ucast (push_bit 16 (ucast hi) OR ucast lo :: u32) = (lo :: u16)"
  "ucast (drop_bit 16 (push_bit 16 (ucast hi) OR ucast lo :: u32)) = (hi :: u16)"
  by (auto intro!: bit_word_eqI simp: bit_simps bit_or_iff)

text \<open>What the controller reads out of a read or write command.\<close>

definition io_lba :: "nvme_command \<Rightarrow> u64" where
  "io_lba c = push_bit 32 (ucast (cdw11 c)) OR ucast (cdw10 c)"

definition io_blocks :: "nvme_command \<Rightarrow> nat" where
  "io_blocks c = unat (ucast (cdw12 c) :: u16) + 1"

text \<open>The count is cast to \<^verbatim>\<open>u16\<close> before one is taken off; for 65536 blocks the cast gives 0
  and the subtraction wraps to 65535.\<close>

lemma unat_blocks_minus_1:
  assumes "0 < (blocks :: u64)" and "blocks \<le> 0x10000"
  shows "unat ((ucast blocks :: u16) - 1) + 1 = unat blocks"
proof -
  have b: "0 < unat blocks" "unat blocks \<le> 65536"
    using assms by (simp_all add: word_less_nat_alt word_le_nat_alt)
  have u: "unat (ucast blocks :: u16) = unat blocks mod 65536"
    by (simp add: unsigned_ucast_eq take_bit_eq_mod)
  show ?thesis
  proof (cases "unat blocks = 65536")
    case True
    then have "(ucast blocks :: u16) = 0" using u by (simp add: unat_eq_zero [symmetric])
    then show ?thesis using True by (simp add: unsigned_minus_1_eq_mask mask_eq_exp_minus_1)
  next
    case False
    then have "unat (ucast blocks :: u16) = unat blocks" using u b by simp
    then show ?thesis using b by (subst unat_minus_one) auto
  qed
qed

lemma io_fields [simp]:
  "io_lba (cmd_io_read cid ns lba n p q) = lba"
  "io_lba (cmd_io_write cid ns lba n p q) = lba"
  "io_blocks (cmd_io_read cid ns lba n p q) = unat n + 1"
  "io_blocks (cmd_io_write cid ns lba n p q) = unat n + 1"
  "ns_id (cmd_io_read cid ns lba n p q) = ns" "ns_id (cmd_io_write cid ns lba n p q) = ns"
  "c_id (cmd_io_read cid ns lba n p q) = cid" "c_id (cmd_io_write cid ns lba n p q) = cid"
  "d_ptr (cmd_io_read cid ns lba n p q) = (p, q)" "d_ptr (cmd_io_write cid ns lba n p q) = (p, q)"
  "opcode (cmd_io_read cid ns lba n p q) = 2" "opcode (cmd_io_write cid ns lba n p q) = 1"
  by (simp_all add: io_lba_def io_blocks_def cmd_io_read_def cmd_io_write_def ucast_split_32)

text \<open>
  A read or write command carries the whole 64-bit block address in its two dwords and, for
  every count from 1 to 65536, a zero-based block count from which the count is recovered:
  the cast to 16 bits loses nothing within the bounds the driver asserts.
\<close>

lemma io_command_carries_range:
  assumes "0 < (blocks :: u64)" and "blocks \<le> 0x10000"
  shows "io_lba (cmd_io_read cid ns lba (ucast blocks - 1) p q) = lba
    \<and> io_blocks (cmd_io_read cid ns lba (ucast blocks - 1) p q) = unat blocks
    \<and> io_lba (cmd_io_write cid ns lba (ucast blocks - 1) p q) = lba
    \<and> io_blocks (cmd_io_write cid ns lba (ucast blocks - 1) p q) = unat blocks"
  using unat_blocks_minus_1 [OF assms] by simp

text \<open>
  The commands that create a queue pair give the controller the queue identifier, the
  zero-based size and, for a submission queue, the identifier of its completion queue, each
  recoverable from its half of a dword; both queues are marked physically contiguous.
\<close>

lemma create_queue_commands_pack:
  "ucast (cdw10 (cmd_create_io_completion_queue cid qid ptr sz)) = qid
   \<and> ucast (drop_bit 16 (cdw10 (cmd_create_io_completion_queue cid qid ptr sz))) = sz
   \<and> bit (cdw11 (cmd_create_io_completion_queue cid qid ptr sz)) 0
   \<and> ucast (cdw10 (cmd_create_io_submission_queue cid qid ptr sz cqid)) = qid
   \<and> ucast (drop_bit 16 (cdw10 (cmd_create_io_submission_queue cid qid ptr sz cqid))) = sz
   \<and> ucast (drop_bit 16 (cdw11 (cmd_create_io_submission_queue cid qid ptr sz cqid))) = cqid
   \<and> bit (cdw11 (cmd_create_io_submission_queue cid qid ptr sz cqid)) 0"
proof -
  have "ucast (drop_bit 16 (push_bit 16 (ucast cqid) OR 1 :: u32)) = cqid"
    using dword_halves(2) [of cqid 1] by (simp del: drop_bit_or)
  then show ?thesis
    by (simp add: cmd_create_io_completion_queue_def cmd_create_io_submission_queue_def
        dword_halves bit_or_iff bit_simps del: drop_bit_or)
qed

text \<open>
  Reading a log page asks for a dword count that is split over two dwords without loss,
  but the command never sets its opcode: it keeps the default 0, which is the opcode of the
  command that deletes a submission queue. Reading features drops the command identifier.
\<close>

lemma get_log_page_opcode:
  "ucast (push_bit 16 (ucast (cdw11 (cmd_get_log_page cid numd p q lid lpid)) :: u32)
      OR drop_bit 16 (cdw10 (cmd_get_log_page cid numd p q lid lpid))) = numd
   \<and> opcode (cmd_get_log_page cid numd p q lid lpid) = opcode (cmd_delete_io_submission_queue cid qid)
   \<and> c_id (cmd_get_features cid ptr fid) = 0"
proof -
  have "push_bit 16 (push_bit 16 (ucast lpid) OR drop_bit 16 numd :: u32)
     OR drop_bit 16 (push_bit 16 numd OR ucast lid) = numd"
  proof (rule bit_word_eqI)
    fix n assume "n < LENGTH(32)"
    then show "bit (push_bit 16 (push_bit 16 (ucast lpid) OR drop_bit 16 numd :: u32)
        OR drop_bit 16 (push_bit 16 numd OR ucast lid)) n = bit numd n"
      by (cases "n < 16") (auto simp: bit_simps bit_or_iff)
  qed
  then show ?thesis
    by (simp add: cmd_get_log_page_def cmd_delete_io_submission_queue_def cmd_get_features_def
        default_command_def)
qed

end
