(* ===== verification/Fifo_Spec.thy ===== *)
theory Fifo_Spec
  imports Main
begin

text \<open>
  The contract between a bounded queue and its clients. The specification is a list with a
  capacity: \<open>Push\<close> appends or is refused when the list is full, \<open>Release k\<close> drops the \<open>k\<close>
  oldest elements. The locale \<open>bounded_fifo\<close> states what an implementation promises about one
  operation; the lemmas in it lift the promise to whole sequences of operations
  (\<open>run_refines\<close>) and to a producer that pushes until it is refused (\<open>feed_contents\<close>).
\<close>

datatype 'a fifo_op = Push 'a | Release nat

fun spec_run :: "nat \<Rightarrow> 'a fifo_op list \<Rightarrow> 'a list \<Rightarrow> 'a list option" where
  "spec_run c [] xs = Some xs"
| "spec_run c (Push x # ops) xs = spec_run c ops (if length xs < c then xs @ [x] else xs)"
| "spec_run c (Release k # ops) xs =
     (if k \<le> length xs then spec_run c ops (drop k xs) else None)"

fun fifo_run ::
    "('a \<Rightarrow> 'q \<Rightarrow> 'q option) \<Rightarrow> (nat \<Rightarrow> 'q \<Rightarrow> 'q) \<Rightarrow> 'a fifo_op list \<Rightarrow> 'q \<Rightarrow> 'q" where
  "fifo_run push release [] q = q"
| "fifo_run push release (Push x # ops) q =
     fifo_run push release ops (case push x q of None \<Rightarrow> q | Some q' \<Rightarrow> q')"
| "fifo_run push release (Release k # ops) q = fifo_run push release ops (release k q)"

text \<open>A producer: it makes an element from the next item and the queue, pushes it, and stops at
  the first refusal; the count says how many items got in.\<close>

fun fifo_feed ::
    "('a \<Rightarrow> 'q \<Rightarrow> 'q option) \<Rightarrow> ('x \<Rightarrow> 'q \<Rightarrow> 'a) \<Rightarrow> 'x list \<Rightarrow> 'q \<Rightarrow> nat \<times> 'a list \<times> 'q" where
  "fifo_feed push mk [] q = (0, [], q)"
| "fifo_feed push mk (x # xs) q =
     (case push (mk x q) q of
        None \<Rightarrow> (0, [], q)
      | Some q' \<Rightarrow> (case fifo_feed push mk xs q' of (n, as, q'') \<Rightarrow> (Suc n, mk x q # as, q'')))"

text \<open>When elements depend on the queue only through an observation that each push advances in
  a fixed way, the elements that got in can be listed beforehand.\<close>

lemma feed_elements:
  assumes obs: "\<And>a q q'. push a q = Some q' \<Longrightarrow> obs q' = nxt (obs q)"
    and mk: "\<And>x q. mk x q = mk' x (obs q)"
    and feed: "fifo_feed push mk xs q = (n, as, q')"
  shows "n \<le> length xs \<and> as = map (\<lambda>i. mk' (xs ! i) ((nxt ^^ i) (obs q))) [0..<n]
    \<and> obs q' = (nxt ^^ n) (obs q)"
  using feed
proof (induction xs arbitrary: q n as)
  case Nil
  then show ?case by simp
next
  case (Cons x xs)
  show ?case
  proof (cases "push (mk x q) q")
    case None
    then show ?thesis using Cons.prems by simp
  next
    case (Some r)
    obtain k bs where rest: "fifo_feed push mk xs r = (k, bs, q')" "n = Suc k" "as = mk x q # bs"
      using Cons.prems Some by (auto split: prod.splits)
    have "obs r = nxt (obs q)" using Some by (rule obs)
    then have "k \<le> length xs \<and> bs = map (\<lambda>i. mk' (xs ! i) ((nxt ^^ Suc i) (obs q))) [0..<k]
        \<and> obs q' = (nxt ^^ Suc k) (obs q)"
      using Cons.IH [OF rest(1)] by (simp add: funpow_swap1)
    then show ?thesis
      using rest by (simp add: mk upt_conv_Cons map_Suc_upt [symmetric] del: upt_Suc funpow.simps(2))
  qed
qed

locale bounded_fifo =
  fixes inv :: "'q \<Rightarrow> bool"
    and contents :: "'q \<Rightarrow> 'a list"
    and cap :: "'q \<Rightarrow> nat"
    and push :: "'a \<Rightarrow> 'q \<Rightarrow> 'q option"
    and release :: "nat \<Rightarrow> 'q \<Rightarrow> 'q"
  assumes length_le_cap: "inv q \<Longrightarrow> length (contents q) \<le> cap q"
    and push_full: "inv q \<Longrightarrow> length (contents q) = cap q \<Longrightarrow> push x q = None"
    and push_room: "inv q \<Longrightarrow> length (contents q) < cap q \<Longrightarrow>
      \<exists>q'. push x q = Some q' \<and> inv q' \<and> contents q' = contents q @ [x] \<and> cap q' = cap q"
    and release: "inv q \<Longrightarrow> k \<le> length (contents q) \<Longrightarrow>
      inv (release k q) \<and> contents (release k q) = drop k (contents q) \<and> cap (release k q) = cap q"
begin

lemma push_cases:
  assumes "inv q"
  obtains (full) "push x q = None" "length (contents q) = cap q"
  | (room) q' where "push x q = Some q'" "inv q'" "contents q' = contents q @ [x]"
      "cap q' = cap q" "length (contents q) < cap q"
proof (cases "length (contents q) < cap q")
  case True
  then show thesis using push_room [OF assms True] that(2) by blast
next
  case False
  then have "length (contents q) = cap q" using length_le_cap [OF assms] by simp
  then show thesis by (intro that(1)) (simp_all add: push_full [OF assms])
qed

lemma run_refines:
  assumes "inv q" and "spec_run (cap q) ops (contents q) = Some ys"
  shows "inv (fifo_run push release ops q) \<and> contents (fifo_run push release ops q) = ys
    \<and> cap (fifo_run push release ops q) = cap q"
  using assms
proof (induction ops arbitrary: q)
  case Nil
  then show ?case by simp
next
  case (Cons op ops)
  show ?case
  proof (cases op)
    case (Push x)
    from Cons.prems(1) show ?thesis
    proof (cases rule: push_cases [where x = x])
      case full
      then show ?thesis using Cons.IH [of q] Cons.prems Push by simp
    next
      case (room q')
      then show ?thesis using Cons.IH [of q'] Cons.prems Push by simp
    qed
  next
    case (Release k)
    then have k: "k \<le> length (contents q)" using Cons.prems(2) by (simp split: if_splits)
    with release [OF Cons.prems(1) k] show ?thesis
      using Cons.IH [of "release k q"] Cons.prems(2) Release by simp
  qed
qed

lemma feed_contents:
  assumes "inv q" and "fifo_feed push mk xs q = (n, as, q')"
  shows "inv q' \<and> contents q' = contents q @ as \<and> cap q' = cap q \<and> length as = n
    \<and> n = min (length xs) (cap q - length (contents q))"
  using assms
proof (induction xs arbitrary: q n as q')
  case Nil
  then show ?case by simp
next
  case (Cons x xs)
  from Cons.prems(1) show ?case
  proof (cases rule: push_cases [where x = "mk x q"])
    case full
    then show ?thesis using Cons.prems by simp
  next
    case (room r)
    obtain k bs where rest: "fifo_feed push mk xs r = (k, bs, q')" "n = Suc k" "as = mk x q # bs"
      using Cons.prems(2) room(1) by (auto split: prod.splits)
    then show ?thesis using Cons.IH [OF room(2) rest(1)] room by auto
  qed
qed

end

end
