(* ===== verification/Queues.thy ===== *)
theory Queues
  imports Hardware Memory Cmd Fifo_Spec
begin

text \<open>
  Submission and completion queues (\<^verbatim>\<open>src/src/queues.rs\<close>). Both are rings in DMA memory; the
  records hold the indices and the layout functions find the slots. Operations run on a queue
  together with the world that holds its memory.

  A submission queue refines a bounded list: \<open>sq_pending\<close> is the list of commands between head
  and tail, and submitting appends to it or reports a full queue. A completion queue is
  followed by counting: after \<open>N\<close> completions its index and phase are functions of \<open>N\<close>, and
  a poll returns exactly the \<open>N\<close>-th completion the controller posted, or nothing if it has
  not been posted.
\<close>

unbundle bit_operations_syntax

record nvme_completion =
  ce_command_specific :: u32
  ce_rsvd :: u32
  ce_sq_head :: u16
  ce_sq_id :: u16
  ce_c_id :: u16
  ce_status :: u16

definition size_of_NvmeCompletion :: usize where "size_of_NvmeCompletion = 16"

definition encode_completion :: "nvme_completion \<Rightarrow> u8 list" where
  "encode_completion c =
     le_bytes 4 (ce_command_specific c) @ le_bytes 4 (ce_rsvd c) @ le_bytes 2 (ce_sq_head c)
     @ le_bytes 2 (ce_sq_id c) @ le_bytes 2 (ce_c_id c) @ le_bytes 2 (ce_status c)"

definition decode_completion :: "u8 list \<Rightarrow> nvme_completion" where
  "decode_completion bs =
     \<lparr>ce_command_specific = bytes_field bs 0 4, ce_rsvd = bytes_field bs 4 4,
      ce_sq_head = bytes_field bs 8 2, ce_sq_id = bytes_field bs 10 2,
      ce_c_id = bytes_field bs 12 2, ce_status = bytes_field bs 14 2\<rparr>"

definition QUEUE_LENGTH :: usize where
  "QUEUE_LENGTH = drop_bit 1 (PAGESIZE_2MIB div size_of_NvmeCommand)"

lemma queue_constants [simp]:
  "QUEUE_LENGTH = 16384" "size_of_NvmeCommand = 64" "size_of_NvmeCompletion = 16"
  by (simp_all add: QUEUE_LENGTH_def size_of_NvmeCommand_def size_of_NvmeCompletion_def)

subsection \<open>Submission queue\<close>

record submission_queue =
  sq_commands :: dma
  sq_head :: usize
  sq_tail :: usize
  sq_len :: usize
  sq_doorbell :: usize

definition sq_new ::
    "(usize \<Rightarrow> ('s, dma) comp) \<Rightarrow> usize \<Rightarrow> usize \<Rightarrow> ('s, submission_queue) comp" where
  "sq_new allocate len doorbell =
     mbind (allocate (size_of_NvmeCommand * QUEUE_LENGTH)) (\<lambda>commands.
     mret \<lparr>sq_commands = commands, sq_head = 0, sq_tail = 0,
           sq_len = min len QUEUE_LENGTH, sq_doorbell = doorbell\<rparr>)"

definition sq_is_empty :: "submission_queue \<Rightarrow> bool" where
  "sq_is_empty sq \<longleftrightarrow> sq_head sq = sq_tail sq"

definition sq_is_full :: "submission_queue \<Rightarrow> panic + bool" where
  "sq_is_full sq =
     (if sq_len sq = 0 then Inl Division_by_zero
      else Inr (sq_head sq = (sq_tail sq + 1) mod sq_len sq))"

definition sq_submit :: "nvme_command \<Rightarrow> (submission_queue \<times> 'd world, usize) comp" where
  "sq_submit entry = (\<lambda>(sq, w).
     if \<not> sq_tail sq < QUEUE_LENGTH then Some (Panic Index_out_of_bounds, (sq, w))
     else
       let slot = virt (sq_commands sq) + size_of_NvmeCommand * sq_tail sq;
           w' = w\<lparr>wmem := mem_write (wmem w) slot (encode_command entry)\<rparr>
       in if sq_len sq = 0 then Some (Panic Division_by_zero, (sq, w'))
          else
            let tail = (sq_tail sq + 1) mod sq_len sq
            in Some (Ret tail, (sq\<lparr>sq_tail := tail\<rparr>, w')))"

definition sq_submit_checked ::
    "nvme_command \<Rightarrow> (submission_queue \<times> 'd world, usize option) comp" where
  "sq_submit_checked entry =
     mbind (mget fst) (\<lambda>sq.
     mbind (mlift (sq_is_full sq)) (\<lambda>full.
     if full then mret None
     else mbind (sq_submit entry) (\<lambda>tail. mret (Some tail))))"

definition sq_get_addr :: "submission_queue \<Rightarrow> usize" where
  "sq_get_addr sq = phys (sq_commands sq)"

subsection \<open>Completion queue\<close>

record completion_queue =
  cq_commands :: dma
  cq_head :: usize
  cq_phase :: bool
  cq_len :: usize
  cq_doorbell :: usize

definition cq_new ::
    "(usize \<Rightarrow> ('s, dma) comp) \<Rightarrow> usize \<Rightarrow> usize \<Rightarrow> ('s, completion_queue) comp" where
  "cq_new allocate len doorbell =
     mbind (allocate (size_of_NvmeCompletion * QUEUE_LENGTH)) (\<lambda>commands.
     mret \<lparr>cq_commands = commands, cq_head = 0, cq_phase = True,
           cq_len = min len QUEUE_LENGTH, cq_doorbell = doorbell\<rparr>)"

definition cq_entry :: "completion_queue \<Rightarrow> memory \<Rightarrow> usize \<Rightarrow> nvme_completion" where
  "cq_entry cq m i =
     decode_completion (mem_read m (virt (cq_commands cq) + size_of_NvmeCompletion * i) 16)"

type_synonym polled = "usize \<times> nvme_completion \<times> usize"

definition cq_complete :: "(completion_queue \<times> 'd world, polled option) comp" where
  "cq_complete = (\<lambda>(cq, w).
     if \<not> cq_head cq < QUEUE_LENGTH then Some (Panic Index_out_of_bounds, (cq, w))
     else
       let entry = cq_entry cq (wmem w) (cq_head cq)
       in if (ce_status entry AND 1 = 1) = cq_phase cq then
            let prev = cq_head cq
            in if cq_len cq = 0 then Some (Panic Division_by_zero, (cq, w))
               else
                 let head = (cq_head cq + 1) mod cq_len cq;
                     phase = (if head = 0 then \<not> cq_phase cq else cq_phase cq)
                 in Some (Ret (Some (head, entry, prev)),
                      (cq\<lparr>cq_head := head, cq_phase := phase\<rparr>, w))
          else Some (Ret None, (cq, w)))"

partial_function (option) cq_complete_spin ::
    "'d hw \<Rightarrow> completion_queue \<times> 'd world
      \<Rightarrow> (polled outcome \<times> (completion_queue \<times> 'd world)) option" where
  "cq_complete_spin hw s =
     (case cq_complete s of
        None \<Rightarrow> None
      | Some (r, t) \<Rightarrow>
          (case r of
             Ret v \<Rightarrow>
               (case v of
                  Some val \<Rightarrow> Some (Ret val, t)
                | None \<Rightarrow> cq_complete_spin hw (fst t, hw_tick hw (snd t)))
           | Err e \<Rightarrow> Some (Err e, t)
           | Panic p \<Rightarrow> Some (Panic p, t)))"

definition cq_complete_n :: "'d hw \<Rightarrow> usize \<Rightarrow> (completion_queue \<times> 'd world, polled) comp" where
  "cq_complete_n hw n = (\<lambda>(cq, w).
     let prev = cq_head cq;
         head = cq_head cq + (n - 1);
         phase = (if cq_len cq \<le> head then \<not> cq_phase cq else cq_phase cq)
     in if cq_len cq = 0
        then Some (Panic Division_by_zero, (cq\<lparr>cq_head := head, cq_phase := phase\<rparr>, w))
        else mbind (cq_complete_spin hw) (\<lambda>(head, entry, _). mret (head, entry, prev))
               (cq\<lparr>cq_head := head mod cq_len cq, cq_phase := phase\<rparr>, w))"

definition cq_get_addr :: "completion_queue \<Rightarrow> usize" where
  "cq_get_addr cq = phys (cq_commands cq)"


subsection \<open>Ring arithmetic\<close>

text \<open>How far \<open>t\<close> is ahead of \<open>h\<close> on a ring of \<open>L\<close> positions.\<close>

definition ring_dist :: "nat \<Rightarrow> nat \<Rightarrow> nat \<Rightarrow> nat" where
  "ring_dist L h t = (if h \<le> t then t - h else t + L - h)"

lemma ring_succ: "t < L \<Longrightarrow> Suc t mod L = (if Suc t = L then 0 else Suc t)"
  by (simp add: mod_Suc)

lemma ring_dist_less: "h < L \<Longrightarrow> t < L \<Longrightarrow> ring_dist L h t < L"
  by (auto simp: ring_dist_def)

lemma ring_dist_full:
  "h < L \<Longrightarrow> t < L \<Longrightarrow> h = Suc t mod L \<longleftrightarrow> ring_dist L h t = L - 1"
  by (auto simp: ring_dist_def ring_succ split: if_splits)

lemma ring_dist_succ:
  "h < L \<Longrightarrow> t < L \<Longrightarrow> h \<noteq> Suc t mod L \<Longrightarrow> ring_dist L h (Suc t mod L) = Suc (ring_dist L h t)"
  by (auto simp: ring_dist_def ring_succ split: if_splits)

lemma ring_dist_reaches: "h < L \<Longrightarrow> t < L \<Longrightarrow> (h + ring_dist L h t) mod L = t"
  by (auto simp: ring_dist_def)

lemma ring_mod: "n < 2 * L \<Longrightarrow> n mod L = (if n < L then n else n - L)" for n :: nat
  using le_mod_geq [of L n] by auto

lemma ring_div: "r < L \<Longrightarrow> k < L \<Longrightarrow> (r + k) div L = (if L \<le> r + k then 1 else 0)" for r k L :: nat
  by (auto intro!: div_nat_eqI)

lemma ring_dist_before:
  assumes "h < L" and "t < L" and "i < ring_dist L h t"
  shows "(h + i) mod L \<noteq> t"
proof -
  have "i < L" using assms ring_dist_less [of h L t] by simp
  then have "(h + i) mod L = (if h + i < L then h + i else h + i - L)"
    using assms(1) by (intro ring_mod) simp
  then show ?thesis using assms by (auto simp: ring_dist_def split: if_splits)
qed

lemma unat_ring_succ:
  assumes "t < (L :: usize)" and "L \<le> 16384"
  shows "unat ((t + 1) mod L) = Suc (unat t) mod unat L"
proof -
  have "unat t < 16384" using assms by (simp add: word_less_nat_alt word_le_nat_alt)
  then have "unat (t + 1) = Suc (unat t)" by (subst unat_add_no_wrap) simp_all
  then show ?thesis by (simp add: unat_mod_word)
qed

subsection \<open>A submission queue is a bounded list of commands\<close>

definition sq_inv :: "submission_queue \<Rightarrow> bool" where
  "sq_inv sq \<longleftrightarrow> 0 < sq_len sq \<and> sq_len sq \<le> QUEUE_LENGTH
     \<and> sq_head sq < sq_len sq \<and> sq_tail sq < sq_len sq"

definition sq_slot :: "submission_queue \<Rightarrow> memory \<Rightarrow> nat \<Rightarrow> nvme_command" where
  "sq_slot sq m i = decode_command (mem_read m (cell (virt (sq_commands sq)) 64 i) 64)"

definition sq_count :: "submission_queue \<Rightarrow> nat" where
  "sq_count sq = ring_dist (unat (sq_len sq)) (unat (sq_head sq)) (unat (sq_tail sq))"

definition sq_pending :: "submission_queue \<Rightarrow> memory \<Rightarrow> nvme_command list" where
  "sq_pending sq m =
     map (\<lambda>i. sq_slot sq m ((unat (sq_head sq) + i) mod unat (sq_len sq))) [0..<sq_count sq]"

lemma sq_invD:
  assumes "sq_inv sq"
  shows "0 < unat (sq_len sq)" "unat (sq_len sq) \<le> 16384"
    "unat (sq_head sq) < unat (sq_len sq)" "unat (sq_tail sq) < unat (sq_len sq)"
    "sq_tail sq < 16384" "sq_len sq \<noteq> 0"
proof -
  have b: "0 < sq_len sq" "sq_len sq \<le> 16384" "sq_head sq < sq_len sq" "sq_tail sq < sq_len sq"
    using assms by (auto simp: sq_inv_def)
  then show "0 < unat (sq_len sq)" "unat (sq_len sq) \<le> 16384"
    "unat (sq_head sq) < unat (sq_len sq)" "unat (sq_tail sq) < unat (sq_len sq)"
    by (simp_all add: word_less_nat_alt word_le_nat_alt)
  show "sq_tail sq < 16384" using b(2,4) by (rule less_le_trans [rotated])
  show "sq_len sq \<noteq> 0" using b(1) by auto
qed

lemma length_sq_pending [simp]: "length (sq_pending sq m) = sq_count sq"
  by (simp add: sq_pending_def)

lemma sq_count_less: "sq_inv sq \<Longrightarrow> sq_count sq < unat (sq_len sq)"
  using sq_invD [of sq] by (simp add: sq_count_def ring_dist_less)

lemma sq_is_empty_iff: "sq_inv sq \<Longrightarrow> sq_is_empty sq \<longleftrightarrow> sq_pending sq m = []"
  using sq_invD [of sq]
  by (auto simp: sq_is_empty_def sq_pending_def sq_count_def ring_dist_def word_eq_iff_unsigned
      split: if_splits intro: word_eq_unatI)

lemma sq_is_full_iff:
  assumes "sq_inv sq"
  shows "sq_is_full sq = Inr (sq_count sq = unat (sq_len sq) - 1)"
proof -
  note b = sq_invD [OF assms]
  have "sq_head sq = (sq_tail sq + 1) mod sq_len sq
      \<longleftrightarrow> unat (sq_head sq) = Suc (unat (sq_tail sq)) mod unat (sq_len sq)"
    using assms unat_ring_succ [of "sq_tail sq" "sq_len sq"]
    by (auto simp: sq_inv_def intro: word_eq_unatI)
  then show ?thesis
    using b ring_dist_full [of "unat (sq_head sq)" "unat (sq_len sq)" "unat (sq_tail sq)"]
    by (simp add: sq_is_full_def sq_count_def)
qed

text \<open>The queue and memory after a successful submission.\<close>

definition sq_after :: "nvme_command \<Rightarrow> submission_queue \<Rightarrow> submission_queue" where
  "sq_after entry sq = sq\<lparr>sq_tail := (sq_tail sq + 1) mod sq_len sq\<rparr>"

definition sq_stored :: "nvme_command \<Rightarrow> submission_queue \<Rightarrow> memory \<Rightarrow> memory" where
  "sq_stored entry sq m =
     mem_write m (cell (virt (sq_commands sq)) 64 (unat (sq_tail sq))) (encode_command entry)"

lemma sq_submit_run:
  assumes "sq_inv sq"
  shows "sq_submit entry (sq, w) = Some (Ret (sq_tail (sq_after entry sq)),
           (sq_after entry sq, w\<lparr>wmem := sq_stored entry sq (wmem w)\<rparr>))"
  using sq_invD [OF assms]
  by (simp add: sq_submit_def sq_after_def sq_stored_def cell_def Let_def)

lemma sq_submit_checked_run:
  assumes "sq_inv sq"
  shows "sq_submit_checked entry (sq, w) =
    (if sq_count sq = unat (sq_len sq) - 1 then Some (Ret None, (sq, w))
     else Some (Ret (Some (sq_tail (sq_after entry sq))),
            (sq_after entry sq, w\<lparr>wmem := sq_stored entry sq (wmem w)\<rparr>)))"
  by (simp add: sq_submit_checked_def run_simps sq_is_full_iff [OF assms] sq_submit_run [OF assms])

lemma sq_inv_after:
  assumes "sq_inv sq"
  shows "sq_inv (sq_after entry sq)"
proof -
  have "(sq_tail sq + 1) mod sq_len sq < sq_len sq"
    using sq_invD(1) [OF assms] unfolding word_less_nat_alt unat_mod_word by simp
  then show ?thesis using assms by (simp add: sq_inv_def sq_after_def)
qed

lemma sq_slot_stored:
  assumes "i < 16384" and "sq_inv sq"
  shows "sq_slot sq (sq_stored entry sq m) i = (if i = unat (sq_tail sq) then entry else sq_slot sq m i)"
proof (cases "i = unat (sq_tail sq)")
  case True
  then show ?thesis
    by (simp add: sq_slot_def sq_stored_def mem_read_write_exact)
next
  case False
  have "unat (sq_tail sq) < 16384" using sq_invD [OF assms(2)] by simp
  then have "disjoint_ranges (cell b 64 (unat (sq_tail sq))) 64 (cell b 64 i) 64" for b
    using False assms(1) by (intro cell_disjoint [where n = 16384]) (simp_all del: unat_less_2p64)
  then show ?thesis
    using False by (simp add: sq_slot_def sq_stored_def mem_read_write_disjoint)
qed

lemma sq_pending_submit:
  assumes inv: "sq_inv sq" and room: "sq_count sq \<noteq> unat (sq_len sq) - 1"
  shows "sq_pending (sq_after entry sq) (sq_stored entry sq m) = sq_pending sq m @ [entry]"
proof -
  note b = sq_invD [OF inv]
  let ?L = "unat (sq_len sq)" and ?h = "unat (sq_head sq)" and ?t = "unat (sq_tail sq)"
  have t': "unat (sq_tail (sq_after entry sq)) = Suc ?t mod ?L"
    using inv by (simp add: sq_after_def sq_inv_def unat_ring_succ)
  have "?h \<noteq> Suc ?t mod ?L"
    using room b by (simp add: ring_dist_full sq_count_def)
  then have count: "sq_count (sq_after entry sq) = Suc (sq_count sq)"
    using b unfolding sq_count_def t' by (simp add: sq_after_def ring_dist_succ)
  have slot: "sq_slot sq (sq_stored entry sq m) ((?h + i) mod ?L)
      = (if i = sq_count sq then entry else sq_slot sq m ((?h + i) mod ?L))"
    if "i \<le> sq_count sq" for i
  proof -
    have "(?h + i) mod ?L < 16384" using b by (meson less_le_trans mod_less_divisor)
    moreover have "(?h + i) mod ?L = ?t \<longleftrightarrow> i = sq_count sq"
      using that b ring_dist_reaches [of ?h ?L ?t] ring_dist_before [of ?h ?L ?t i]
      by (auto simp: sq_count_def le_less)
    ultimately show ?thesis by (simp add: sq_slot_stored [OF _ inv])
  qed
  have sel: "sq_slot (sq_after entry sq) = sq_slot sq" "sq_head (sq_after entry sq) = sq_head sq"
    "sq_len (sq_after entry sq) = sq_len sq"
    by (simp_all add: sq_slot_def sq_after_def fun_eq_iff)
  show ?thesis
    unfolding sq_pending_def count sel by (simp add: slot)
qed


text \<open>
  When a completion arrives the driver overwrites the head index with the one the controller
  reports; a controller that has fetched \<open>k\<close> commands reports the head moved on by \<open>k\<close>.
\<close>

definition sq_release :: "nat \<Rightarrow> submission_queue \<Rightarrow> submission_queue" where
  "sq_release k sq = sq\<lparr>sq_head := of_nat ((unat (sq_head sq) + k) mod unat (sq_len sq))\<rparr>"

lemma ring_dist_release:
  assumes "h < L" and "t < L" and "k \<le> ring_dist L h t"
  shows "ring_dist L ((h + k) mod L) t = ring_dist L h t - k"
proof -
  have "k < L" using assms ring_dist_less [of h L t] by simp
  then have "(h + k) mod L = (if h + k < L then h + k else h + k - L)"
    using assms(1) by (intro ring_mod) simp
  then show ?thesis using assms by (auto simp: ring_dist_def split: if_splits)
qed

lemma sq_release_props:
  assumes inv: "sq_inv sq" and k: "k \<le> sq_count sq"
  shows "sq_inv (sq_release k sq)" "sq_pending (sq_release k sq) m = drop k (sq_pending sq m)"
proof -
  note b = sq_invD [OF inv]
  let ?L = "unat (sq_len sq)" and ?h = "unat (sq_head sq)" and ?t = "unat (sq_tail sq)"
  have less: "(?h + k) mod ?L < ?L" using b by simp
  then have "(?h + k) mod ?L < 2 ^ 64" by (rule less_trans) simp
  then have h': "unat (sq_head (sq_release k sq)) = (?h + k) mod ?L"
    by (simp add: sq_release_def unat_of_nat)
  then have "sq_head (sq_release k sq) < sq_len sq"
    using less by (simp only: word_less_nat_alt)
  then show "sq_inv (sq_release k sq)"
    using inv by (simp add: sq_inv_def sq_release_def)
  have count: "sq_count (sq_release k sq) = sq_count sq - k"
    using b k unfolding sq_count_def h' by (simp add: sq_release_def ring_dist_release)
  have sel: "sq_slot (sq_release k sq) = sq_slot sq" "sq_len (sq_release k sq) = sq_len sq"
    by (simp_all add: sq_slot_def sq_release_def fun_eq_iff)
  show "sq_pending (sq_release k sq) m = drop k (sq_pending sq m)"
    unfolding sq_pending_def count h' sel
    by (rule nth_equalityI) (simp_all add: mod_add_left_eq add.assoc)
qed

definition sq_push ::
    "nvme_command \<Rightarrow> submission_queue \<times> memory \<Rightarrow> (submission_queue \<times> memory) option" where
  "sq_push entry = (\<lambda>(sq, m).
     case sq_submit_checked entry (sq, \<lparr>wmem = m, wdev = ()\<rparr>) of
       Some (Ret (Some tail), (sq', w')) \<Rightarrow> Some (sq', wmem w')
     | _ \<Rightarrow> None)"

lemma sq_push_run:
  "sq_inv sq \<Longrightarrow> sq_push entry (sq, m) =
    (if sq_count sq = unat (sq_len sq) - 1 then None
     else Some (sq_after entry sq, sq_stored entry sq m))"
  by (simp add: sq_push_def sq_submit_checked_run)

interpretation sq: bounded_fifo
  "\<lambda>(sq, m). sq_inv sq" "\<lambda>(sq, m). sq_pending sq m" "\<lambda>(sq, m). unat (sq_len sq) - 1"
  sq_push "\<lambda>k (sq, m). (sq_release k sq, m)"
proof (unfold_locales, goal_cases)
  case (1 q)
  then show ?case using sq_count_less by (fastforce split: prod.splits)
next
  case (2 q x)
  then show ?case by (auto simp: sq_push_run split: prod.splits)
next
  case (3 q x)
  then show ?case
    by (auto simp: sq_push_run sq_inv_after sq_pending_submit split: prod.splits)
      (simp_all add: sq_after_def)
next
  case (4 q k)
  then show ?case
    by (auto simp: sq_release_props split: prod.splits) (simp_all add: sq_release_def)
qed

text \<open>
  C2. The submission queue refines a bounded list. Start from any state that satisfies the index
  invariant; after every sequence of checked submissions and head updates the commands in the
  ring between head and tail, read back from memory, are those of a list with capacity
  \<open>len - 1\<close> on which the same operations ran: nothing is lost, reordered or overwritten, and a
  submission is refused exactly when the list is full.
\<close>

theorem submission_queue_refines_list:
  assumes "sq_inv sq"
    and "spec_run (unat (sq_len sq) - 1) ops (sq_pending sq m) = Some cmds"
    and "fifo_run sq_push (\<lambda>k (sq, m). (sq_release k sq, m)) ops (sq, m) = (sq', m')"
  shows "sq_inv sq' \<and> sq_pending sq' m' = cmds \<and> sq_len sq' = sq_len sq"
proof -
  from sq.run_refines [of "(sq, m)" ops cmds] assms
  have "sq_inv sq'" "sq_pending sq' m' = cmds" "unat (sq_len sq') - 1 = unat (sq_len sq) - 1"
    by simp_all
  moreover have "unat (sq_len sq') = unat (sq_len sq)"
    using calculation sq_invD(1) [of sq'] sq_invD(1) [of sq] assms(1) by simp
  ultimately show ?thesis by (simp add: word_eq_unatI)
qed


definition demo_sq :: submission_queue where
  "demo_sq = \<lparr>sq_commands = \<lparr>virt = 4096, phys = 0, dsize = 2097152\<rparr>,
     sq_head = 3, sq_tail = 3, sq_len = 4, sq_doorbell = 4104\<rparr>"

lemma demo_sq_props: "sq_inv demo_sq" "sq_pending demo_sq m = []" "unat (sq_len demo_sq) = 4"
  by (simp_all add: sq_inv_def demo_sq_def sq_pending_def sq_count_def ring_dist_def)

theorem submission_queue_refines_list_witness:
  "let q = fifo_run sq_push (\<lambda>k (sq, m). (sq_release k sq, m))
        [Push (cmd_async_event_req 1), Push (cmd_async_event_req 2), Release 1,
         Push (cmd_async_event_req 3), Push (cmd_async_event_req 4), Push (cmd_async_event_req 5)]
        (demo_sq, \<lambda>_. 0)
   in sq_inv (fst q)
    \<and> sq_pending (fst q) (snd q)
        = [cmd_async_event_req 2, cmd_async_event_req 3, cmd_async_event_req 4]
    \<and> sq_len (fst q) = sq_len demo_sq"
  unfolding Let_def
  by (rule submission_queue_refines_list [OF _ _ prod.collapse [symmetric]])
    (simp_all add: demo_sq_props)

subsection \<open>A completion queue follows the controller's count\<close>

text \<open>
  The controller numbers the completions it posts on a queue 0, 1, 2, ... It writes number \<open>k\<close>
  into slot \<open>k mod len\<close> with a phase bit that flips on every pass over the ring, starting with
  1; slots not yet written in the first pass have phase 0. \<open>cq_posted cq m ces p\<close> says that
  the memory \<open>m\<close> shows the first \<open>p\<close> completions of the sequence \<open>ces\<close> in this way
  (the last \<open>len\<close> of them, as older ones are overwritten). \<open>cq_consumed cq N\<close> says that the
  driver's index and phase stand after \<open>N\<close> completions.
\<close>

definition phase_of :: "nat \<Rightarrow> nat \<Rightarrow> bool" where
  "phase_of L k \<longleftrightarrow> even (k div L)"

definition cq_slot :: "completion_queue \<Rightarrow> memory \<Rightarrow> nat \<Rightarrow> nvme_completion" where
  "cq_slot cq m i = decode_completion (mem_read m (cell (virt (cq_commands cq)) 16 i) 16)"

definition cq_inv :: "completion_queue \<Rightarrow> bool" where
  "cq_inv cq \<longleftrightarrow> 0 < cq_len cq \<and> cq_len cq \<le> QUEUE_LENGTH \<and> cq_head cq < cq_len cq"

definition cq_consumed :: "completion_queue \<Rightarrow> nat \<Rightarrow> bool" where
  "cq_consumed cq N \<longleftrightarrow> cq_inv cq \<and> unat (cq_head cq) = N mod unat (cq_len cq)
     \<and> cq_phase cq = phase_of (unat (cq_len cq)) N"

definition cq_posted ::
    "completion_queue \<Rightarrow> memory \<Rightarrow> (nat \<Rightarrow> nvme_completion) \<Rightarrow> nat \<Rightarrow> bool" where
  "cq_posted cq m ces p \<longleftrightarrow>
     (\<forall>k. k < p \<and> p \<le> k + unat (cq_len cq) \<longrightarrow>
        cq_slot cq m (k mod unat (cq_len cq)) = ces k
        \<and> odd (ce_status (ces k)) = phase_of (unat (cq_len cq)) k)
     \<and> (\<forall>j. p \<le> j \<and> j < unat (cq_len cq) \<longrightarrow> even (ce_status (cq_slot cq m j)))"

lemma cq_invD:
  assumes "cq_inv cq"
  shows "0 < unat (cq_len cq)" "unat (cq_len cq) \<le> 16384"
    "unat (cq_head cq) < unat (cq_len cq)" "cq_head cq < 16384" "cq_len cq \<noteq> 0"
proof -
  have b: "0 < cq_len cq" "cq_len cq \<le> 16384" "cq_head cq < cq_len cq"
    using assms by (auto simp: cq_inv_def)
  then show "0 < unat (cq_len cq)" "unat (cq_len cq) \<le> 16384" "unat (cq_head cq) < unat (cq_len cq)"
    by (simp_all add: word_less_nat_alt word_le_nat_alt)
  show "cq_head cq < 16384" using b(2,3) by (rule less_le_trans [rotated])
  show "cq_len cq \<noteq> 0" using b(1) by auto
qed

lemma phase_of_Suc:
  "0 < L \<Longrightarrow> phase_of L (Suc N) = (if Suc N mod L = 0 then \<not> phase_of L N else phase_of L N)"
  by (simp add: phase_of_def div_Suc)

lemma phase_of_lap: "0 < L \<Longrightarrow> phase_of L (N + L) = (\<not> phase_of L N)"
  by (simp add: phase_of_def div_add_self2)

text \<open>The queue after one completion has been taken.\<close>

definition cq_after :: "completion_queue \<Rightarrow> completion_queue" where
  "cq_after cq = (let head = (cq_head cq + 1) mod cq_len cq
     in cq\<lparr>cq_head := head, cq_phase := (if head = 0 then \<not> cq_phase cq else cq_phase cq)\<rparr>)"

lemma cq_complete_run:
  assumes "cq_inv cq"
  shows "cq_complete (cq, w) =
    (let entry = cq_slot cq (wmem w) (unat (cq_head cq))
     in if odd (ce_status entry) = cq_phase cq
        then Some (Ret (Some (cq_head (cq_after cq), entry, cq_head cq)), (cq_after cq, w))
        else Some (Ret None, (cq, w)))"
  using cq_invD [OF assms]
  by (simp add: cq_complete_def cq_after_def cq_entry_def cq_slot_def cell_def Let_def
      and_one_eq odd_iff_mod_2_eq_one)

lemma cq_consumed_after:
  assumes "cq_consumed cq N"
  shows "cq_consumed (cq_after cq) (Suc N)"
proof -
  have inv: "cq_inv cq" using assms by (simp add: cq_consumed_def)
  note b = cq_invD [OF inv]
  let ?L = "unat (cq_len cq)"
  have head: "unat ((cq_head cq + 1) mod cq_len cq) = Suc N mod ?L"
    using inv assms unat_ring_succ [of "cq_head cq" "cq_len cq"]
    by (simp add: cq_inv_def cq_consumed_def mod_Suc_eq)
  then have "(cq_head cq + 1) mod cq_len cq < cq_len cq"
    using b(1) unfolding word_less_nat_alt by simp
  moreover have "(cq_head cq + 1) mod cq_len cq = 0 \<longleftrightarrow> Suc N mod ?L = 0"
    using head by (metis unat_eq_zero)
  ultimately show ?thesis
    using assms head phase_of_Suc [OF b(1), of N]
    by (simp add: cq_consumed_def cq_inv_def cq_after_def Let_def)
qed

lemma cq_after_simps [simp]: "cq_len (cq_after cq) = cq_len cq"
  "cq_commands (cq_after cq) = cq_commands cq" "cq_doorbell (cq_after cq) = cq_doorbell cq"
  by (simp_all add: cq_after_def Let_def)

lemma phase_matches_iff:
  assumes con: "cq_consumed cq N" and post: "cq_posted cq m ces p"
    and bounds: "N < p + unat (cq_len cq)" "p \<le> N + unat (cq_len cq)"
  shows "odd (ce_status (cq_slot cq m (unat (cq_head cq)))) = cq_phase cq \<longleftrightarrow> N < p"
    and "N < p \<Longrightarrow> cq_slot cq m (unat (cq_head cq)) = ces N"
proof -
  let ?L = "unat (cq_len cq)"
  have L: "0 < ?L" and head: "unat (cq_head cq) = N mod ?L" and phase: "cq_phase cq = phase_of ?L N"
    using con cq_invD(1) by (auto simp: cq_consumed_def)
  have hit: "cq_slot cq m (N mod ?L) = ces N \<and> odd (ce_status (ces N)) = phase_of ?L N" if "N < p"
    using post bounds that by (auto simp: cq_posted_def)
  then show "N < p \<Longrightarrow> cq_slot cq m (unat (cq_head cq)) = ces N" by (simp add: head)
  have miss: "odd (ce_status (cq_slot cq m (N mod ?L))) \<noteq> phase_of ?L N" if "p \<le> N"
  proof (cases "N < ?L")
    case True
    then show ?thesis using post that by (simp add: cq_posted_def phase_of_def)
  next
    case False
    then obtain k where k: "N = k + ?L" by (metis add.commute le_Suc_ex not_less)
    then have "cq_slot cq m (k mod ?L) = ces k \<and> odd (ce_status (ces k)) = phase_of ?L k"
      using post bounds that by (auto simp: cq_posted_def)
    then show ?thesis using k L by (simp add: phase_of_lap)
  qed
  show "odd (ce_status (cq_slot cq m (unat (cq_head cq)))) = cq_phase cq \<longleftrightarrow> N < p"
    using hit miss by (cases "N < p") (auto simp: head phase not_less)
qed

text \<open>
  C1. Phase-bit polling is exact. When the driver has consumed \<open>N\<close> completions and the
  controller has posted \<open>p\<close> (at least \<open>N\<close>, at most one ring ahead), a poll returns the
  completion number \<open>N\<close> and moves on by one if \<open>N < p\<close>, and reports nothing and changes
  nothing if \<open>N = p\<close>: no completion is missed, taken twice or invented, across every
  wrap-around of the ring.
\<close>

theorem complete_polls_exactly:
  assumes "cq_consumed cq N" and "cq_posted cq (wmem w) ces p"
    and "N \<le> p" and "p \<le> N + unat (cq_len cq)"
  shows "if N < p
    then \<exists>cq'. cq_complete (cq, w) = Some (Ret (Some (cq_head cq', ces N, cq_head cq)), (cq', w))
           \<and> cq_consumed cq' (Suc N) \<and> cq_len cq' = cq_len cq \<and> cq_commands cq' = cq_commands cq
    else cq_complete (cq, w) = Some (Ret None, (cq, w))"
proof -
  have inv: "cq_inv cq" using assms(1) by (simp add: cq_consumed_def)
  have "N < p + unat (cq_len cq)" using assms(3) cq_invD(1) [OF inv] by simp
  note m = phase_matches_iff [OF assms(1,2) this assms(4)]
  show ?thesis
  proof (cases "N < p")
    case True
    then show ?thesis using m cq_consumed_after [OF assms(1)]
      by (auto simp: cq_complete_run [OF inv] intro!: exI [of _ "cq_after cq"])
  next
    case False
    then show ?thesis using m(1) by (simp add: cq_complete_run [OF inv])
  qed
qed

text \<open>A ring of two slots that the controller has filled once: it posted completions 0 and 1.\<close>

definition demo_cq :: completion_queue where
  "demo_cq = \<lparr>cq_commands = \<lparr>virt = 4096, phys = 4096, dsize = 2097152\<rparr>,
     cq_head = 1, cq_phase = True, cq_len = 2, cq_doorbell = 0\<rparr>"

definition demo_completion :: "u16 \<Rightarrow> nvme_completion" where
  "demo_completion h = \<lparr>ce_command_specific = 0, ce_rsvd = 0, ce_sq_head = h, ce_sq_id = 1,
     ce_c_id = 0, ce_status = 1\<rparr>"

definition demo_memory :: memory where
  "demo_memory = mem_write (mem_write (\<lambda>_. 0) 4096 (encode_completion (demo_completion 1)))
     4112 (encode_completion (demo_completion 2))"


lemma decode_encode_completion [simp]: "decode_completion (encode_completion c) = c"
  by (cases c) (simp add: decode_completion_def encode_completion_def bytes_field_def)

lemma length_encode_completion [simp, layout_simps]: "length (encode_completion c) = 16"
  by (simp add: encode_completion_def)

lemma demo_slots:
  "cq_slot demo_cq demo_memory 0 = demo_completion 1"
  "cq_slot demo_cq demo_memory 1 = demo_completion 2"
proof -
  have "disjoint_ranges 4112 16 4096 16" by (simp add: disjoint_ranges_def)
  then show "cq_slot demo_cq demo_memory 0 = demo_completion 1"
    by (simp add: cq_slot_def demo_cq_def demo_memory_def cell_def mem_read_write_disjoint
        mem_read_write_exact)
  show "cq_slot demo_cq demo_memory 1 = demo_completion 2"
    by (simp add: cq_slot_def demo_cq_def demo_memory_def cell_def mem_read_write_exact)
qed

lemma demo_posted: "cq_posted demo_cq demo_memory (\<lambda>k. demo_completion (of_nat k + 1)) 2"
proof -
  have "cq_slot demo_cq demo_memory (k mod 2) = demo_completion (of_nat k + 1) \<and> phase_of 2 k"
    if "k < 2" for k
    using that demo_slots by (cases k) (simp_all add: phase_of_def less_Suc_eq numeral_2_eq_2)
  then show ?thesis by (auto simp: cq_posted_def demo_cq_def demo_completion_def)
qed

lemma demo_len: "unat (cq_len demo_cq) = 2"
  by (simp add: demo_cq_def)

lemma demo_consumed: "cq_consumed demo_cq 1"
  by (simp add: cq_consumed_def cq_inv_def demo_cq_def phase_of_def)

theorem complete_polls_exactly_witness:
  "\<exists>cq'. cq_complete (demo_cq, \<lparr>wmem = demo_memory, wdev = ()\<rparr>)
      = Some (Ret (Some (cq_head cq', demo_completion 2, cq_head demo_cq)),
          (cq', \<lparr>wmem = demo_memory, wdev = ()\<rparr>))
    \<and> cq_consumed cq' (Suc 1)"
proof -
  let ?w = "\<lparr>wmem = demo_memory, wdev = ()\<rparr>"
  have "cq_posted demo_cq (wmem ?w) (\<lambda>k. demo_completion (of_nat k + 1)) 2"
    using demo_posted by simp
  from complete_polls_exactly [OF demo_consumed this] show ?thesis
    by (auto simp: demo_len simp del: One_nat_def)
qed


subsection \<open>Waiting for completions\<close>

lemma cq_spin_at:
  assumes con: "cq_consumed cq N"
    and post: "\<forall>t\<le>T. cq_posted cq (wmem ((hw_tick hw ^^ t) w)) ces (p t)
        \<and> N < p t + unat (cq_len cq) \<and> p t \<le> N + unat (cq_len cq)"
    and wait: "\<forall>t<T. p t \<le> N" "N < p T"
  shows "cq_complete_spin hw (cq, w) =
    Some (Ret (cq_head (cq_after cq), ces N, cq_head cq), (cq_after cq, (hw_tick hw ^^ T) w))"
  using post wait
proof (induction T arbitrary: w p)
  case 0
  have inv: "cq_inv cq" using con by (simp add: cq_consumed_def)
  have "cq_complete (cq, w)
      = Some (Ret (Some (cq_head (cq_after cq), ces N, cq_head cq)), (cq_after cq, w))"
    using phase_matches_iff [OF con, of "wmem w" ces "p 0"] 0 by (simp add: cq_complete_run [OF inv])
  then show ?case by (subst cq_complete_spin.simps) simp
next
  case (Suc T)
  have inv: "cq_inv cq" using con by (simp add: cq_consumed_def)
  have "cq_posted cq (wmem w) ces (p 0)" "N < p 0 + unat (cq_len cq)"
      "p 0 \<le> N + unat (cq_len cq)" "p 0 \<le> N"
    using spec [OF Suc.prems(1), of 0] spec [OF Suc.prems(2), of 0] by simp_all
  then have "cq_complete (cq, w) = Some (Ret None, (cq, w))"
    using phase_matches_iff(1) [OF con, of "wmem w" ces "p 0"] by (simp add: cq_complete_run [OF inv])
  moreover have "cq_complete_spin hw (cq, hw_tick hw w) =
    Some (Ret (cq_head (cq_after cq), ces N, cq_head cq),
      (cq_after cq, (hw_tick hw ^^ T) (hw_tick hw w)))"
    using Suc.prems by (intro Suc.IH [of "hw_tick hw w" "\<lambda>t. p (Suc t)"]) (auto simp: funpow_swap1)
  ultimately show ?case by (subst cq_complete_spin.simps) (simp add: funpow_swap1)
qed

text \<open>\<open>cq_skip k cq\<close>: index and phase moved on by \<open>k\<close>, as \<^verbatim>\<open>complete_n\<close> does before it polls.\<close>

definition cq_skip :: "usize \<Rightarrow> completion_queue \<Rightarrow> completion_queue" where
  "cq_skip k cq = cq\<lparr>cq_head := (cq_head cq + k) mod cq_len cq,
     cq_phase := (if cq_len cq \<le> cq_head cq + k then \<not> cq_phase cq else cq_phase cq)\<rparr>"

lemma cq_skip_simps [simp]: "cq_len (cq_skip k cq) = cq_len cq"
  "cq_commands (cq_skip k cq) = cq_commands cq" "cq_doorbell (cq_skip k cq) = cq_doorbell cq"
  by (simp_all add: cq_skip_def)

lemma cq_posted_cong:
  "cq_len cq' = cq_len cq \<Longrightarrow> cq_commands cq' = cq_commands cq \<Longrightarrow> cq_posted cq' = cq_posted cq"
  by (simp add: cq_posted_def cq_slot_def fun_eq_iff)

lemma cq_consumed_skip:
  assumes con: "cq_consumed cq N" and k: "k < cq_len cq"
  shows "cq_consumed (cq_skip k cq) (N + unat k)"
proof -
  have inv: "cq_inv cq" using con by (simp add: cq_consumed_def)
  note b = cq_invD [OF inv]
  let ?L = "unat (cq_len cq)" and ?k = "unat k"
  have k': "?k < ?L" using k by (simp add: word_less_nat_alt)
  have head: "unat (cq_head cq) = N mod ?L" using con by (simp add: cq_consumed_def)
  have "N mod ?L < ?L" using b(1) by (rule mod_less_divisor)
  then have "N mod ?L + ?k < 32768" using k' b(2) by linarith
  then have sum: "unat (cq_head cq + k) = N mod ?L + ?k"
    using head by (subst unat_add_no_wrap) simp_all
  have wrap: "cq_len cq \<le> cq_head cq + k \<longleftrightarrow> ?L \<le> N mod ?L + ?k"
    by (simp only: word_le_nat_alt sum)
  have "(N + ?k) div ?L = N div ?L + (N mod ?L + ?k) div ?L"
    by (metis div_mult_mod_eq add.assoc div_mult_self3 b(1) not_gr_zero)
  also have "(N mod ?L + ?k) div ?L = (if ?L \<le> N mod ?L + ?k then 1 else 0)"
    using k' \<open>N mod ?L < ?L\<close> by (rule ring_div [rotated])
  finally have "phase_of ?L (N + ?k) = (if ?L \<le> N mod ?L + ?k then \<not> phase_of ?L N else phase_of ?L N)"
    by (simp add: phase_of_def)
  moreover have "unat ((cq_head cq + k) mod cq_len cq) = (N + ?k) mod ?L"
    by (simp only: unat_mod_word sum mod_add_left_eq)
  moreover have "(cq_head cq + k) mod cq_len cq < cq_len cq"
    using b(1) unfolding word_less_nat_alt unat_mod_word by simp
  ultimately show ?thesis
    using con wrap by (simp add: cq_consumed_def cq_inv_def cq_skip_def)
qed

lemma cq_complete_n_run:
  assumes "cq_consumed cq N" and "0 < n" and "n \<le> cq_len cq"
    and "\<forall>t\<le>T. cq_posted cq (wmem ((hw_tick hw ^^ t) w)) ces (p t)
        \<and> N \<le> p t \<and> p t \<le> N + unat (cq_len cq)"
    and "\<forall>t<T. p t < N + unat n" and "N + unat n \<le> p T"
    and "cq' = cq_after (cq_skip (n - 1) cq)"
  shows "cq_complete_n hw n (cq, w)
      = Some (Ret (cq_head cq', ces (N + unat n - 1), cq_head cq), (cq', (hw_tick hw ^^ T) w))"
    and "cq_consumed cq' (N + unat n)"
proof -
  let ?k = "n - 1" and ?M = "N + unat (n - 1)"
  have inv: "cq_inv cq" using assms(1) by (simp add: cq_consumed_def)
  have n: "unat n = Suc (unat ?k)"
    using assms(2) by (subst unat_minus_one) (auto simp: word_less_nat_alt)
  have "?k < cq_len cq" using assms(3) n by (simp add: word_less_nat_alt word_le_nat_alt)
  then have con: "cq_consumed (cq_skip ?k cq) ?M" using assms(1) by (rule cq_consumed_skip [rotated])
  have k: "unat ?k < unat (cq_len cq)"
    using \<open>?k < cq_len cq\<close> by (simp add: word_less_nat_alt)
  have cong: "cq_posted (cq_skip ?k cq) = cq_posted cq" by (rule cq_posted_cong) simp_all
  have "cq_complete_spin hw (cq_skip ?k cq, w) =
      Some (Ret (cq_head (cq_after (cq_skip ?k cq)), ces ?M, cq_head (cq_skip ?k cq)),
        (cq_after (cq_skip ?k cq), (hw_tick hw ^^ T) w))"
    using assms(4-6) n k by (intro cq_spin_at [OF con, of T hw w ces p]) (fastforce simp: cong)+
  then show "cq_complete_n hw n (cq, w)
      = Some (Ret (cq_head cq', ces (N + unat n - 1), cq_head cq), (cq', (hw_tick hw ^^ T) w))"
    using cq_invD(5) [OF inv] n unfolding assms(7)
    by (simp add: cq_complete_n_def cq_skip_def run_simps Let_def)
  show "cq_consumed cq' (N + unat n)" using cq_consumed_after [OF con] n assms(7) by simp
qed

text \<open>
  C3. Waiting for \<open>n\<close> completions returns as soon as the controller has posted the last of
  them, with that completion, and leaves the queue exactly \<open>n\<close> completions further on, for
  every \<open>n\<close> up to the ring's length. \<open>T\<close> is the number of polls that come too early; the
  loop ends after that many, so it never spins past the awaited completion.
\<close>

theorem complete_n_waits_for_nth:
  assumes "cq_consumed cq N" and "0 < n" and "n \<le> cq_len cq"
    and "\<forall>t\<le>T. cq_posted cq (wmem ((hw_tick hw ^^ t) w)) ces (p t)
        \<and> N \<le> p t \<and> p t \<le> N + unat (cq_len cq)"
    and "\<forall>t<T. p t < N + unat n" and "N + unat n \<le> p T"
  shows "\<exists>cq'. cq_complete_n hw n (cq, w)
      = Some (Ret (cq_head cq', ces (N + unat n - 1), cq_head cq), (cq', (hw_tick hw ^^ T) w))
    \<and> cq_consumed cq' (N + unat n) \<and> cq_len cq' = cq_len cq \<and> cq_commands cq' = cq_commands cq
    \<and> cq_doorbell cq' = cq_doorbell cq"
  using cq_complete_n_run [OF assms refl] by (intro exI [of _ "cq_after (cq_skip (n - 1) cq)"]) simp

text \<open>A controller whose next step posts completion 1 of the demonstration ring.\<close>

definition demo_hw :: "unit hw" where
  "demo_hw = \<lparr>hw_tick = (\<lambda>w. w\<lparr>wmem := demo_memory\<rparr>), hw_write32 = (\<lambda>a v w. w),
     hw_write64 = (\<lambda>a v w. w), hw_read32 = (\<lambda>a w. (0, w)), hw_read64 = (\<lambda>a w. (0, w)),
     hw_now = (\<lambda>w. (0, w))\<rparr>"

definition demo_memory0 :: memory where
  "demo_memory0 = mem_write (\<lambda>_. 0) 4096 (encode_completion (demo_completion 1))"

lemma demo_slots0:
  "cq_slot demo_cq demo_memory0 0 = demo_completion 1"
  "ce_status (cq_slot demo_cq demo_memory0 1) = 0"
proof -
  show "cq_slot demo_cq demo_memory0 0 = demo_completion 1"
    by (simp add: cq_slot_def demo_cq_def demo_memory0_def cell_def mem_read_write_exact)
  have "disjoint_ranges 4096 16 4112 16" by (simp add: disjoint_ranges_def)
  then show "ce_status (cq_slot demo_cq demo_memory0 1) = 0"
    by (simp add: cq_slot_def demo_cq_def demo_memory0_def cell_def mem_read_write_disjoint)
      (simp add: mem_read_def decode_completion_def bytes_field_def upt_conv_Cons)
qed

lemma demo_posted0: "cq_posted demo_cq demo_memory0 (\<lambda>k. demo_completion (of_nat k + 1)) 1"
proof -
  have "even (ce_status (cq_slot demo_cq demo_memory0 j))" if "1 \<le> j" "j < 2" for j
  proof -
    have "j = 1" using that by simp
    then show ?thesis using demo_slots0(2) by simp
  qed
  then show ?thesis
    using demo_slots0(1) by (auto simp: cq_posted_def demo_len demo_completion_def phase_of_def)
qed

lemma demo_consumed0: "cq_consumed (demo_cq\<lparr>cq_head := 0\<rparr>) 0"
  by (simp add: cq_consumed_def cq_inv_def demo_cq_def phase_of_def)

theorem complete_n_waits_for_nth_witness:
  "\<exists>cq'. cq_complete_n demo_hw 2 (demo_cq\<lparr>cq_head := 0\<rparr>, \<lparr>wmem = demo_memory0, wdev = ()\<rparr>)
      = Some (Ret (cq_head cq', demo_completion 2, 0), (cq', \<lparr>wmem = demo_memory, wdev = ()\<rparr>))
    \<and> cq_consumed cq' 2"
proof -
  let ?cq = "demo_cq\<lparr>cq_head := 0\<rparr>" and ?w = "\<lparr>wmem = demo_memory0, wdev = ()\<rparr>"
  let ?ces = "\<lambda>k. demo_completion (of_nat k + 1)"
  have len: "cq_len ?cq = 2" by (simp add: demo_cq_def)
  have cong: "cq_posted ?cq = cq_posted demo_cq" by (rule cq_posted_cong) simp_all
  have post: "\<forall>t\<le>1. cq_posted ?cq (wmem ((hw_tick demo_hw ^^ t) ?w)) ?ces (if t = 0 then 1 else 2)
      \<and> 0 \<le> (if t = 0 then 1 else 2 :: nat) \<and> (if t = 0 then 1 else 2) \<le> 0 + unat (cq_len ?cq)"
    using demo_posted demo_posted0 by (auto simp: cong len le_Suc_eq demo_hw_def)
  have "2 \<le> cq_len ?cq" by (simp add: len)
  from complete_n_waits_for_nth [OF demo_consumed0 _ this post] show ?thesis
    by (auto simp: demo_hw_def numeral_2_eq_2 [symmetric])
qed

subsection \<open>Taking completions one by one\<close>

text \<open>What a caller does that polls until nothing is left, at most \<open>n\<close> times.\<close>

fun cq_complete_each :: "nat \<Rightarrow> (completion_queue \<times> 'd world, nvme_completion list) comp" where
  "cq_complete_each 0 = mret []"
| "cq_complete_each (Suc n) =
     mbind cq_complete (\<lambda>v. case v of
        None \<Rightarrow> mret []
      | Some (_, entry, _) \<Rightarrow> mbind (cq_complete_each n) (\<lambda>es. mret (entry # es)))"

lemma cq_consumed_unique:
  assumes "cq_consumed a N" and "cq_consumed b N" and "cq_len a = cq_len b"
    and "cq_commands a = cq_commands b" and "cq_doorbell a = cq_doorbell b"
  shows "a = b"
proof -
  have "cq_head a = cq_head b" using assms by (intro word_eq_unatI) (simp add: cq_consumed_def)
  moreover have "cq_phase a = cq_phase b" using assms by (simp add: cq_consumed_def)
  ultimately show ?thesis using assms(3-5) by (cases a; cases b) simp
qed

lemma cq_complete_each_run:
  assumes "cq_consumed cq N" and "cq_posted cq (wmem w) ces p"
    and "N + n \<le> p" and "p \<le> N + unat (cq_len cq)"
  shows "\<exists>cq'. cq_complete_each n (cq, w) = Some (Ret (map ces [N..<N + n]), (cq', w))
    \<and> cq_consumed cq' (N + n) \<and> cq_len cq' = cq_len cq \<and> cq_commands cq' = cq_commands cq
    \<and> cq_doorbell cq' = cq_doorbell cq"
  using assms
proof (induction n arbitrary: cq N)
  case 0
  then show ?case by simp
next
  case (Suc n)
  have inv: "cq_inv cq" using Suc.prems(1) by (simp add: cq_consumed_def)
  have "N < p + unat (cq_len cq)" using Suc.prems(3) by simp
  note m = phase_matches_iff [OF Suc.prems(1,2) this Suc.prems(4)]
  have step: "cq_complete (cq, w)
      = Some (Ret (Some (cq_head (cq_after cq), ces N, cq_head cq)), (cq_after cq, w))"
    using m Suc.prems(3) by (simp add: cq_complete_run [OF inv])
  have "cq_posted (cq_after cq) = cq_posted cq" by (rule cq_posted_cong) simp_all
  then have "\<exists>cq'. cq_complete_each n (cq_after cq, w) = Some (Ret (map ces [Suc N..<Suc N + n]), (cq', w))
    \<and> cq_consumed cq' (Suc N + n) \<and> cq_len cq' = cq_len cq \<and> cq_commands cq' = cq_commands cq
    \<and> cq_doorbell cq' = cq_doorbell cq"
    using Suc.IH [OF cq_consumed_after [OF Suc.prems(1)]] Suc.prems(2-4) by simp
  moreover have "map ces [N..<N + Suc n] = ces N # map ces [Suc N..<Suc N + n]"
    by (simp add: upt_conv_Cons del: upt_Suc)
  ultimately show ?case using step by (auto simp: run_simps simp del: upt_Suc)
qed

text \<open>
  C4. Jumping ahead by \<open>n\<close> is the same as taking \<open>n\<close> completions one after the other when
  they are all there: both leave the same queue, and the jump returns the last of the
  completions that the single polls return.
\<close>

theorem complete_n_eq_complete_each:
  assumes "cq_consumed cq N" and "cq_posted cq (wmem w) ces p"
    and "0 < n" and "n \<le> cq_len cq" and "N + unat n \<le> p" and "p \<le> N + unat (cq_len cq)"
  shows "\<exists>cq' es. cq_complete_each (unat n) (cq, w) = Some (Ret es, (cq', w))
    \<and> cq_complete_n hw n (cq, w) = Some (Ret (cq_head cq', last es, cq_head cq), (cq', w))"
proof -
  obtain a where a: "cq_complete_each (unat n) (cq, w) = Some (Ret (map ces [N..<N + unat n]), (a, w))"
      "cq_consumed a (N + unat n)" "cq_len a = cq_len cq" "cq_commands a = cq_commands cq"
      "cq_doorbell a = cq_doorbell cq"
    using cq_complete_each_run [OF assms(1,2,5,6)] by blast
  have n: "0 < unat n" using assms(3) by (simp add: word_less_nat_alt)
  let ?b = "cq_after (cq_skip (n - 1) cq)"
  have b: "cq_complete_n hw n (cq, w)
      = Some (Ret (cq_head ?b, ces (N + unat n - 1), cq_head cq), (?b, (hw_tick hw ^^ 0) w))"
      "cq_consumed ?b (N + unat n)"
    using assms by (intro cq_complete_n_run [where p = "\<lambda>_. p"]; auto)+
  have "?b = a" using a b(2) by (intro cq_consumed_unique [where N = "N + unat n"]) simp_all
  then show ?thesis using a(1) b(1) n by (simp add: last_map)
qed

theorem complete_n_eq_complete_each_witness:
  "\<exists>cq' es. cq_complete_each 2 (demo_cq\<lparr>cq_head := 0\<rparr>, \<lparr>wmem = demo_memory, wdev = ()\<rparr>)
      = Some (Ret es, (cq', \<lparr>wmem = demo_memory, wdev = ()\<rparr>))
    \<and> cq_complete_n demo_hw 2 (demo_cq\<lparr>cq_head := 0\<rparr>, \<lparr>wmem = demo_memory, wdev = ()\<rparr>)
      = Some (Ret (cq_head cq', last es, 0), (cq', \<lparr>wmem = demo_memory, wdev = ()\<rparr>))"
proof -
  let ?cq = "demo_cq\<lparr>cq_head := 0\<rparr>" and ?w = "\<lparr>wmem = demo_memory, wdev = ()\<rparr>"
  have len: "cq_len ?cq = 2" by (simp add: demo_cq_def)
  have cong: "cq_posted ?cq = cq_posted demo_cq" by (rule cq_posted_cong) simp_all
  have "cq_posted ?cq (wmem ?w) (\<lambda>k. demo_completion (of_nat k + 1)) 2"
    using demo_posted by (simp add: cong)
  from complete_n_eq_complete_each [OF demo_consumed0 this, of 2 demo_hw] show ?thesis
    by (simp add: len)
qed

end
