(* ===== verification/Fmt.thy ===== *)
theory Fmt
  imports Main
begin

text \<open>
  The part of Rust's string formatting that the driver's results depend on: unsigned numbers in
  a base (\<^verbatim>\<open>{}\<close>, \<^verbatim>\<open>{:x}\<close>, \<^verbatim>\<open>{:016b}\<close>), joining with a separator and trimming. The lemmas show
  that a number is printed with as many digits as it needs and can be read back.
\<close>

definition digit_char :: "nat \<Rightarrow> char" where
  "digit_char d = (if d < 16 then ''0123456789abcdef'' ! d else CHR ''?'')"

definition char_digit :: "char \<Rightarrow> nat" where
  "char_digit c = (let n = of_char c in if n < (97 :: nat) then n - 48 else n - 87)"

fun fmt_base :: "nat \<Rightarrow> nat \<Rightarrow> string" where
  "fmt_base b n = (if n < b \<or> b < 2 then [digit_char n] else fmt_base b (n div b) @ [digit_char (n mod b)])"

declare fmt_base.simps [simp del]

definition fmt_dec :: "nat \<Rightarrow> string" where "fmt_dec n = fmt_base 10 n"
definition fmt_hex :: "nat \<Rightarrow> string" where "fmt_hex n = fmt_base 16 n"

definition zero_pad :: "nat \<Rightarrow> string \<Rightarrow> string" where
  "zero_pad w s = replicate (w - length s) CHR ''0'' @ s"

fun join :: "string \<Rightarrow> string list \<Rightarrow> string" where
  "join sep [] = []"
| "join sep [x] = x"
| "join sep (x # y # ys) = x @ sep @ join sep (y # ys)"

definition read_base :: "nat \<Rightarrow> string \<Rightarrow> nat" where
  "read_base b s = fold (\<lambda>c acc. acc * b + char_digit c) s 0"

text \<open>\<^verbatim>\<open>str::trim\<close> on characters below 256: the white space of Unicode in that range.\<close>

definition is_whitespace :: "char \<Rightarrow> bool" where
  "is_whitespace c \<longleftrightarrow>
     (let n = of_char c :: nat in (9 \<le> n \<and> n \<le> 13) \<or> n = 32 \<or> n = 0x85 \<or> n = 0xA0)"

definition trim :: "string \<Rightarrow> string" where
  "trim s = rev (dropWhile is_whitespace (rev (dropWhile is_whitespace s)))"

lemma char_digit_digit_char [simp]: "d < 16 \<Longrightarrow> char_digit (digit_char d) = d"
proof -
  assume "d < 16"
  then have "d \<in> {0, 1, 2, 3, 4, 5, 6, 7, 8, 9, 10, 11, 12, 13, 14, 15}"
    unfolding insert_iff empty_iff by arith
  then show ?thesis by (auto simp: char_digit_def digit_char_def Let_def)
qed

lemma read_fmt_base:
  assumes "2 \<le> b" and "b \<le> 16"
  shows "read_base b (fmt_base b n) = n"
  using assms
proof (induction b n rule: fmt_base.induct)
  case (1 b n)
  show ?case
  proof (cases "n < b")
    case True
    then show ?thesis using 1 by (subst fmt_base.simps) (simp add: read_base_def)
  next
    case False
    then have "read_base b (fmt_base b (n div b)) = n div b" using 1 by simp
    moreover have "n mod b < b" using "1.prems" by simp
    then have "n mod b < 16" using "1.prems" by linarith
    ultimately show ?thesis
      using False "1.prems" \<open>n mod b < 16\<close> by (subst fmt_base.simps) (simp add: read_base_def)
  qed
qed

lemma length_fmt_base:
  assumes "2 \<le> b" and "n < b ^ k" and "0 < k"
  shows "length (fmt_base b n) \<le> k"
  using assms
proof (induction k arbitrary: n)
  case 0
  then show ?case by simp
next
  case (Suc k)
  show ?case
  proof (cases "n < b")
    case True
    then show ?thesis by (subst fmt_base.simps) simp
  next
    case False
    then have "0 < k" using Suc.prems(2) by (cases k) auto
    moreover have "n div b < b ^ k"
      using Suc.prems by (simp add: less_mult_imp_div_less mult.commute)
    ultimately have "length (fmt_base b (n div b)) \<le> k" using Suc by simp
    then show ?thesis by (subst fmt_base.simps) simp
  qed
qed

lemma length_zero_pad: "length (zero_pad w s) = max w (length s)"
  by (simp add: zero_pad_def)

lemma set_fmt_base:
  assumes "2 \<le> b" and "b \<le> 16"
  shows "set (fmt_base b n) \<subseteq> digit_char ` {..<b}"
  using assms
proof (induction b n rule: fmt_base.induct)
  case (1 b n)
  show ?case
  proof (cases "n < b")
    case True
    then show ?thesis by (subst fmt_base.simps) simp
  next
    case False
    then have "set (fmt_base b (n div b)) \<subseteq> digit_char ` {..<b}" using 1 by simp
    moreover have "n mod b < b" using "1.prems" by simp
    ultimately show ?thesis using False "1.prems" by (subst fmt_base.simps) auto
  qed
qed

lemma filter_join:
  "\<forall>x\<in>set xs. c \<notin> set x \<Longrightarrow> filter (\<lambda>d. d \<noteq> c) (join [c] xs) = concat xs"
proof (induction "[c]" xs rule: join.induct)
  case (2 x)
  then show ?case by (auto simp: filter_id_conv)
next
  case (3 x y ys)
  have "filter (\<lambda>d. d \<noteq> c) x = x" using 3 by (auto simp: filter_id_conv)
  then show ?case using 3 by simp
qed simp

lemma trim_ends:
  assumes "trim s \<noteq> []"
  shows "\<not> is_whitespace (hd (trim s))" "\<not> is_whitespace (last (trim s))"
proof -
  let ?l = "dropWhile is_whitespace s"
  let ?r = "dropWhile is_whitespace (rev ?l)"
  have t: "trim s = rev ?r" by (simp add: trim_def)
  then have ne: "?r \<noteq> []" using assms by simp
  then show "\<not> is_whitespace (last (trim s))"
    using hd_dropWhile [of is_whitespace "rev ?l"] by (simp only: t last_rev) simp
  obtain ys where ys: "rev ?l = ys @ ?r" by (metis takeWhile_dropWhile_id)
  then have l: "?l = rev ?r @ rev ys" by (metis rev_append rev_rev_ident)
  then have "hd ?l = hd (rev ?r)" using ne by (metis hd_append2 rev_is_Nil_conv)
  moreover have "?l \<noteq> []" using l ne by (metis append_is_Nil_conv rev_is_Nil_conv)
  ultimately show "\<not> is_whitespace (hd (trim s))"
    using hd_dropWhile [of is_whitespace s] by (simp only: t) simp
qed

lemma trim_subset: "set (trim s) \<subseteq> set s" "length (trim s) \<le> length s"
proof -
  let ?l = "dropWhile is_whitespace s"
  show "set (trim s) \<subseteq> set s"
    unfolding trim_def by (auto dest!: set_dropWhileD)
  have "length (trim s) \<le> length ?l"
    unfolding trim_def by (metis length_dropWhile_le length_rev)
  then show "length (trim s) \<le> length s" using length_dropWhile_le order_trans by blast
qed

end
