(* ===== verification/Queue_Pair.thy ===== *)
theory Queue_Pair
  imports Queues Fmt
begin

text \<open>
  I/O queue pairs: \<^verbatim>\<open>NvmeQueuePair\<close> in \<^verbatim>\<open>src/src/nvme.rs\<close>. The operations run on a queue pair
  and the world. \<open>qp_submit_io\<close> cuts a region into chunks of two pages and submits one command
  per chunk, ringing the doorbell after each; \<open>qp_complete_io\<close>, \<open>qp_quick_poll\<close> and
  \<open>qp_quick_poll_result\<close> take completions. Diagnostic output on the console is left out.
\<close>

unbundle bit_operations_syntax

record nvme_queue_pair =
  qp_id :: u16
  sub_queue :: submission_queue
  comp_queue :: completion_queue

type_synonym 'd qp_state = "nvme_queue_pair \<times> 'd world"

definition on_sub_queue :: "(submission_queue \<times> 'd world, 'a) comp \<Rightarrow> ('d qp_state, 'a) comp" where
  "on_sub_queue = mzoom (\<lambda>(qp, w). (sub_queue qp, w)) (\<lambda>(q, w) (qp, _). (qp\<lparr>sub_queue := q\<rparr>, w))"

definition on_comp_queue :: "(completion_queue \<times> 'd world, 'a) comp \<Rightarrow> ('d qp_state, 'a) comp" where
  "on_comp_queue = mzoom (\<lambda>(qp, w). (comp_queue qp, w)) (\<lambda>(q, w) (qp, _). (qp\<lparr>comp_queue := q\<rparr>, w))"

definition write_volatile32 :: "'d hw \<Rightarrow> usize \<Rightarrow> u32 \<Rightarrow> ('x \<times> 'd world, unit) comp" where
  "write_volatile32 hw addr v = mmodify (\<lambda>(x, w). (x, hw_write32 hw addr v w))"

definition blocks_of :: "usize \<Rightarrow> u64" where
  "blocks_of len = (len + 512 - 1) div 512"

text \<open>The command for one chunk: its identifier is made of the queue's and the slot's number.\<close>

definition qp_cid :: "u16 \<Rightarrow> usize \<Rightarrow> u16" where
  "qp_cid i tail = push_bit 11 i OR ucast tail"

definition qp_entry :: "bool \<Rightarrow> u16 \<Rightarrow> usize \<Rightarrow> dma_chunk \<Rightarrow> u64 \<Rightarrow> nvme_command" where
  "qp_entry write qid tail chunk lba =
     (let blocks = blocks_of (chunk_len chunk);
          addr = phys_addr chunk;
          bytes = blocks * 512;
          ptr1 = (if bytes \<le> 4096 then 0 else addr + 4096);
          cid = qp_cid qid tail
      in if write then cmd_io_write cid 1 lba (ucast blocks - 1) addr ptr1
         else cmd_io_read cid 1 lba (ucast blocks - 1) addr ptr1)"

text \<open>Submit one entry and ring the doorbell; \<open>False\<close> when the queue is full.\<close>

definition qp_submit_entry :: "'d hw \<Rightarrow> nvme_command \<Rightarrow> ('d qp_state, bool) comp" where
  "qp_submit_entry hw entry =
     mbind (on_sub_queue (sq_submit_checked entry)) (\<lambda>r. case r of
        Some tail \<Rightarrow>
          mbind (mget (\<lambda>(qp, w). sq_doorbell (sub_queue qp))) (\<lambda>doorbell.
          mbind (write_volatile32 hw doorbell (ucast tail)) (\<lambda>_. mret True))
      | None \<Rightarrow> mret False)"

fun qp_submit_chunks ::
    "'d hw \<Rightarrow> bool \<Rightarrow> dma_chunk list \<Rightarrow> u64 \<Rightarrow> usize \<Rightarrow> ('d qp_state, usize) comp" where
  "qp_submit_chunks hw write [] lba reqs = mret reqs"
| "qp_submit_chunks hw write (chunk # cs) lba reqs =
     mbind (mget fst) (\<lambda>qp.
     mbind (qp_submit_entry hw (qp_entry write (qp_id qp) (sq_tail (sub_queue qp)) chunk lba)) (\<lambda>ok.
     if ok then qp_submit_chunks hw write cs (lba + blocks_of (chunk_len chunk)) (reqs + 1)
     else mret reqs))"

definition qp_submit_io :: "'d hw \<Rightarrow> dma \<Rightarrow> u64 \<Rightarrow> bool \<Rightarrow> ('d qp_state, usize) comp" where
  "qp_submit_io hw data lba write = (\<lambda>s.
     case dma_chunks_collect (chunks data (2 * 4096)) of
       None \<Rightarrow> None
     | Some cs \<Rightarrow> qp_submit_chunks hw write cs lba 0 s)"

text \<open>What every completion handler does first: ring the completion doorbell with the new head
  and take over the submission queue head the controller reports.\<close>

definition qp_take :: "'d hw \<Rightarrow> usize \<Rightarrow> nvme_completion \<Rightarrow> ('d qp_state, unit) comp" where
  "qp_take hw tail c_entry =
     mbind (mget (\<lambda>(qp, w). cq_doorbell (comp_queue qp))) (\<lambda>doorbell.
     mbind (write_volatile32 hw doorbell (ucast tail)) (\<lambda>_.
     mmodify (\<lambda>(qp, w). (qp\<lparr>sub_queue := (sub_queue qp)\<lparr>sq_head := ucast (ce_sq_head c_entry)\<rparr>\<rparr>, w))))"

definition status_code :: "nvme_completion \<Rightarrow> u16" where
  "status_code c_entry = drop_bit 1 (ce_status c_entry)"

definition qp_complete_io :: "'d hw \<Rightarrow> usize \<Rightarrow> ('d qp_state, u16 option) comp" where
  "qp_complete_io hw n =
     mbind (massert (0 < n)) (\<lambda>_.
     mbind (on_comp_queue (cq_complete_n hw n)) (\<lambda>(tail, c_entry, _).
     mbind (qp_take hw tail c_entry) (\<lambda>_.
     if status_code c_entry \<noteq> 0 then mret None
     else mret (Some (ce_sq_head c_entry)))))"

definition qp_quick_poll :: "'d hw \<Rightarrow> ('d qp_state, unit option) comp" where
  "qp_quick_poll hw =
     mbind (on_comp_queue cq_complete) (\<lambda>v. case v of
        Some (tail, c_entry, _) \<Rightarrow> mbind (qp_take hw tail c_entry) (\<lambda>_. mret (Some ()))
      | None \<Rightarrow> mret None)"

text \<open>The loop of \<^verbatim>\<open>u16_to_variable_bit_chunks\<close> from position \<open>pos\<close> on.\<close>

fun bit_chunks :: "string \<Rightarrow> nat list \<Rightarrow> nat \<Rightarrow> string list" where
  "bit_chunks binary_string [] pos = []"
| "bit_chunks binary_string (sz # sizes) pos =
     (let stop = (if 16 < pos + sz then 16 else pos + sz);
          chunk = take (stop - pos) (drop pos binary_string)
      in chunk # (if 16 \<le> stop then [] else bit_chunks binary_string sizes stop))"

definition u16_to_variable_bit_chunks :: "u16 \<Rightarrow> nat list \<Rightarrow> string" where
  "u16_to_variable_bit_chunks n chunk_sizes =
     join '' '' (bit_chunks (zero_pad 16 (fmt_base 2 (unat n))) chunk_sizes 0)"

definition debug_completion :: "nvme_completion \<Rightarrow> string" where
  "debug_completion c =
     ''NvmeCompletion { command_specific: '' @ fmt_dec (unat (ce_command_specific c))
     @ '', _rsvd: '' @ fmt_dec (unat (ce_rsvd c))
     @ '', sq_head: '' @ fmt_dec (unat (ce_sq_head c))
     @ '', sq_id: '' @ fmt_dec (unat (ce_sq_id c))
     @ '', c_id: '' @ fmt_dec (unat (ce_c_id c))
     @ '', status: '' @ fmt_dec (unat (ce_status c)) @ '' }''"

definition quick_poll_message :: "nvme_completion \<Rightarrow> string" where
  "quick_poll_message c_entry =
     (let status = status_code c_entry
      in ''QUICK_POLL Status: 0x'' @ fmt_hex (unat status)
         @ '', Status Code 0x'' @ fmt_hex (unat (status AND 0xFF))
         @ '', Status Code Type: 0x'' @ fmt_hex (unat (drop_bit 8 status AND 7))
         @ [CHR 0x0A] @ debug_completion c_entry)"

definition qp_quick_poll_result :: "'d hw \<Rightarrow> ('d qp_state, unit option) comp" where
  "qp_quick_poll_result hw =
     mbind (on_comp_queue cq_complete) (\<lambda>v. case v of
        Some (tail, c_entry, _) \<Rightarrow>
          mbind (qp_take hw tail c_entry) (\<lambda>_.
          if status_code c_entry \<noteq> 0
          then merr (error_from_string (''Error: '' @ quick_poll_message c_entry))
          else mret (Some ()))
      | None \<Rightarrow> mret None)"


subsection \<open>Submitting\<close>

lemma sq_pending_cong_mem:
  assumes inv: "sq_inv sq"
    and same: "\<And>i. i < 1048576 \<Longrightarrow> m' (virt (sq_commands sq) + of_nat i) = m (virt (sq_commands sq) + of_nat i)"
  shows "sq_pending sq m' = sq_pending sq m"
proof -
  have "sq_slot sq m' j = sq_slot sq m j" if "j < 16384" for j
  proof -
    have "64 * j + i < 1048576" if "i < 64" for i using that \<open>j < 16384\<close> by linarith
    then have "mem_read m' (cell (virt (sq_commands sq)) 64 j) 64
        = mem_read m (cell (virt (sq_commands sq)) 64 j) 64"
      using same by (fastforce simp: mem_read_def cell_def add.assoc of_nat_add [symmetric]
          simp del: of_nat_add of_nat_mult)
    then show ?thesis by (simp add: sq_slot_def)
  qed
  moreover have "(unat (sq_head sq) + i) mod unat (sq_len sq) < 16384" for i
    using sq_invD(1,2) [OF inv] by (meson less_le_trans mod_less_divisor)
  ultimately show ?thesis by (simp add: sq_pending_def)
qed

text \<open>The state a client of the submission side relies on: indices in range, and a controller
  that does not write the queue's memory when its doorbell rings.\<close>

definition qp_ready :: "'d hw \<Rightarrow> nvme_queue_pair \<Rightarrow> bool" where
  "qp_ready hw qp \<longleftrightarrow> sq_inv (sub_queue qp)
     \<and> doorbell_keeps hw (sq_doorbell (sub_queue qp)) (virt (sq_commands (sub_queue qp))) 1048576"

definition qp_room :: "nvme_queue_pair \<Rightarrow> nat" where
  "qp_room qp = unat (sq_len (sub_queue qp)) - 1 - sq_count (sub_queue qp)"

definition qp_after :: "nvme_command \<Rightarrow> nvme_queue_pair \<Rightarrow> nvme_queue_pair" where
  "qp_after entry qp = qp\<lparr>sub_queue := sq_after entry (sub_queue qp)\<rparr>"

lemma qp_submit_entry_run:
  assumes "sq_inv (sub_queue qp)"
  shows "qp_submit_entry hw entry (qp, w) =
    (if sq_count (sub_queue qp) = unat (sq_len (sub_queue qp)) - 1
     then Some (Ret False, (qp, w))
     else Some (Ret True, (qp_after entry qp,
            hw_write32 hw (sq_doorbell (sub_queue qp)) (ucast (sq_tail (sq_after entry (sub_queue qp))))
              (w\<lparr>wmem := sq_stored entry (sub_queue qp) (wmem w)\<rparr>))))"
  by (simp add: qp_submit_entry_def on_sub_queue_def write_volatile32_def run_simps
      sq_submit_checked_run [OF assms] qp_after_def)
    (simp add: sq_after_def)

definition qp_push ::
    "nvme_command \<Rightarrow> 'd hw \<times> 'd qp_state \<Rightarrow> ('d hw \<times> 'd qp_state) option" where
  "qp_push entry = (\<lambda>(hw, s).
     case qp_submit_entry hw entry s of Some (Ret True, s') \<Rightarrow> Some (hw, s') | _ \<Rightarrow> None)"

lemma sq_pending_ring:
  assumes "qp_ready hw qp"
  shows "sq_pending (sub_queue (qp_after entry qp)) (wmem (hw_write32 hw (sq_doorbell (sub_queue qp)) v w))
    = sq_pending (sub_queue (qp_after entry qp)) (wmem w)"
proof -
  have "sq_inv (sub_queue (qp_after entry qp))"
    using assms by (simp add: qp_ready_def qp_after_def sq_inv_after)
  then show ?thesis
    using assms
    by (intro sq_pending_cong_mem) (simp_all add: qp_ready_def doorbell_keeps_def qp_after_def sq_after_def)
qed

interpretation qp: bounded_fifo
  "\<lambda>(hw, qp, w). qp_ready hw qp"
  "\<lambda>(hw, qp, w). sq_pending (sub_queue qp) (wmem w)"
  "\<lambda>(hw, qp, w). unat (sq_len (sub_queue qp)) - 1"
  qp_push
  "\<lambda>k (hw, qp, w). (hw, qp\<lparr>sub_queue := sq_release k (sub_queue qp)\<rparr>, w)"
proof (unfold_locales, goal_cases)
  case (1 q)
  then show ?case using sq_count_less by (fastforce simp: qp_ready_def split: prod.splits)
next
  case (2 q x)
  then show ?case
    by (auto simp: qp_push_def qp_ready_def qp_submit_entry_run split: prod.splits)
next
  case (3 q x)
  obtain hw qp w where q: "q = (hw, qp, w)" by (cases q)
  have ready: "qp_ready hw qp" and inv: "sq_inv (sub_queue qp)"
    and room: "sq_count (sub_queue qp) \<noteq> unat (sq_len (sub_queue qp)) - 1"
    using 3 by (auto simp: q qp_ready_def)
  have "qp_ready hw (qp_after x qp)"
    using ready by (simp add: qp_ready_def qp_after_def sq_inv_after) (simp add: sq_after_def)
  moreover have "sq_pending (sub_queue (qp_after x qp)) (sq_stored x (sub_queue qp) (wmem w))
      = sq_pending (sub_queue qp) (wmem w) @ [x]"
    using sq_pending_submit [OF inv room] by (simp add: qp_after_def)
  moreover have "sq_len (sub_queue (qp_after x qp)) = sq_len (sub_queue qp)"
    by (simp add: qp_after_def sq_after_def)
  ultimately show ?case
    using room by (simp add: q qp_push_def qp_submit_entry_run [OF inv] sq_pending_ring [OF ready])
next
  case (4 q k)
  then show ?case
    by (auto simp: qp_ready_def sq_release_props split: prod.splits) (simp_all add: sq_release_def)
qed


text \<open>Chunks with the block address each of them is written to or read from.\<close>

fun chunk_lbas :: "dma_chunk list \<Rightarrow> u64 \<Rightarrow> (dma_chunk \<times> u64) list" where
  "chunk_lbas [] lba = []"
| "chunk_lbas (c # cs) lba = (c, lba) # chunk_lbas cs (lba + blocks_of (chunk_len c))"

lemma length_chunk_lbas [simp]: "length (chunk_lbas cs lba) = length cs"
  by (induction cs arbitrary: lba) simp_all

lemma chunk_lbas_nth:
  "k < length cs \<Longrightarrow> chunk_lbas cs lba ! k
     = (cs ! k, lba + sum_list (map (\<lambda>c. blocks_of (chunk_len c)) (take k cs)))"
  by (induction cs arbitrary: k lba) (auto simp: nth_Cons' take_Cons' add.assoc)

definition qp_make :: "bool \<Rightarrow> dma_chunk \<times> u64 \<Rightarrow> 'd hw \<times> 'd qp_state \<Rightarrow> nvme_command" where
  "qp_make write = (\<lambda>(c, lba) (hw, qp, w). qp_entry write (qp_id qp) (sq_tail (sub_queue qp)) c lba)"

lemma qp_submit_chunks_feed:
  assumes "qp_ready hw qp"
    and "fifo_feed qp_push (qp_make write) (chunk_lbas cs lba) (hw, qp, w) = (n, as, (hw', s'))"
  shows "qp_submit_chunks hw write cs lba reqs (qp, w) = Some (Ret (reqs + of_nat n), s')"
  using assms
proof (induction cs arbitrary: lba reqs qp w n as)
  case Nil
  then show ?case by simp
next
  case (Cons c cs)
  let ?e = "qp_entry write (qp_id qp) (sq_tail (sub_queue qp)) c lba"
  have inv: "sq_inv (sub_queue qp)" using Cons.prems(1) by (simp add: qp_ready_def)
  show ?case
  proof (cases "qp_push ?e (hw, qp, w)")
    case None
    then have "qp_submit_entry hw ?e (qp, w) = Some (Ret False, (qp, w))"
      by (simp add: qp_push_def qp_submit_entry_run [OF inv] split: if_splits)
    then show ?thesis using None Cons.prems(2) by (auto simp: run_simps qp_make_def)
  next
    case (Some q')
    then obtain qp1 w1 where q': "q' = (hw, qp1, w1)"
      and run: "qp_submit_entry hw ?e (qp, w) = Some (Ret True, (qp1, w1))"
      by (auto simp: qp_push_def qp_submit_entry_run [OF inv] split: if_splits)
    have "qp_ready hw qp1"
      using qp.push_cases [of "(hw, qp, w)" ?e] Cons.prems(1) Some q' by (auto split: prod.splits)
    moreover obtain k bs where "n = Suc k" "fifo_feed qp_push (qp_make write)
        (chunk_lbas cs (lba + blocks_of (chunk_len c))) (hw, qp1, w1) = (k, bs, (hw', s'))"
      using Some Cons.prems(2) q' by (auto simp: qp_make_def split: prod.splits)
    ultimately show ?thesis
      using Cons.IH run by (simp add: run_simps add.assoc)
  qed
qed

text \<open>What the commands of a run depend on: queue identifier, tail and length; each submission
  advances the tail by one slot.\<close>

definition qp_obs ::
    "'d hw \<times> 'd qp_state \<Rightarrow> ('d hw \<times> u16 \<times> completion_queue) \<times> usize \<times> usize" where
  "qp_obs = (\<lambda>(hw, qp, w). ((hw, qp_id qp, comp_queue qp), sq_tail (sub_queue qp), sq_len (sub_queue qp)))"

definition qp_advance :: "'i \<times> usize \<times> usize \<Rightarrow> 'i \<times> usize \<times> usize" where
  "qp_advance = (\<lambda>(i, t, L). (i, (t + 1) mod L, L))"

lemma qp_advance_triple: "qp_advance (i, t, L) = (i, (t + 1) mod L, L)"
  by (simp add: qp_advance_def)

lemma qp_push_obs: "qp_push a q = Some q' \<Longrightarrow> qp_obs q' = qp_advance (qp_obs q)"
  by (auto simp: qp_push_def qp_obs_def qp_advance_def qp_submit_entry_def on_sub_queue_def
      write_volatile32_def sq_submit_checked_def sq_is_full_def sq_submit_def run_simps Let_def
      split: prod.splits option.splits outcome.splits bool.splits if_splits)

lemma qp_advance_funpow:
  assumes "t < L" and "L \<le> 16384"
  shows "(qp_advance ^^ k) (i, t, L) = (i, of_nat ((unat t + k) mod unat L), L)"
proof (induction k)
  case 0
  have "unat t mod unat L = unat t" using assms by (simp add: word_less_nat_alt)
  then show ?case by simp
next
  case (Suc k)
  have L: "0 < unat L" "unat L \<le> 16384" using assms by (auto simp: word_less_nat_alt word_le_nat_alt)
  let ?t = "of_nat ((unat t + k) mod unat L) :: usize"
  have less: "(unat t + k) mod unat L < unat L" using L(1) by simp
  then have "(unat t + k) mod unat L < 2 ^ 64" by (rule less_trans) simp
  then have ut: "unat ?t = (unat t + k) mod unat L" by (simp add: unat_of_nat)
  then have "?t < L" using less by (simp only: word_less_nat_alt)
  then have "unat ((?t + 1) mod L) = Suc ((unat t + k) mod unat L) mod unat L"
    using assms(2) ut by (simp add: unat_ring_succ del: of_nat_add)
  then have "(?t + 1) mod L = of_nat ((unat t + Suc k) mod unat L)"
    by (intro word_of_unat) (simp add: mod_Suc_eq del: of_nat_add)
  then show ?case by (simp add: Suc qp_advance_triple del: of_nat_add)
qed


subsection \<open>The commands of one request\<close>

lemma unat_blocks_of:
  assumes "unat len \<le> 524288"
  shows "unat (blocks_of len) = (unat len + 511) div 512"
proof -
  have "unat (len + 512) = unat len + 512"
    using assms by (subst unat_add_no_wrap) simp_all
  then have "unat (len + 512 - 1) = unat len + 511"
    by (subst unat_minus_one) (auto simp: unat_eq_zero [symmetric] simp del: unat_eq_zero)
  then show ?thesis by (simp add: blocks_of_def unat_div)
qed

lemma nth_chunk_len:
  "unat (chunk_len (nth_chunk d bytes i)) = min (unat bytes) (unat (dsize d) - i * unat bytes)"
proof -
  have "min (unat bytes) (unat (dsize d) - i * unat bytes) < 2 ^ 64"
    by (simp add: min.strict_coboundedI1)
  then show ?thesis by (simp add: nth_chunk_def unat_of_nat del: of_nat_diff)
qed

lemma chunk_lbas_region:
  assumes "k < chunk_count 8192 (unat (dsize d))"
  shows "chunk_lbas (map (nth_chunk d 8192) [0..<chunk_count 8192 (unat (dsize d))]) lba ! k
    = (nth_chunk d 8192 k, lba + of_nat (16 * k))"
proof -
  let ?n = "chunk_count 8192 (unat (dsize d))"
  have full: "blocks_of (chunk_len (nth_chunk d 8192 j)) = 16" if "j < k" for j
  proof -
    have "k * 8192 < unat (dsize d)" using assms by (simp add: chunk_count_less)
    moreover have "Suc j * 8192 \<le> k * 8192" using that by (intro mult_le_mono1) simp
    ultimately have "unat (chunk_len (nth_chunk d 8192 j)) = 8192"
      by (simp add: nth_chunk_len)
    then have "unat (blocks_of (chunk_len (nth_chunk d 8192 j))) = 16"
      by (simp add: unat_blocks_of)
    then show ?thesis by (intro word_eq_unatI) simp
  qed
  have "sum_list (map (\<lambda>c. blocks_of (chunk_len c)) (map (nth_chunk d 8192) [0..<k]))
      = sum_list (map (\<lambda>j. 16 :: u64) [0..<k])"
    using full by (intro arg_cong [where f = sum_list]) simp
  also have "\<dots> = of_nat (16 * k)" by (simp add: sum_list_triv)
  finally show ?thesis
    using assms by (simp add: chunk_lbas_nth take_map)
qed

text \<open>The fields a controller reads from the command for chunk \<open>i\<close> of a region.\<close>

definition covers_chunk :: "bool \<Rightarrow> dma \<Rightarrow> u64 \<Rightarrow> nat \<Rightarrow> nvme_command \<Rightarrow> bool" where
  "covers_chunk write data lba i c \<longleftrightarrow>
     (let b = min 8192 (unat (dsize data) - 8192 * i); addr = phys data + of_nat (8192 * i)
      in opcode c = (if write then 1 else 2) \<and> ns_id c = 1
       \<and> io_lba c = lba + of_nat (16 * i) \<and> io_blocks c = (b + 511) div 512
       \<and> d_ptr c = (addr, if b \<le> 4096 then 0 else addr + 4096))"

lemma qp_entry_covers:
  assumes "i < chunk_count 8192 (unat (dsize data))"
  shows "covers_chunk write data lba i
    (qp_entry write qid t (nth_chunk data 8192 i) (lba + of_nat (16 * i)))"
proof -
  let ?b = "min 8192 (unat (dsize data) - 8192 * i)"
  let ?B = "blocks_of (chunk_len (nth_chunk data 8192 i))"
  have pos: "0 < ?b" "?b \<le> 8192" using assms by (simp_all add: chunk_count_less mult.commute)
  have len: "unat (chunk_len (nth_chunk data 8192 i)) = ?b" by (simp add: nth_chunk_len mult.commute)
  then have B: "unat ?B = (?b + 511) div 512" using pos by (subst unat_blocks_of) simp_all
  have Bpos: "0 < ?B" "?B \<le> 0x10000"
    using B pos by (auto simp: word_less_nat_alt word_le_nat_alt)
  have "unat (?B * 512) = (?b + 511) div 512 * 512"
    using B pos by (subst unat_mult_no_wrap) (simp_all only: B, auto)
  then have "?B * 512 \<le> 4096 \<longleftrightarrow> ?b \<le> 4096"
    using pos by (auto simp: word_le_nat_alt)
  then show ?thesis
    using B unat_blocks_minus_1 [OF Bpos]
    by (auto simp: covers_chunk_def qp_entry_def Let_def nth_chunk_def mult.commute)
qed

text \<open>
  C5. A request on a queue pair. Whatever the controller does apart from keeping its hands off
  the submission ring, submitting a region appends one command per chunk of two pages, in order,
  until the ring is full, and returns how many it appended. Command \<open>i\<close> addresses the blocks
  from \<open>lba + 16 * i\<close> on, as many as its chunk needs, and points at the chunk's one or two
  pages; its identifier is built from the queue's identifier and the slot it occupies.
\<close>

theorem submit_io_appends_commands:
  assumes ready: "qp_ready hw qp"
  shows "\<exists>qp' w' cmds.
      qp_submit_io hw data lba write (qp, w) = Some (Ret (of_nat (length cmds)), (qp', w'))
    \<and> length cmds = min (chunk_count 8192 (unat (dsize data))) (qp_room qp)
    \<and> sq_pending (sub_queue qp') (wmem w') = sq_pending (sub_queue qp) (wmem w) @ cmds
    \<and> qp_ready hw qp' \<and> qp_id qp' = qp_id qp \<and> comp_queue qp' = comp_queue qp
    \<and> (\<forall>i < length cmds. covers_chunk write data lba i (cmds ! i)
         \<and> c_id (cmds ! i) = qp_cid (qp_id qp)
             (of_nat ((unat (sq_tail (sub_queue qp)) + i) mod unat (sq_len (sub_queue qp)))))"
proof -
  let ?n = "chunk_count 8192 (unat (dsize data))"
  let ?cs = "map (nth_chunk data 8192) [0..<?n]"
  obtain n as hw' qp' w' where
    feed: "fifo_feed qp_push (qp_make write) (chunk_lbas ?cs lba) (hw, qp, w) = (n, as, (hw', qp', w'))"
    by (metis prod_cases3)
  have cs: "dma_chunks_collect (chunks data (2 * 4096)) = Some ?cs"
    using dma_chunks_collect_at [of 8192 0 data] by (simp add: chunks_def)
  have run: "qp_submit_io hw data lba write (qp, w) = Some (Ret (of_nat n), (qp', w'))"
    using qp_submit_chunks_feed [OF ready feed, of 0] cs by (simp add: qp_submit_io_def)
  have c: "qp_ready hw' qp'" "sq_pending (sub_queue qp') (wmem w') = sq_pending (sub_queue qp) (wmem w) @ as"
      "length as = n" "n = min ?n (qp_room qp)"
    using qp.feed_contents [OF _ feed] ready by (simp_all add: qp_room_def)
  define mk :: "_ \<Rightarrow> ('a hw \<times> u16 \<times> completion_queue) \<times> usize \<times> usize \<Rightarrow> _"
    where "mk = (\<lambda>(c, l) ((h, i, q), t, L). qp_entry write i t c l)"
  have mk: "qp_make write x q = mk x (qp_obs q)" for x q
    by (simp add: qp_make_def mk_def qp_obs_def split: prod.splits)
  let ?t = "sq_tail (sub_queue qp)" and ?L = "sq_len (sub_queue qp)"
  have tL: "?t < ?L" "?L \<le> 16384" using ready by (simp_all add: qp_ready_def sq_inv_def)
  note el = feed_elements [where push = qp_push and obs = qp_obs and nxt = qp_advance and mk' = mk,
      OF qp_push_obs mk feed]
  have adv: "(qp_advance ^^ i) (qp_obs (hw, qp, w))
      = ((hw, qp_id qp, comp_queue qp), of_nat ((unat ?t + i) mod unat ?L), ?L)" for i
    using qp_advance_funpow [OF tL] by (simp add: qp_obs_def)
  have "covers_chunk write data lba i (as ! i)
      \<and> c_id (as ! i) = qp_cid (qp_id qp) (of_nat ((unat ?t + i) mod unat ?L))" if "i < n" for i
  proof -
    have i: "i < ?n" using that c(4) by simp
    have "as ! i = qp_entry write (qp_id qp) (of_nat ((unat ?t + i) mod unat ?L))
        (nth_chunk data 8192 i) (lba + of_nat (16 * i))"
      using el that by (simp add: adv chunk_lbas_region [OF i] mk_def)
    then show ?thesis
      using qp_entry_covers [OF i] by (simp add: qp_entry_def Let_def)
  qed
  moreover have "hw' = hw" "qp_id qp' = qp_id qp" "comp_queue qp' = comp_queue qp"
    using el adv [of n] by (simp_all add: qp_obs_def)
  ultimately show ?thesis using run c by blast
qed


definition demo_qp :: nvme_queue_pair where
  "demo_qp = \<lparr>qp_id = 2, sub_queue = demo_sq, comp_queue = demo_cq\<lparr>cq_head := 0\<rparr>\<rparr>"

lemma demo_qp_ready: "qp_ready log_hw demo_qp"
  by (simp add: qp_ready_def demo_qp_def demo_sq_props)

theorem submit_io_appends_commands_witness:
  "\<exists>qp' w' cmds.
      qp_submit_io log_hw \<lparr>virt = 0, phys = 65536, dsize = 10000\<rparr> 100 True (demo_qp, blank_world [])
        = Some (Ret 2, (qp', w'))
    \<and> sq_pending (sub_queue qp') (wmem w') = cmds
    \<and> length cmds = 2 \<and> io_lba (cmds ! 1) = 116 \<and> io_blocks (cmds ! 1) = 4
    \<and> d_ptr (cmds ! 1) = (73728, 0)"
proof -
  let ?d = "\<lparr>virt = 0, phys = 65536, dsize = 10000\<rparr>"
  have "chunk_count 8192 (unat (dsize ?d)) = 2" by (simp add: chunk_count_def)
  moreover have "qp_room demo_qp = 3"
    by (simp add: qp_room_def demo_qp_def demo_sq_def sq_count_def ring_dist_def)
  moreover have "sq_pending (sub_queue demo_qp) m = []" for m
    by (simp add: demo_qp_def demo_sq_props)
  moreover obtain qp' w' cmds where
    "qp_submit_io log_hw ?d 100 True (demo_qp, blank_world []) = Some (Ret (of_nat (length cmds)), (qp', w'))"
    "length cmds = min (chunk_count 8192 (unat (dsize ?d))) (qp_room demo_qp)"
    "sq_pending (sub_queue qp') (wmem w')
       = sq_pending (sub_queue demo_qp) (wmem (blank_world [] :: (usize \<times> u64) list world)) @ cmds"
    "\<forall>i < length cmds. covers_chunk True ?d 100 i (cmds ! i)"
    using submit_io_appends_commands [OF demo_qp_ready, of ?d 100 True "blank_world []"] by blast
  ultimately show ?thesis by (auto simp: covers_chunk_def Let_def)
qed

subsection \<open>Command identifiers\<close>

lemma bit_qp_cid:
  "n < 16 \<Longrightarrow> bit (qp_cid i tail) n \<longleftrightarrow> (11 \<le> n \<and> bit i (n - 11)) \<or> bit tail n"
  by (auto simp: qp_cid_def bit_or_iff bit_simps)

lemma bit_usize_less:
  assumes "unat (t :: usize) < 2 ^ k" and "k \<le> n"
  shows "\<not> bit t n"
proof -
  have "unat t < 2 ^ n" using assms by (meson less_le_trans one_le_numeral power_increasing)
  then have "\<not> bit (unat t) n" by (simp add: bit_iff_odd)
  then show ?thesis by (simp add: bit_unsigned_iff)
qed

text \<open>A ring of up to \<open>2 ^ k\<close> entries: the slot number and the queue's identifier must not share bits.\<close>

lemma inj_qp_cid:
  assumes "k \<le> 14" and "\<forall>j. 11 + j < k \<longrightarrow> \<not> bit i j"
  shows "inj_on (qp_cid i) {t. unat t < 2 ^ k}"
proof (rule inj_onI, rule bit_word_eqI)
  fix a b :: usize and n
  assume less: "a \<in> {t. unat t < 2 ^ k}" "b \<in> {t. unat t < 2 ^ k}" and eq: "qp_cid i a = qp_cid i b"
  show "bit a n = bit b n"
  proof (cases "n < k")
    case True
    then have "\<not> (11 \<le> n \<and> bit i (n - 11))" using assms(2) by auto
    then show ?thesis using bit_qp_cid [of n i a] bit_qp_cid [of n i b] eq True assms(1) by auto
  next
    case False
    then show ?thesis using less bit_usize_less [of _ k n] by auto
  qed
qed

text \<open>
  C8. Command identifiers. They are unique per slot on rings of up to 2048 entries. On the driver's
  default ring of \<open>QUEUE_LENGTH\<close> = 16384 entries the slot number needs 14 bits and overlaps the queue's
  identifier, which is shifted by 11: there they are unique exactly if the identifier is a multiple
  of 8. The first pair a device creates has identifier 2, and slots 0 and 4096 share a command identifier.
\<close>

theorem command_identifiers:
  "inj_on (qp_cid qid) {t. t < 2048} \<and> (inj_on (qp_cid qid) {t. t < QUEUE_LENGTH} \<longleftrightarrow> qid AND 7 = 0)
   \<and> qp_cid 2 0 = qp_cid 2 4096"
proof (intro conjI iffI)
  have low: "{t :: usize. t < 2048} = {t. unat t < 2 ^ 11}" "{t :: usize. t < QUEUE_LENGTH} = {t. unat t < 2 ^ 14}"
    by (simp_all add: word_less_nat_alt)
  show "inj_on (qp_cid qid) {t. t < 2048}" unfolding low by (rule inj_qp_cid) simp_all
  have seven: "bit (7 :: u16) j \<longleftrightarrow> j < 3" for j
  proof -
    have "bit (mask 3 :: u16) j \<longleftrightarrow> j < 3" by (auto simp: bit_mask_iff)
    then show ?thesis by (simp add: mask_eq_exp_minus_1)
  qed
  show "inj_on (qp_cid qid) {t. t < QUEUE_LENGTH}" if z: "qid AND 7 = 0"
    unfolding low
  proof (rule inj_qp_cid)
    have none: "\<not> bit (qid AND 7) j" for j unfolding z by simp
    have "\<not> (bit qid j \<and> j < 3)" for j using none [of j] by (simp only: bit_and_iff seven not_False_eq_True)
    then show "\<forall>j. 11 + j < 14 \<longrightarrow> \<not> bit qid j" by auto
  qed simp
  show "qid AND 7 = 0" if inj: "inj_on (qp_cid qid) {t. t < QUEUE_LENGTH}"
  proof (rule bit_word_eqI)
    fix j
    have "\<not> bit qid j" if "j < 3"
    proof
      assume set: "bit qid j"
      have "qp_cid qid (2 ^ (11 + j)) = qp_cid qid 0"
        by (rule bit_word_eqI) (use set that in \<open>auto simp: bit_qp_cid bit_exp_iff\<close>)
      moreover have "(2 ^ (11 + j) :: usize) < QUEUE_LENGTH" "(2 ^ (11 + j) :: usize) \<noteq> 0"
        using that by (auto simp: less_Suc_eq numeral_3_eq_3)
      ultimately show False using inj_onD [OF inj, of "2 ^ (11 + j)" 0] by simp
    qed
    then show "bit (qid AND 7) j = bit 0 j" unfolding bit_and_iff seven by auto
  qed
  show "qp_cid 2 0 = qp_cid 2 4096" by (simp add: qp_cid_def push_bit_eq_mult)
qed

subsection \<open>Completing\<close>

lemma qp_take_run:
  "qp_take hw tail c (qp, w) = Some (Ret (),
     (qp\<lparr>sub_queue := (sub_queue qp)\<lparr>sq_head := ucast (ce_sq_head c)\<rparr>\<rparr>,
      hw_write32 hw (cq_doorbell (comp_queue qp)) (ucast tail) w))"
  by (simp add: qp_take_def write_volatile32_def run_simps)

text \<open>
  C6. Completing \<open>n\<close> requests on a queue pair: once the controller has posted \<open>n\<close> more
  completions the call returns, has told the controller the new head of the completion queue
  through its doorbell, and has taken the submission queue head from the last of those
  completions; it gives that head if the completion reports success and nothing if it reports an
  error. If the reported head is the tail, the submission queue is empty again. Asking for no
  completion panics before anything is touched.
\<close>

theorem complete_io_outcome:
  assumes "cq_consumed (comp_queue qp) N" and "0 < n" and "n \<le> cq_len (comp_queue qp)"
    and "\<forall>t\<le>T. cq_posted (comp_queue qp) (wmem ((hw_tick hw ^^ t) w)) ces (p t)
        \<and> N \<le> p t \<and> p t \<le> N + unat (cq_len (comp_queue qp))"
    and "\<forall>t<T. p t < N + unat n" and "N + unat n \<le> p T"
    and "c = ces (N + unat n - 1)"
  shows "\<exists>qp'. qp_complete_io hw n (qp, w)
      = Some (Ret (if status_code c = 0 then Some (ce_sq_head c) else None),
          (qp', hw_write32 hw (cq_doorbell (comp_queue qp)) (ucast (cq_head (comp_queue qp')))
                  ((hw_tick hw ^^ T) w)))
    \<and> cq_consumed (comp_queue qp') (N + unat n)
    \<and> sub_queue qp' = (sub_queue qp)\<lparr>sq_head := ucast (ce_sq_head c)\<rparr>
    \<and> (ucast (ce_sq_head c) = sq_tail (sub_queue qp) \<longrightarrow> sq_is_empty (sub_queue qp'))
    \<and> qp_complete_io hw 0 (qp, w) = Some (Panic Assertion_failed, (qp, w))"
proof -
  obtain cq' where cq': "cq_complete_n hw n (comp_queue qp, w)
      = Some (Ret (cq_head cq', c, cq_head (comp_queue qp)), (cq', (hw_tick hw ^^ T) w))"
    "cq_consumed cq' (N + unat n)" "cq_doorbell cq' = cq_doorbell (comp_queue qp)"
    using cq_complete_n_run [OF assms(1-6) refl] assms(7) by simp
  let ?qp = "qp\<lparr>comp_queue := cq', sub_queue := (sub_queue qp)\<lparr>sq_head := ucast (ce_sq_head c)\<rparr>\<rparr>"
  have "qp_complete_io hw n (qp, w)
      = Some (Ret (if status_code c = 0 then Some (ce_sq_head c) else None),
          (?qp, hw_write32 hw (cq_doorbell (comp_queue qp)) (ucast (cq_head cq'))
                  ((hw_tick hw ^^ T) w)))"
    using cq'(1,3) assms(2)
    by (simp add: qp_complete_io_def on_comp_queue_def run_simps qp_take_run)
  moreover have "qp_complete_io hw 0 (qp, w) = Some (Panic Assertion_failed, (qp, w))"
    by (simp add: qp_complete_io_def run_simps)
  ultimately show ?thesis
    using cq'(2) by (intro exI [of _ ?qp]) (simp add: sq_is_empty_def)
qed

theorem complete_io_outcome_witness:
  "\<exists>qp'. qp_complete_io demo_hw 2 (demo_qp, \<lparr>wmem = demo_memory0, wdev = ()\<rparr>)
      = Some (Ret (Some 2), (qp', \<lparr>wmem = demo_memory, wdev = ()\<rparr>))
    \<and> cq_consumed (comp_queue qp') 2 \<and> sq_head (sub_queue qp') = 2"
proof -
  let ?cq = "comp_queue demo_qp" and ?w = "\<lparr>wmem = demo_memory0, wdev = ()\<rparr>"
  let ?ces = "\<lambda>k. demo_completion (of_nat k + 1)"
  have con: "cq_consumed ?cq 0" using demo_consumed0 by (simp add: demo_qp_def)
  have len: "cq_len ?cq = 2" by (simp add: demo_qp_def demo_cq_def)
  have cong: "cq_posted ?cq = cq_posted demo_cq" by (rule cq_posted_cong) (simp_all add: demo_qp_def)
  have post: "\<forall>t\<le>1. cq_posted ?cq (wmem ((hw_tick demo_hw ^^ t) ?w)) ?ces (if t = 0 then 1 else 2)
      \<and> 0 \<le> (if t = 0 then 1 else 2 :: nat) \<and> (if t = 0 then 1 else 2) \<le> 0 + unat (cq_len ?cq)"
    using demo_posted demo_posted0 by (auto simp: cong len le_Suc_eq demo_hw_def)
  have "2 \<le> cq_len ?cq" by (simp add: len)
  from complete_io_outcome [OF con _ this post _ _ refl] show ?thesis
    by (auto simp: demo_hw_def demo_completion_def status_code_def numeral_2_eq_2 [symmetric])
qed

text \<open>
  C7. The two non-blocking polls take the same completion and leave the same state behind; the one
  that returns a result turns a completion with a non-zero status into an error, after having
  consumed it, and the other reports it as done.
\<close>

theorem quick_polls_agree:
  assumes "cq_inv (comp_queue qp)"
  shows "\<exists>v s'. qp_quick_poll hw (qp, w) = Some (Ret v, s')
    \<and> (if v = None then s' = (qp, w) \<and> qp_quick_poll_result hw (qp, w) = Some (Ret None, s')
       else let c = cq_slot (comp_queue qp) (wmem w) (unat (cq_head (comp_queue qp)))
            in sq_head (sub_queue (fst s')) = ucast (ce_sq_head c)
             \<and> qp_quick_poll_result hw (qp, w)
                 = Some (if status_code c = 0 then Ret (Some ())
                         else Err (Vroom (''Error: '' @ quick_poll_message c)), s'))"
proof -
  let ?c = "cq_slot (comp_queue qp) (wmem w) (unat (cq_head (comp_queue qp)))"
  show ?thesis
  proof (cases "odd (ce_status ?c) = cq_phase (comp_queue qp)")
    case True
    then show ?thesis
      by (simp add: qp_quick_poll_def qp_quick_poll_result_def on_comp_queue_def run_simps
          cq_complete_run [OF assms] qp_take_run error_from_string_def Let_def)
  next
    case False
    then show ?thesis
      by (simp add: qp_quick_poll_def qp_quick_poll_result_def on_comp_queue_def run_simps
          cq_complete_run [OF assms] Let_def)
  qed
qed


theorem quick_polls_agree_witness:
  "\<exists>s'. qp_quick_poll demo_hw (demo_qp, \<lparr>wmem = demo_memory, wdev = ()\<rparr>) = Some (Ret (Some ()), s')
    \<and> sq_head (sub_queue (fst s')) = 1
    \<and> qp_quick_poll_result demo_hw (demo_qp, \<lparr>wmem = demo_memory, wdev = ()\<rparr>) = Some (Ret (Some ()), s')"
proof -
  let ?w = "\<lparr>wmem = demo_memory, wdev = ()\<rparr>"
  have inv: "cq_inv (comp_queue demo_qp)" by (simp add: demo_qp_def cq_inv_def demo_cq_def)
  have slot: "cq_slot (comp_queue demo_qp) demo_memory (unat (cq_head (comp_queue demo_qp))) = demo_completion 1"
    using demo_slots(1) by (simp add: demo_qp_def cq_slot_def)
  then have "fst (the (qp_quick_poll demo_hw (demo_qp, ?w))) = Ret (Some ())"
    by (simp add: qp_quick_poll_def on_comp_queue_def run_simps cq_complete_run [OF inv] qp_take_run
        Let_def demo_completion_def) (simp add: demo_qp_def demo_cq_def)
  then show ?thesis
    using quick_polls_agree [OF inv, of demo_hw ?w] slot
    by (auto simp: Let_def demo_completion_def status_code_def)
qed

subsection \<open>Showing a status word\<close>

lemma concat_bit_chunks:
  assumes "length s = 16" and "pos \<le> 16"
  shows "concat (bit_chunks s sizes pos) = take (min 16 (pos + sum_list sizes) - pos) (drop pos s)"
  using assms
proof (induction sizes arbitrary: pos)
  case Nil
  then show ?case by simp
next
  case (Cons sz sizes)
  show ?case
  proof (cases "16 \<le> pos + sz")
    case True
    then show ?thesis using Cons.prems by (auto simp: Let_def)
  next
    case False
    then have "concat (bit_chunks s sizes (pos + sz))
        = take (min 16 (pos + sz + sum_list sizes) - (pos + sz)) (drop (pos + sz) s)"
      using Cons by simp
    moreover have "take sz (drop pos s) @ take k (drop (pos + sz) s) = take (sz + k) (drop pos s)" for k
      by (subst take_add) (simp add: add.commute)
    ultimately show ?thesis using False by (auto simp: Let_def min_def add.assoc)
  qed
qed

lemma set_bit_chunks: "x \<in> set (bit_chunks s sizes pos) \<Longrightarrow> set x \<subseteq> set s"
  by (induction sizes arbitrary: pos)
    (auto simp: Let_def split: if_splits dest: in_set_takeD in_set_dropD)

lemma binary_digits:
  assumes "s = zero_pad 16 (fmt_base 2 (unat (n :: u16)))"
  shows "length s = 16" "CHR '' '' \<notin> set s" "read_base 2 s = unat n"
proof -
  have "unat n < 2 ^ 16" using unsigned_less [of n] by simp
  then have "length (fmt_base 2 (unat n)) \<le> 16" by (rule length_fmt_base [rotated]) simp_all
  then show "length s = 16" by (simp add: assms length_zero_pad)
  have "set (fmt_base 2 (unat n)) \<subseteq> digit_char ` {..<2}" by (rule set_fmt_base) simp_all
  moreover have "CHR '' '' \<notin> digit_char ` {..<2}" by (auto simp: digit_char_def less_2_cases_iff)
  ultimately show "CHR '' '' \<notin> set s" by (auto simp: assms zero_pad_def)
  have "fold (\<lambda>c acc. acc * 2 + char_digit c) (replicate k (CHR ''0'')) 0 = 0" for k
    by (induction k) (simp_all add: char_digit_def)
  then have "read_base 2 s = read_base 2 (fmt_base 2 (unat n))"
    by (simp add: assms zero_pad_def read_base_def)
  also have "\<dots> = unat n" by (rule read_fmt_base) simp_all
  finally show "read_base 2 s = unat n" .
qed

text \<open>
  The bit-field view of a status word shows all of it and nothing else: for field widths
  that add up to 16 the text, without the separating blanks, is the 16 binary digits of the word,
  from which the word can be read back.
\<close>

lemma status_bits_complete:
  assumes "sum_list sizes = 16"
  shows "\<exists>s. filter (\<lambda>c. c \<noteq> CHR '' '') (u16_to_variable_bit_chunks n sizes) = s
    \<and> length s = 16 \<and> read_base 2 s = unat n"
proof -
  let ?s = "zero_pad 16 (fmt_base 2 (unat n))"
  note d = binary_digits [OF refl, of n]
  have "\<forall>x\<in>set (bit_chunks ?s sizes 0). CHR '' '' \<notin> set x"
    using set_bit_chunks d(2) by blast
  then have "filter (\<lambda>c. c \<noteq> CHR '' '') (u16_to_variable_bit_chunks n sizes)
      = concat (bit_chunks ?s sizes 0)"
    by (simp add: u16_to_variable_bit_chunks_def filter_join)
  also have "\<dots> = ?s" using concat_bit_chunks [OF d(1), of 0 sizes] d(1) assms by simp
  finally show ?thesis using d by blast
qed

end
