(* ===== verification/Controller.thy ===== *)
theory Controller
  imports Queue_Pair
begin

text \<open>
  What the driver relies on when it submits a command and waits for its completion. The
  controller is not part of the program; \<open>answered\<close> and \<open>serves\<close> are the named assumptions on
  it, and \<open>sync_hw\<close> is a controller that meets them.

  \<open>answered hw cq w c T\<close>: from world \<open>w\<close> on, the controller leaves the slot at the head of the
  completion queue alone for \<open>T\<close> of its steps and then has posted \<open>c\<close> there, with the phase
  the queue expects.

  \<open>serves hw sqdb cqdb upd I\<close>: whenever \<open>I cs sq cq w\<close> holds (queues and world after the commands
  \<open>cs\<close>), storing one more command in the submission queue and ringing the doorbell \<open>sqdb\<close> makes
  the controller answer it with success, and ringing \<open>cqdb\<close> after taking the answer leads to a
  state with \<open>I\<close> for \<open>cs\<close> and the new command. \<open>upd\<close> is what the driver does with the answer to
  the submission queue. \<open>I\<close> may say what the commands did to the controller.
\<close>

unbundle bit_operations_syntax

definition answered ::
    "'d hw \<Rightarrow> completion_queue \<Rightarrow> 'd world \<Rightarrow> nvme_completion \<Rightarrow> nat \<Rightarrow> bool" where
  "answered hw cq w c T \<longleftrightarrow>
     (\<forall>t<T. odd (ce_status (cq_slot cq (wmem ((hw_tick hw ^^ t) w)) (unat (cq_head cq)))) \<noteq> cq_phase cq)
     \<and> cq_slot cq (wmem ((hw_tick hw ^^ T) w)) (unat (cq_head cq)) = c
     \<and> odd (ce_status c) = cq_phase cq"

definition sq_rung :: "'d hw \<Rightarrow> usize \<Rightarrow> nvme_command \<Rightarrow> submission_queue \<Rightarrow> 'd world \<Rightarrow> 'd world" where
  "sq_rung hw sqdb entry sq w =
     hw_write32 hw sqdb (ucast (sq_tail (sq_after entry sq))) (w\<lparr>wmem := sq_stored entry sq (wmem w)\<rparr>)"

definition cq_rung :: "'d hw \<Rightarrow> usize \<Rightarrow> completion_queue \<Rightarrow> nat \<Rightarrow> 'd world \<Rightarrow> 'd world" where
  "cq_rung hw cqdb cq T w = hw_write32 hw cqdb (ucast (cq_head (cq_after cq))) ((hw_tick hw ^^ T) w)"

type_synonym 'd service =
  "nvme_command list \<Rightarrow> submission_queue \<Rightarrow> completion_queue \<Rightarrow> 'd world \<Rightarrow> bool"

definition serves ::
    "'d hw \<Rightarrow> usize \<Rightarrow> usize \<Rightarrow> (nvme_completion \<Rightarrow> submission_queue \<Rightarrow> submission_queue)
      \<Rightarrow> 'd service \<Rightarrow> bool" where
  "serves hw sqdb cqdb upd I \<longleftrightarrow>
     (\<forall>cs sq cq w entry. I cs sq cq w \<longrightarrow> sq_inv sq \<and> cq_inv cq
        \<and> (\<exists>c T. answered hw cq (sq_rung hw sqdb entry sq w) c T \<and> status_code c = 0
             \<and> I (cs @ [entry]) (upd c (sq_after entry sq)) (cq_after cq)
                 (cq_rung hw cqdb cq T (sq_rung hw sqdb entry sq w))))"

text \<open>Only the first commands, as long as a ring of \<open>N\<close> entries does not wrap.\<close>

definition serves_first ::
    "nat \<Rightarrow> 'd hw \<Rightarrow> usize \<Rightarrow> usize \<Rightarrow> (nvme_completion \<Rightarrow> submission_queue \<Rightarrow> submission_queue) \<Rightarrow> 'd service \<Rightarrow> bool" where
  "serves_first N hw sqdb cqdb upd I \<longleftrightarrow>
     (\<forall>cs sq cq w entry. I cs sq cq w \<longrightarrow> Suc (length cs) < N \<longrightarrow> sq_inv sq \<and> cq_inv cq
        \<and> (\<exists>c T. answered hw cq (sq_rung hw sqdb entry sq w) c T \<and> status_code c = 0
             \<and> I (cs @ [entry]) (upd c (sq_after entry sq)) (cq_after cq)
                 (cq_rung hw cqdb cq T (sq_rung hw sqdb entry sq w))))"

lemma serves_serves_first: "serves hw sqdb cqdb upd I \<Longrightarrow> serves_first N hw sqdb cqdb upd I"
  unfolding serves_def serves_first_def by blast

abbreviation take_head :: "nvme_completion \<Rightarrow> submission_queue \<Rightarrow> submission_queue" where
  "take_head c sq \<equiv> sq\<lparr>sq_head := ucast (ce_sq_head c)\<rparr>"

lemma answered_spin:
  assumes "cq_inv cq" and "answered hw cq w c T"
  shows "cq_complete_spin hw (cq, w) =
    Some (Ret (cq_head (cq_after cq), c, cq_head cq), (cq_after cq, (hw_tick hw ^^ T) w))"
  using assms(2)
proof (induction T arbitrary: w)
  case 0
  then have "cq_complete (cq, w) = Some (Ret (Some (cq_head (cq_after cq), c, cq_head cq)), (cq_after cq, w))"
    by (auto simp: answered_def cq_complete_run [OF assms(1)] Let_def)
  then show ?case by (subst cq_complete_spin.simps) simp
next
  case (Suc T)
  have "odd (ce_status (cq_slot cq (wmem w) (unat (cq_head cq)))) \<noteq> cq_phase cq"
    using Suc.prems by (auto simp: answered_def dest: spec [where x = 0])
  then have "cq_complete (cq, w) = Some (Ret None, (cq, w))"
    by (simp add: cq_complete_run [OF assms(1)] Let_def)
  moreover have "answered hw cq (hw_tick hw w) c T"
    using Suc.prems by (auto simp: answered_def funpow_swap1 dest: spec [where x = "Suc t" for t])
  note Suc.IH [OF this]
  ultimately show ?case by (subst cq_complete_spin.simps) (simp add: funpow_swap1)
qed

lemma answered_complete_1:
  assumes "cq_inv cq" and "answered hw cq w c T"
  shows "cq_complete_n hw 1 (cq, w) =
    Some (Ret (cq_head (cq_after cq), c, cq_head cq), (cq_after cq, (hw_tick hw ^^ T) w))"
proof -
  have "cq_head cq mod cq_len cq = cq_head cq" "\<not> cq_len cq \<le> cq_head cq"
    using cq_invD(3) [OF assms(1)]
    by (auto simp: word_le_nat_alt intro: word_eq_unatI simp: unat_mod_word)
  then show ?thesis
    using cq_invD(5) [OF assms(1)] answered_spin [OF assms]
    by (simp add: cq_complete_n_def Let_def run_simps)
qed

subsection \<open>A controller that answers at once\<close>

text \<open>
  \<open>sync_hw sqdb sq cq ans\<close> watches the doorbell \<open>sqdb\<close> of the submission queue \<open>sq\<close>. When it is
  rung for the \<open>k\<close>-th time the controller reads the command in slot \<open>k mod len\<close>, notes it, and
  posts the completion \<open>ans k\<close>, with the right phase, in slot \<open>k mod len\<close> of the completion
  queue. Its state is the list of commands it has noted.
\<close>

definition sync_answer :: "nat \<Rightarrow> nat \<Rightarrow> nat \<Rightarrow> nvme_completion" where
  "sync_answer sqlen cqlen k =
     \<lparr>ce_command_specific = 0, ce_rsvd = 0, ce_sq_head = of_nat (Suc k mod sqlen), ce_sq_id = 0,
      ce_c_id = 0, ce_status = (if phase_of cqlen k then 1 else 0)\<rparr>"

definition sync_hw :: "usize \<Rightarrow> submission_queue \<Rightarrow> completion_queue \<Rightarrow> nvme_command list hw" where
  "sync_hw sqdb sq cq = \<lparr>hw_tick = (\<lambda>w. w),
     hw_write32 = (\<lambda>a v w.
       if a = sqdb then
         let k = length (wdev w); L = unat (sq_len sq); L' = unat (cq_len cq)
         in \<lparr>wmem = mem_write (wmem w) (cell (virt (cq_commands cq)) 16 (k mod L'))
                      (encode_completion (sync_answer L L' k)),
             wdev = wdev w @ [sq_slot sq (wmem w) (k mod L)]\<rparr>
       else w),
     hw_write64 = (\<lambda>a v w. w), hw_read32 = (\<lambda>a w. (0, w)), hw_read64 = (\<lambda>a w. (0, w)),
     hw_now = (\<lambda>w. (0, w))\<rparr>"

definition sync_state :: "submission_queue \<Rightarrow> completion_queue \<Rightarrow> nvme_command list service" where
  "sync_state sq0 cq0 cs sq cq w \<longleftrightarrow>
     sq_inv sq \<and> sq_commands sq = sq_commands sq0 \<and> sq_len sq = sq_len sq0
     \<and> unat (sq_tail sq) = length (wdev w) mod unat (sq_len sq)
     \<and> cq_consumed cq (length (wdev w)) \<and> cq_commands cq = cq_commands cq0 \<and> cq_len cq = cq_len cq0
     \<and> wdev w = cs"

lemma sync_hw_simps [simp]:
  "hw_tick (sync_hw sqdb sq cq) = (\<lambda>w. w)" "(hw_tick (sync_hw sqdb sq cq) ^^ T) w = w"
  "a \<noteq> sqdb \<Longrightarrow> hw_write32 (sync_hw sqdb sq cq) a v w = w"
  by (simp_all add: sync_hw_def id_def [symmetric])

lemma sync_rung:
  assumes "sync_state sq0 cq0 cs sq cq w"
    and w'_def: "w' = sq_rung (sync_hw sqdb sq0 cq0) sqdb entry sq w"
    and c_def: "c = sync_answer (unat (sq_len sq)) (unat (cq_len cq)) (length cs)"
  shows "wdev w' = cs @ [entry]" "cq_slot cq (wmem w') (unat (cq_head cq)) = c"
    "odd (ce_status c) = cq_phase cq"
proof -
  have slot: "sq_slot sq0 = sq_slot sq" using assms(1) by (simp add: sync_state_def sq_slot_def fun_eq_iff)
  have s: "sq_inv sq" "unat (sq_tail sq) = length cs mod unat (sq_len sq)" "wdev w = cs"
      "cq_consumed cq (length cs)" "sq_len sq0 = sq_len sq" "cq_len cq0 = cq_len cq"
      "cq_commands cq0 = cq_commands cq"
    using assms(1) by (auto simp: sync_state_def)
  have "length cs mod unat (sq_len sq) < 16384"
    using sq_invD [OF s(1)] s(2) by linarith
  then have "sq_slot sq (sq_stored entry sq (wmem w)) (length cs mod unat (sq_len sq)) = entry"
    using s(2) by (simp add: sq_slot_stored [OF _ s(1)])
  then show "wdev w' = cs @ [entry]"
    unfolding w'_def using s by (simp add: sq_rung_def sync_hw_def Let_def slot)
  have "unat (cq_head cq) = length cs mod unat (cq_len cq)" using s(4) by (simp add: cq_consumed_def)
  then show "cq_slot cq (wmem w') (unat (cq_head cq)) = c"
    unfolding w'_def c_def using s
    by (simp add: sq_rung_def sync_hw_def Let_def cq_slot_def mem_read_write_exact)
  show "odd (ce_status c) = cq_phase cq"
    using s(4) by (simp add: c_def sync_answer_def cq_consumed_def)
qed

lemma sq_after_simps [simp]:
  "sq_len (sq_after entry sq) = sq_len sq" "sq_commands (sq_after entry sq) = sq_commands sq"
  "sq_head (sq_after entry sq) = sq_head sq"
  "sq_tail (sq_after entry sq) = (sq_tail sq + 1) mod sq_len sq"
  by (simp_all add: sq_after_def)

lemma sync_head_less:
  assumes "sq_inv sq"
  shows "ucast (of_nat (Suc k mod unat (sq_len sq)) :: u16) < sq_len sq"
proof -
  have less: "Suc k mod unat (sq_len sq) < unat (sq_len sq)"
    using sq_invD(1) [OF assms] by simp
  then have "Suc k mod unat (sq_len sq) < 2 ^ 16"
    using sq_invD(2) [OF assms] by (simp del: mod_Suc)
  then have "unat (ucast (of_nat (Suc k mod unat (sq_len sq)) :: u16) :: usize) = Suc k mod unat (sq_len sq)"
    by (simp add: unsigned_ucast_eq unat_of_nat take_bit_eq_mod)
  then show ?thesis using less by (simp only: word_less_nat_alt)
qed

lemma sync_hw_serves:
  assumes "sqdb \<noteq> cqdb" and "upd = (\<lambda>c sq. sq) \<or> upd = take_head"
  shows "serves (sync_hw sqdb sq0 cq0) sqdb cqdb upd (sync_state sq0 cq0)"
  unfolding serves_def
proof (intro allI impI)
  fix cs sq cq w entry
  assume I: "sync_state sq0 cq0 cs sq cq w"
  let ?hw = "sync_hw sqdb sq0 cq0"
  let ?c = "sync_answer (unat (sq_len sq)) (unat (cq_len cq)) (length cs)"
  note r = sync_rung(1,2) [OF I refl refl, of sqdb entry] sync_rung(3) [OF I refl refl]
  have s: "sq_inv sq" "unat (sq_tail sq) = length cs mod unat (sq_len sq)" "cq_consumed cq (length cs)"
      "sq_commands sq = sq_commands sq0" "sq_len sq = sq_len sq0" "cq_commands cq = cq_commands cq0"
      "cq_len cq = cq_len cq0"
    using I by (auto simp: sync_state_def)
  have "unat ((sq_tail sq + 1) mod sq_len sq) = Suc (length cs) mod unat (sq_len sq)"
    using s(1,2) by (simp add: unat_ring_succ sq_inv_def mod_Suc_eq)
  moreover have "sq_inv (upd ?c (sq_after entry sq))"
    using assms(2) sq_inv_after [OF s(1), of entry] sync_head_less [OF s(1), of "length cs"]
    by (auto simp: sq_inv_def sync_answer_def)
  ultimately have "sync_state sq0 cq0 (cs @ [entry]) (upd ?c (sq_after entry sq)) (cq_after cq)
      (cq_rung ?hw cqdb cq 0 (sq_rung ?hw sqdb entry sq w))"
    using assms s r(1) cq_consumed_after [OF s(3)] by (auto simp: sync_state_def cq_rung_def)
  moreover have "answered ?hw cq (sq_rung ?hw sqdb entry sq w) ?c 0" using r by (simp add: answered_def)
  moreover have "status_code ?c = 0" by (simp add: status_code_def sync_answer_def drop_bit_Suc)
  moreover have "cq_inv cq" using s(3) by (simp add: cq_consumed_def)
  ultimately show "sq_inv sq \<and> cq_inv cq
      \<and> (\<exists>c T. answered ?hw cq (sq_rung ?hw sqdb entry sq w) c T \<and> status_code c = 0
           \<and> sync_state sq0 cq0 (cs @ [entry]) (upd c (sq_after entry sq)) (cq_after cq)
               (cq_rung ?hw cqdb cq T (sq_rung ?hw sqdb entry sq w)))"
    using s(1) by blast
qed

end
