(* ===== verification/Nvme_Device.thy ===== *)
theory Nvme_Device
  imports Controller
begin

text \<open>
  The device: \<^verbatim>\<open>NvmeDevice\<close> in \<^verbatim>\<open>src/src/nvme.rs\<close> without its data transfers. Registers and
  doorbells, admin commands, initialisation, identification of controller and namespaces, and
  the management of queue pairs. The operations run on a device and the world.

  The allocator of a device is used through the record \<open>mapping_ops\<close>: the operations of trait
  \<^verbatim>\<open>Mapping\<close> (\<^verbatim>\<open>src/src/mapping.rs\<close>) and \<^verbatim>\<open>set_page_size\<close>, on an allocator of type \<open>'m\<close>.
\<close>

unbundle bit_operations_syntax

record ('m, 'd) mapping_ops =
  op_allocate :: "'m \<Rightarrow> usize \<Rightarrow> ('d world, dma) comp"
  op_deallocate :: "'m \<Rightarrow> dma \<Rightarrow> ('d world, unit) comp"
  op_map_resource :: "'m \<Rightarrow> ('d world, usize \<times> usize) comp"
  op_set_page_size :: "pagesize \<Rightarrow> 'm \<Rightarrow> 'm"

subsection \<open>Registers\<close>

datatype nvme_regs32 =
    VS | INTMS | INTMC | CC | CSTS | NSSR | AQA | CMBLOC | CMBSZ | BPINFO | BPRSEL | BPMBL
  | CMBSTS | PMRCAP | PMRCTL | PMRSTS | PMREBS | PMRSWTP

fun reg32 :: "nvme_regs32 \<Rightarrow> u32" where
  "reg32 VS = 0x8" | "reg32 INTMS = 0xC" | "reg32 INTMC = 0x10" | "reg32 CC = 0x14"
| "reg32 CSTS = 0x1C" | "reg32 NSSR = 0x20" | "reg32 AQA = 0x24" | "reg32 CMBLOC = 0x38"
| "reg32 CMBSZ = 0x3C" | "reg32 BPINFO = 0x40" | "reg32 BPRSEL = 0x44" | "reg32 BPMBL = 0x48"
| "reg32 CMBSTS = 0x58" | "reg32 PMRCAP = 0xE00" | "reg32 PMRCTL = 0xE04"
| "reg32 PMRSTS = 0xE08" | "reg32 PMREBS = 0xE0C" | "reg32 PMRSWTP = 0xE10"

datatype nvme_regs64 = CAP | ASQ | ACQ | CMBMSC | PMRMSC

fun reg64 :: "nvme_regs64 \<Rightarrow> u32" where
  "reg64 CAP = 0x0" | "reg64 ASQ = 0x28" | "reg64 ACQ = 0x30" | "reg64 CMBMSC = 0x50"
| "reg64 PMRMSC = 0xE14"

datatype nvme_array_regs = SQyTDBL | CQyHDBL

subsection \<open>State\<close>

record nvme_namespace =
  ns_ident :: u32
  ns_blocks :: u64
  ns_block_size :: u64

record nvme_stats =
  completions :: u64
  submissions :: u64

record 'm nvme_device =
  pci_addr :: string
  dev_addr :: usize
  dev_len :: usize
  dstrd :: u16
  admin_sq :: submission_queue
  admin_cq :: completion_queue
  io_sq :: submission_queue
  io_cq :: completion_queue
  buffer :: dma
  prp_list :: dma
  namespaces :: "u32 \<rightharpoonup> nvme_namespace"
  stats :: nvme_stats
  dev_q_id :: u16
  allocator :: 'm

type_synonym ('m, 'd) dev_state = "'m nvme_device \<times> 'd world"

definition BUFFER_SIZE :: usize where "BUFFER_SIZE = PAGESIZE_4KIB"
definition PRP_LIST_SIZE :: usize where "PRP_LIST_SIZE = PAGESIZE_4KIB"

definition on_admin_sq :: "(submission_queue \<times> 'd world, 'a) comp \<Rightarrow> (('m, 'd) dev_state, 'a) comp" where
  "on_admin_sq = mzoom (\<lambda>(dev, w). (admin_sq dev, w)) (\<lambda>(q, w) (dev, _). (dev\<lparr>admin_sq := q\<rparr>, w))"

definition on_admin_cq :: "(completion_queue \<times> 'd world, 'a) comp \<Rightarrow> (('m, 'd) dev_state, 'a) comp" where
  "on_admin_cq = mzoom (\<lambda>(dev, w). (admin_cq dev, w)) (\<lambda>(q, w) (dev, _). (dev\<lparr>admin_cq := q\<rparr>, w))"

definition on_io_sq :: "(submission_queue \<times> 'd world, 'a) comp \<Rightarrow> (('m, 'd) dev_state, 'a) comp" where
  "on_io_sq = mzoom (\<lambda>(dev, w). (io_sq dev, w)) (\<lambda>(q, w) (dev, _). (dev\<lparr>io_sq := q\<rparr>, w))"

definition on_io_cq :: "(completion_queue \<times> 'd world, 'a) comp \<Rightarrow> (('m, 'd) dev_state, 'a) comp" where
  "on_io_cq = mzoom (\<lambda>(dev, w). (io_cq dev, w)) (\<lambda>(q, w) (dev, _). (dev\<lparr>io_cq := q\<rparr>, w))"

text \<open>A call that changes the world only.\<close>

definition on_world :: "('d world, 'a) comp \<Rightarrow> ('x \<times> 'd world, 'a) comp" where
  "on_world = mzoom snd (\<lambda>w (x, _). (x, w))"

subsection \<open>Register access\<close>

definition write_volatile64 :: "'d hw \<Rightarrow> usize \<Rightarrow> u64 \<Rightarrow> ('x \<times> 'd world, unit) comp" where
  "write_volatile64 hw addr v = mmodify (\<lambda>(x, w). (x, hw_write64 hw addr v w))"

definition read_volatile32 :: "'d hw \<Rightarrow> usize \<Rightarrow> ('x \<times> 'd world, u32) comp" where
  "read_volatile32 hw addr = (\<lambda>(x, w). case hw_read32 hw addr w of (v, w') \<Rightarrow> Some (Ret v, (x, w')))"

definition read_volatile64 :: "'d hw \<Rightarrow> usize \<Rightarrow> ('x \<times> 'd world, u64) comp" where
  "read_volatile64 hw addr = (\<lambda>(x, w). case hw_read64 hw addr w of (v, w') \<Rightarrow> Some (Ret v, (x, w')))"

text \<open>\<open>shl16\<close> and \<open>shl64\<close>: \<^verbatim>\<open><<\<close> on 16 and 64 bits, whose amount is taken modulo the width.\<close>

definition shl16 :: "u16 \<Rightarrow> u16 \<Rightarrow> u16" where
  "shl16 x k = push_bit (unat k mod 16) x"

definition shl64 :: "usize \<Rightarrow> u16 \<Rightarrow> usize" where
  "shl64 x k = push_bit (unat k mod 64) x"

definition write_reg_idx ::
    "'d hw \<Rightarrow> nvme_array_regs \<Rightarrow> u16 \<Rightarrow> u32 \<Rightarrow> (('m, 'd) dev_state, unit) comp" where
  "write_reg_idx hw reg qid val =
     mbind (mget fst) (\<lambda>dev. case reg of
        SQyTDBL \<Rightarrow>
          write_volatile32 hw (dev_addr dev + 0x1000 + ucast (shl16 4 (dstrd dev) * (2 * qid))) val
      | CQyHDBL \<Rightarrow>
          write_volatile32 hw (dev_addr dev + 0x1000 + ucast (shl16 4 (dstrd dev) * (2 * qid + 1))) val)"

definition set_reg32 :: "'d hw \<Rightarrow> u32 \<Rightarrow> u32 \<Rightarrow> (('m, 'd) dev_state, unit) comp" where
  "set_reg32 hw reg value =
     mbind (mget fst) (\<lambda>dev.
     mbind (massert (ucast reg \<le> dev_len dev - 4)) (\<lambda>_.
     write_volatile32 hw (dev_addr dev + ucast reg) value))"

definition get_reg32 :: "'d hw \<Rightarrow> u32 \<Rightarrow> (('m, 'd) dev_state, u32) comp" where
  "get_reg32 hw reg =
     mbind (mget fst) (\<lambda>dev.
     mbind (massert (ucast reg \<le> dev_len dev - 4)) (\<lambda>_.
     read_volatile32 hw (dev_addr dev + ucast reg)))"

definition set_reg64 :: "'d hw \<Rightarrow> u32 \<Rightarrow> u64 \<Rightarrow> (('m, 'd) dev_state, unit) comp" where
  "set_reg64 hw reg value =
     mbind (mget fst) (\<lambda>dev.
     mbind (massert (ucast reg \<le> dev_len dev - 8)) (\<lambda>_.
     write_volatile64 hw (dev_addr dev + ucast reg) value))"

definition get_reg64 :: "'d hw \<Rightarrow> u64 \<Rightarrow> (('m, 'd) dev_state, u64) comp" where
  "get_reg64 hw reg =
     mbind (mget fst) (\<lambda>dev.
     mbind (massert (reg \<le> dev_len dev - 8)) (\<lambda>_.
     read_volatile64 hw (dev_addr dev + reg)))"

subsection \<open>Admin commands\<close>

definition submit_and_complete_admin ::
    "'d hw \<Rightarrow> (u16 \<Rightarrow> usize \<Rightarrow> nvme_command) \<Rightarrow> (('m, 'd) dev_state, nvme_completion) comp" where
  "submit_and_complete_admin hw cmd_init =
     mbind (mget fst) (\<lambda>dev.
     mbind (on_admin_sq (sq_submit (cmd_init (ucast (sq_tail (admin_sq dev))) (phys (buffer dev))))) (\<lambda>tail.
     mbind (write_reg_idx hw SQyTDBL 0 (ucast tail)) (\<lambda>_.
     mbind (on_admin_cq (cq_complete_spin hw)) (\<lambda>(head, entry, _).
     mbind (write_reg_idx hw CQyHDBL 0 (ucast head)) (\<lambda>_.
     if status_code entry \<noteq> 0
     then merr (error_from_string ''Requesting i/o completion queue failed'')
     else mret entry)))))"

definition format_namespace :: "'d hw \<Rightarrow> u32 option \<Rightarrow> (('m, 'd) dev_state, unit) comp" where
  "format_namespace hw nsid =
     mbind (mget fst) (\<lambda>dev.
     mbind (case nsid of
              Some i \<Rightarrow> mbind (massert (namespaces dev i \<noteq> None)) (\<lambda>_. mret i)
            | None \<Rightarrow> mret 0xFFFFFFFF) (\<lambda>i.
     mignore (submit_and_complete_admin hw (\<lambda>cid _. cmd_format_nvm cid i))))"

subsection \<open>Identification\<close>

definition byte_char :: "u8 \<Rightarrow> char" where
  "byte_char b = char_of (unat b)"

text \<open>The bytes of a slice up to the first zero, as a string.\<close>

definition c_string :: "u8 list \<Rightarrow> string" where
  "c_string bs = map byte_char (takeWhile (\<lambda>b. b \<noteq> 0) bs)"

definition read_slice :: "slice \<Rightarrow> 'd world \<Rightarrow> u8 list" where
  "read_slice s w = mem_read (wmem w) (fst s) (unat (snd s))"

definition buffer_string :: "usize \<Rightarrow> usize \<Rightarrow> (('m, 'd) dev_state, string) comp" where
  "buffer_string start stop =
     mbind (mget fst) (\<lambda>dev.
     mbind (mlift (dma_index_range (buffer dev) start stop)) (\<lambda>sl.
     mget (\<lambda>(_, w). c_string (read_slice sl w))))"

definition identify_controller ::
    "'d hw \<Rightarrow> (('m, 'd) dev_state, string \<times> string \<times> string) comp" where
  "identify_controller hw =
     mbind (submit_and_complete_admin hw cmd_identify_controller) (\<lambda>_.
     mbind (buffer_string 4 24) (\<lambda>serial.
     mbind (buffer_string 24 64) (\<lambda>model.
     mbind (buffer_string 64 72) (\<lambda>firmware.
     mret (trim model, trim serial, trim firmware)))))"

definition identify_controller_print :: "'d hw \<Rightarrow> (('m, 'd) dev_state, unit) comp" where
  "identify_controller_print hw =
     mbind (identify_controller hw) (\<lambda>(model, serial, firmware). mret ())"

text \<open>Word \<open>i\<close> of an array of 32-bit words.\<close>

definition read_u32 :: "memory \<Rightarrow> u64 \<Rightarrow> nat \<Rightarrow> u32" where
  "read_u32 m base i = le_word (mem_read m (cell base 4 i) 4)"

definition identify_namespace_list :: "'d hw \<Rightarrow> u32 \<Rightarrow> (('m, 'd) dev_state, u32 list) comp" where
  "identify_namespace_list hw base =
     mbind (mignore (submit_and_complete_admin hw (\<lambda>cid addr. cmd_identify_namespace_list cid addr base))) (\<lambda>_.
     mget (\<lambda>(dev, w).
       takeWhile (\<lambda>i. i \<noteq> 0) (map (read_u32 (wmem w) (virt (buffer dev))) [0..<1024])))"

subsection \<open>Namespaces\<close>

text \<open>\<^verbatim>\<open>IdentifyNamespaceData\<close>, a packed structure of 4096 bytes, and its layout.\<close>

record identify_namespace_data =
  ind_nsze :: u64
  ind_ncap :: u64
  ind_nuse :: u64
  ind_nsfeat :: u8
  ind_nlbaf :: u8
  ind_flbas :: u8
  ind_mc :: u8
  ind_dpc :: u8
  ind_dps :: u8
  ind_nmic :: u8
  ind_rescap :: u8
  ind_fpi :: u8
  ind_dlfeat :: u8
  ind_nawun :: u16
  ind_nawupf :: u16
  ind_nacwu :: u16
  ind_nabsn :: u16
  ind_nabo :: u16
  ind_nabspf :: u16
  ind_noiob :: u16
  ind_nvmcap :: "128 word"
  ind_npwg :: u16
  ind_npwa :: u16
  ind_npdg :: u16
  ind_npda :: u16
  ind_nows :: u16
  ind_rsvd1 :: "u8 list"
  ind_anagrpid :: u32
  ind_rsvd2 :: "u8 list"
  ind_nsattr :: u8
  ind_nvmsetid :: u16
  ind_endgid :: u16
  ind_nguid :: "u8 list"
  ind_eui64 :: u64
  ind_lba_format_support :: "u32 list"
  ind_rsvd3 :: "u8 list"
  ind_vendor_specific :: "u8 list"

definition decode_identify :: "u8 list \<Rightarrow> identify_namespace_data" where
  "decode_identify bs =
    \<lparr>ind_nsze = bytes_field bs 0 8, ind_ncap = bytes_field bs 8 8,
     ind_nuse = bytes_field bs 16 8, ind_nsfeat = bytes_field bs 24 1,
     ind_nlbaf = bytes_field bs 25 1, ind_flbas = bytes_field bs 26 1,
     ind_mc = bytes_field bs 27 1, ind_dpc = bytes_field bs 28 1,
     ind_dps = bytes_field bs 29 1, ind_nmic = bytes_field bs 30 1,
     ind_rescap = bytes_field bs 31 1, ind_fpi = bytes_field bs 32 1,
     ind_dlfeat = bytes_field bs 33 1, ind_nawun = bytes_field bs 34 2,
     ind_nawupf = bytes_field bs 36 2, ind_nacwu = bytes_field bs 38 2,
     ind_nabsn = bytes_field bs 40 2, ind_nabo = bytes_field bs 42 2,
     ind_nabspf = bytes_field bs 44 2, ind_noiob = bytes_field bs 46 2,
     ind_nvmcap = bytes_field bs 48 16, ind_npwg = bytes_field bs 64 2,
     ind_npwa = bytes_field bs 66 2, ind_npdg = bytes_field bs 68 2,
     ind_npda = bytes_field bs 70 2, ind_nows = bytes_field bs 72 2,
     ind_rsvd1 = take 18 (drop 74 bs), ind_anagrpid = bytes_field bs 92 4,
     ind_rsvd2 = take 3 (drop 96 bs), ind_nsattr = bytes_field bs 99 1,
     ind_nvmsetid = bytes_field bs 100 2, ind_endgid = bytes_field bs 102 2,
     ind_nguid = take 16 (drop 104 bs), ind_eui64 = bytes_field bs 120 8,
     ind_lba_format_support = map (\<lambda>i. bytes_field bs (128 + 4 * i) 4) [0..<16],
     ind_rsvd3 = take 192 (drop 192 bs), ind_vendor_specific = take 3712 (drop 384 bs)\<rparr>"

definition block_size_of :: "identify_namespace_data \<Rightarrow> u64" where
  "block_size_of d =
     (let flba_idx = unat (ind_flbas d AND 0xF);
          flba_data = drop_bit 16 (ind_lba_format_support d ! flba_idx) AND 0xFF
      in if 9 \<le> flba_data \<and> flba_data < 32 then push_bit (unat flba_data) 1 else 0)"

definition identify_namespace :: "'d hw \<Rightarrow> u32 \<Rightarrow> (('m, 'd) dev_state, nvme_namespace) comp" where
  "identify_namespace hw i =
     mbind (mignore (submit_and_complete_admin hw (\<lambda>cid addr. cmd_identify_namespace cid addr i))) (\<lambda>_.
     mbind (mget (\<lambda>(dev, w). decode_identify (mem_read (wmem w) (virt (buffer dev)) 4096))) (\<lambda>d.
     let namespace = \<lparr>ns_ident = i, ns_blocks = ind_ncap d, ns_block_size = block_size_of d\<rparr>
     in mbind (mmodify (\<lambda>(dev, w). (dev\<lparr>namespaces := (namespaces dev)(i \<mapsto> namespace)\<rparr>, w))) (\<lambda>_.
        mret namespace)))"

subsection \<open>Queue pairs\<close>

definition create_io_queue_pair ::
    "'d hw \<Rightarrow> ('m, 'd) mapping_ops \<Rightarrow> usize \<Rightarrow> (('m, 'd) dev_state, nvme_queue_pair) comp" where
  "create_io_queue_pair hw ops len =
     mbind (mget fst) (\<lambda>dev.
     let qid = dev_q_id dev;
         offset = 0x1000 + shl64 4 (dstrd dev) * ucast (2 * qid + 1)
     in
     mbind (massert (offset \<le> dev_len dev - 4)) (\<lambda>_.
     mbind (on_world (cq_new (op_allocate ops (allocator dev)) len (dev_addr dev + offset))) (\<lambda>cq.
     mbind (submit_and_complete_admin hw (\<lambda>cid _.
              cmd_create_io_completion_queue cid qid (cq_get_addr cq) (ucast (len - 1)))) (\<lambda>_.
     mbind (on_world (sq_new (op_allocate ops (allocator dev)) len
              (dev_addr dev + 0x1000 + shl64 4 (dstrd dev) * ucast (2 * qid)))) (\<lambda>sq.
     mbind (submit_and_complete_admin hw (\<lambda>cid _.
              cmd_create_io_submission_queue cid qid (sq_get_addr sq) (ucast (len - 1)) qid)) (\<lambda>_.
     mbind (mmodify (\<lambda>(dev, w). (dev\<lparr>dev_q_id := dev_q_id dev + 1\<rparr>, w))) (\<lambda>_.
     mret \<lparr>qp_id = qid, sub_queue = sq, comp_queue = cq\<rparr>)))))))"

definition dev_deallocate :: "('m, 'd) mapping_ops \<Rightarrow> dma \<Rightarrow> (('m, 'd) dev_state, unit) comp" where
  "dev_deallocate ops d = mbind (mget fst) (\<lambda>dev. on_world (op_deallocate ops (allocator dev) d))"

definition dev_allocate :: "('m, 'd) mapping_ops \<Rightarrow> usize \<Rightarrow> (('m, 'd) dev_state, dma) comp" where
  "dev_allocate ops n = mbind (mget fst) (\<lambda>dev. on_world (op_allocate ops (allocator dev) n))"

definition dev_map_resource :: "('m, 'd) mapping_ops \<Rightarrow> (('m, 'd) dev_state, usize \<times> usize) comp" where
  "dev_map_resource ops = mbind (mget fst) (\<lambda>dev. on_world (op_map_resource ops (allocator dev)))"

definition set_page_size :: "('m, 'd) mapping_ops \<Rightarrow> pagesize \<Rightarrow> (('m, 'd) dev_state, unit) comp" where
  "set_page_size ops p =
     mmodify (\<lambda>(dev, w). (dev\<lparr>allocator := op_set_page_size ops p (allocator dev)\<rparr>, w))"

definition delete_io_queue_pair ::
    "'d hw \<Rightarrow> ('m, 'd) mapping_ops \<Rightarrow> nvme_queue_pair \<Rightarrow> (('m, 'd) dev_state, unit) comp" where
  "delete_io_queue_pair hw ops qpair =
     mbind (submit_and_complete_admin hw (\<lambda>cid _. cmd_delete_io_submission_queue cid (qp_id qpair))) (\<lambda>_.
     mbind (submit_and_complete_admin hw (\<lambda>cid _. cmd_delete_io_completion_queue cid (qp_id qpair))) (\<lambda>_.
     mbind (dev_deallocate ops (sq_commands (sub_queue qpair))) (\<lambda>_.
     dev_deallocate ops (cq_commands (comp_queue qpair)))))"

subsection \<open>Initialisation\<close>

text \<open>\<open>store_prp i v\<close>: the assignment \<^verbatim>\<open>self.prp_list[i] = v\<close> to an array of 512 words.\<close>

definition store_prp :: "nat \<Rightarrow> u64 \<Rightarrow> (('m, 'd) dev_state, unit) comp" where
  "store_prp i v = (\<lambda>(dev, w).
     if i < 512
     then Some (Ret (), (dev, w\<lparr>wmem := mem_write (wmem w) (cell (virt (prp_list dev)) 8 i) (le_bytes 8 v)\<rparr>))
     else Some (Panic Index_out_of_bounds, (dev, w)))"

definition init_prp_list :: "(('m, 'd) dev_state, unit) comp" where
  "init_prp_list =
     mfold (\<lambda>i _. mbind (mget (phys \<circ> buffer \<circ> fst)) (\<lambda>a. store_prp (i - 1) (a + of_nat i * 4096)))
       [1..<512] ()"

text \<open>The two waiting loops: poll the controller status until its ready bit is \<open>ready\<close>.\<close>

partial_function (option) wait_csts ::
    "'d hw \<Rightarrow> bool \<Rightarrow> ('m, 'd) dev_state \<Rightarrow> (unit outcome \<times> ('m, 'd) dev_state) option" where
  "wait_csts hw ready s =
     (case get_reg32 hw (reg32 CSTS) s of
        None \<Rightarrow> None
      | Some (r, t) \<Rightarrow>
          (case r of
             Ret csts \<Rightarrow>
               (if (csts AND 1 = 1) = ready then Some (Ret (), t)
                else wait_csts hw ready (fst t, hw_tick hw (snd t)))
           | Err e \<Rightarrow> Some (Err e, t)
           | Panic p \<Rightarrow> Some (Panic p, t)))"

definition init_controller :: "'d hw \<Rightarrow> (('m, 'd) dev_state, unit) comp" where
  "init_controller hw =
     mbind init_prp_list (\<lambda>_.
     mbind (get_reg64 hw (ucast (reg64 CAP))) (\<lambda>_.
     mbind (get_reg64 hw (ucast (reg64 CAP))) (\<lambda>_.
     mbind (get_reg32 hw (reg32 VS)) (\<lambda>_.
     mbind (get_reg32 hw (reg32 CC)) (\<lambda>_.
     mbind (get_reg32 hw (reg32 CC)) (\<lambda>cc0.
     mbind (set_reg32 hw (reg32 CC) (cc0 AND 0xFFFFFFFE)) (\<lambda>_.
     mbind (wait_csts hw False) (\<lambda>_.
     mbind (mget fst) (\<lambda>dev.
     mbind (set_reg64 hw (reg64 ASQ) (sq_get_addr (admin_sq dev))) (\<lambda>_.
     mbind (set_reg64 hw (reg64 ACQ) (cq_get_addr (admin_cq dev))) (\<lambda>_.
     mbind (set_reg32 hw (reg32 AQA)
              (push_bit 16 (ucast QUEUE_LENGTH - 1) OR (ucast QUEUE_LENGTH - 1))) (\<lambda>_.
     mbind (get_reg32 hw (reg32 CC)) (\<lambda>cc1.
     mbind (set_reg32 hw (reg32 CC)
              ((cc1 AND 0xFF00000F) OR (push_bit 20 4 OR push_bit 16 6))) (\<lambda>_.
     mbind (get_reg32 hw (reg32 CC)) (\<lambda>cc2.
     mbind (set_reg32 hw (reg32 CC) (cc2 OR 1)) (\<lambda>_.
     mbind (wait_csts hw True) (\<lambda>_.
     mbind (submit_and_complete_admin hw (\<lambda>cid _.
              cmd_create_io_completion_queue cid (dev_q_id dev) (cq_get_addr (io_cq dev))
                (ucast (QUEUE_LENGTH - 1)))) (\<lambda>_.
     mbind (submit_and_complete_admin hw (\<lambda>cid _.
              cmd_create_io_submission_queue cid (dev_q_id dev) (sq_get_addr (io_sq dev))
                (ucast (QUEUE_LENGTH - 1)) (dev_q_id dev))) (\<lambda>_.
     mmodify (\<lambda>(dev, w). (dev\<lparr>dev_q_id := dev_q_id dev + 1\<rparr>, w)))))))))))))))))))))"

text \<open>The device that \<^verbatim>\<open>init\<close> builds before it talks to the controller.\<close>

definition build_device ::
    "'d hw \<Rightarrow> ('m, 'd) mapping_ops \<Rightarrow> string \<Rightarrow> 'm \<Rightarrow> ('d world, 'm nvme_device) comp" where
  "build_device hw ops addr_str mem =
     mbind (op_map_resource ops mem) (\<lambda>(addr, len).
     mbind (op_allocate ops mem BUFFER_SIZE) (\<lambda>buf.
     mbind (op_allocate ops mem PRP_LIST_SIZE) (\<lambda>prps.
     mbind (\<lambda>w. case hw_read64 hw (addr + ucast (reg64 CAP)) w of (cap, w') \<Rightarrow> Some (Ret cap, w')) (\<lambda>cap.
     mbind (sq_new (op_allocate ops mem) QUEUE_LENGTH 0) (\<lambda>asq.
     mbind (cq_new (op_allocate ops mem) QUEUE_LENGTH 0) (\<lambda>acq.
     mbind (sq_new (op_allocate ops mem) QUEUE_LENGTH 0) (\<lambda>isq.
     mbind (cq_new (op_allocate ops mem) QUEUE_LENGTH 0) (\<lambda>icq.
     mret \<lparr>pci_addr = addr_str, dev_addr = addr, dev_len = len,
           dstrd = ucast (drop_bit 32 cap AND 15),
           admin_sq = asq, admin_cq = acq, io_sq = isq, io_cq = icq,
           buffer = buf, prp_list = prps, namespaces = Map.empty,
           stats = \<lparr>completions = 0, submissions = 0\<rparr>, dev_q_id = 1, allocator = mem\<rparr>))))))))"

definition nvme_init ::
    "'d hw \<Rightarrow> ('m, 'd) mapping_ops \<Rightarrow> string \<Rightarrow> 'm \<Rightarrow> ('d world, 'm nvme_device) comp" where
  "nvme_init hw ops addr_str mem =
     mbind (build_device hw ops addr_str mem) (\<lambda>dev w.
       case init_controller hw (dev, w) of
         None \<Rightarrow> None
       | Some (Ret (), (dev', w')) \<Rightarrow> Some (Ret dev', w')
       | Some (Err e, (dev', w')) \<Rightarrow> Some (Err e, w')
       | Some (Panic p, (dev', w')) \<Rightarrow> Some (Panic p, w'))"

subsection \<open>Running device operations\<close>

lemma on_admin_sq_run [run_simps]:
  "on_admin_sq m (dev, w) = (case m (admin_sq dev, w) of None \<Rightarrow> None
     | Some (r, (q, w')) \<Rightarrow> Some (r, (dev\<lparr>admin_sq := q\<rparr>, w')))"
  by (simp add: on_admin_sq_def mzoom_run split: option.split prod.split)

lemma on_admin_cq_run [run_simps]:
  "on_admin_cq m (dev, w) = (case m (admin_cq dev, w) of None \<Rightarrow> None
     | Some (r, (q, w')) \<Rightarrow> Some (r, (dev\<lparr>admin_cq := q\<rparr>, w')))"
  by (simp add: on_admin_cq_def mzoom_run split: option.split prod.split)

lemma on_io_sq_run [run_simps]:
  "on_io_sq m (dev, w) = (case m (io_sq dev, w) of None \<Rightarrow> None
     | Some (r, (q, w')) \<Rightarrow> Some (r, (dev\<lparr>io_sq := q\<rparr>, w')))"
  by (simp add: on_io_sq_def mzoom_run split: option.split prod.split)

lemma on_io_cq_run [run_simps]:
  "on_io_cq m (dev, w) = (case m (io_cq dev, w) of None \<Rightarrow> None
     | Some (r, (q, w')) \<Rightarrow> Some (r, (dev\<lparr>io_cq := q\<rparr>, w')))"
  by (simp add: on_io_cq_def mzoom_run split: option.split prod.split)

lemma on_world_run [run_simps]:
  "on_world m (dev, w) = (case m w of None \<Rightarrow> None | Some (r, w') \<Rightarrow> Some (r, (dev, w')))"
  by (simp add: on_world_def mzoom_run split: option.split prod.split)

text \<open>Where \<^verbatim>\<open>write_reg_idx\<close> writes, and where the doorbells of queue \<open>y\<close> are: the specification
  puts them \<open>2 y\<close> and \<open>2 y + 1\<close> strides behind offset \<open>0x1000\<close>.\<close>

definition doorbell :: "'m nvme_device \<Rightarrow> nvme_array_regs \<Rightarrow> u16 \<Rightarrow> usize" where
  "doorbell dev reg qid =
     dev_addr dev + 0x1000 + ucast (shl16 4 (dstrd dev) * (2 * qid + (if reg = CQyHDBL then 1 else 0)))"

definition spec_doorbell :: "'m nvme_device \<Rightarrow> nvme_array_regs \<Rightarrow> nat \<Rightarrow> usize" where
  "spec_doorbell dev reg y =
     dev_addr dev + of_nat (0x1000 + (2 * y + (if reg = CQyHDBL then 1 else 0)) * 2 ^ (2 + unat (dstrd dev)))"

lemma write_reg_idx_run [run_simps]:
  "write_reg_idx hw reg qid v (dev, w) = Some (Ret (), (dev, hw_write32 hw (doorbell dev reg qid) v w))"
  by (simp add: write_reg_idx_def doorbell_def write_volatile32_def run_simps split: nvme_array_regs.split)

lemma doorbell_update [simp]:
  "doorbell (dev\<lparr>admin_sq := q\<rparr>) = doorbell dev" "doorbell (dev\<lparr>admin_cq := c\<rparr>) = doorbell dev"
  "doorbell (dev\<lparr>io_sq := q\<rparr>) = doorbell dev" "doorbell (dev\<lparr>io_cq := c\<rparr>) = doorbell dev"
  "doorbell (dev\<lparr>stats := s\<rparr>) = doorbell dev" "doorbell (dev\<lparr>namespaces := n\<rparr>) = doorbell dev"
  "doorbell (dev\<lparr>dev_q_id := i\<rparr>) = doorbell dev"
  by (simp_all add: doorbell_def fun_eq_iff)

text \<open>The device after an admin command has been answered.\<close>

definition dev_admin :: "nvme_command \<Rightarrow> 'm nvme_device \<Rightarrow> 'm nvme_device" where
  "dev_admin entry dev =
     dev\<lparr>admin_sq := sq_after entry (admin_sq dev), admin_cq := cq_after (admin_cq dev)\<rparr>"

lemma admin_run:
  assumes "sq_inv (admin_sq dev)" and "cq_inv (admin_cq dev)"
    and entry: "entry = cmd (ucast (sq_tail (admin_sq dev))) (phys (buffer dev))"
    and w1: "w1 = sq_rung hw (doorbell dev SQyTDBL 0) entry (admin_sq dev) w"
    and ans: "answered hw (admin_cq dev) w1 c T"
  shows "submit_and_complete_admin hw cmd (dev, w) =
    Some (if status_code c = 0 then Ret c
          else Err (Vroom ''Requesting i/o completion queue failed''),
      (dev_admin entry dev, cq_rung hw (doorbell dev CQyHDBL 0) (admin_cq dev) T w1))"
  using answered_spin [OF assms(2) ans]
  by (simp add: submit_and_complete_admin_def run_simps sq_submit_run [OF assms(1)] entry [symmetric]
      sq_rung_def w1 dev_admin_def cq_rung_def error_from_string_def)

subsection \<open>Registers and doorbells\<close>

lemma unat_shl16_4:
  assumes "k \<le> 12"
  shows "unat (shl16 4 k) = 2 ^ (2 + unat k)"
proof -
  have k: "unat k \<le> 12" using assms by (simp add: word_le_nat_alt)
  have "(2 :: nat) ^ (2 + unat k) \<le> 2 ^ 14" using k by (intro power_increasing) simp_all
  then have "unat (push_bit (unat k) (4 :: u16)) = 2 ^ (2 + unat k)"
    by (simp only: unsigned_push_bit_eq) (simp add: push_bit_eq_mult take_bit_eq_mod power_add mult.commute)
  then show ?thesis using k by (simp add: shl16_def)
qed

lemma doorbell_eq_spec:
  assumes "dstrd dev \<le> 12" and "qid \<le> 1"
  shows "doorbell dev reg qid = spec_doorbell dev reg (unat qid)"
proof -
  let ?b = "if reg = CQyHDBL then 1 else 0" and ?s = "2 ^ (2 + unat (dstrd dev)) :: nat"
  have q: "unat qid \<le> 1" using assms(2) by (simp add: word_le_nat_alt)
  have "unat (dstrd dev) \<le> 12" using assms(1) by (simp add: word_le_nat_alt)
  then have s: "?s \<le> 2 ^ 14" by (intro power_increasing) simp_all
  have i: "unat (2 * qid + ?b) = 2 * unat qid + ?b"
    using q by (subst unat_add_no_wrap; subst unat_mult_no_wrap) (auto split: if_splits)
  have le: "?s * (2 * unat qid + ?b) \<le> 2 ^ 14 * 3" using s q by (intro mult_le_mono) auto
  have "unat (shl16 4 (dstrd dev) * (2 * qid + ?b)) = ?s * (2 * unat qid + ?b)"
    using le by (subst unat_mult_no_wrap) (simp_all only: i unat_shl16_4 [OF assms(1)], simp_all)
  then have "(ucast (shl16 4 (dstrd dev) * (2 * qid + ?b)) :: usize) = of_nat (?s * (2 * unat qid + ?b))"
    by (intro word_of_unat) (simp add: unat_ucast_up)
  then show ?thesis unfolding doorbell_def spec_doorbell_def by (simp add: mult.commute)
qed

text \<open>
  C17. Doorbells. For doorbell strides of up to \<open>4 << 12\<close> bytes the driver writes the tail and head
  doorbells of the admin queue and of its own I/O queue where the NVMe specification puts them.
\<close>

theorem doorbells_match_specification:
  assumes "dstrd dev \<le> 12" and "qid \<le> 1"
  shows "write_reg_idx hw reg qid v (dev, w)
    = Some (Ret (), (dev, hw_write32 hw (spec_doorbell dev reg (unat qid)) v w))"
  using doorbell_eq_spec [OF assms] by (simp add: write_reg_idx_run)

text \<open>A device for concrete runs: both queue pairs have four slots and lie in separate memory.\<close>

definition demo_ring :: "usize \<Rightarrow> submission_queue" where
  "demo_ring a = \<lparr>sq_commands = \<lparr>virt = a, phys = a, dsize = 2097152\<rparr>, sq_head = 0, sq_tail = 0,
     sq_len = 4, sq_doorbell = 0\<rparr>"

definition demo_cring :: "usize \<Rightarrow> completion_queue" where
  "demo_cring a = \<lparr>cq_commands = \<lparr>virt = a, phys = a, dsize = 2097152\<rparr>, cq_head = 0, cq_phase = True,
     cq_len = 4, cq_doorbell = 0\<rparr>"

definition demo_dev :: "unit nvme_device" where
  "demo_dev = \<lparr>pci_addr = ''0000:00:04.0'', dev_addr = 0x10000, dev_len = 0x4000, dstrd = 0,
     admin_sq = demo_ring 0x400000, admin_cq = demo_cring 0x600000,
     io_sq = demo_ring 0x800000, io_cq = demo_cring 0xA00000,
     buffer = \<lparr>virt = 0xC00000, phys = 0xC00000, dsize = 2097152\<rparr>,
     prp_list = \<lparr>virt = 0xE00000, phys = 0xE00000, dsize = 2097152\<rparr>,
     namespaces = Map.empty, stats = \<lparr>completions = 0, submissions = 0\<rparr>, dev_q_id = 2,
     allocator = ()\<rparr>"

theorem doorbells_match_specification_witness:
  "write_reg_idx log_hw CQyHDBL 1 7 (demo_dev\<lparr>dstrd := 2\<rparr>, blank_world [])
    = Some (Ret (), (demo_dev\<lparr>dstrd := 2\<rparr>, blank_world [(0x11030, 7)]))"
  using doorbells_match_specification [of "demo_dev\<lparr>dstrd := 2\<rparr>" 1 log_hw CQyHDBL 7 "blank_world []"]
  by (simp add: spec_doorbell_def demo_dev_def log_hw_def blank_world_def)

text \<open>
  With the largest doorbell stride the specification allows, the offset is computed in 16 bits
  and wraps: the head doorbell of queue 1 is written at the address of the admin queue's tail
  doorbell, while the queue pairs the driver creates compute the same offset in 64 bits.
\<close>

lemma doorbell_stride_overflow:
  "write_reg_idx hw CQyHDBL 1 v (dev\<lparr>dstrd := 15\<rparr>, w)
     = Some (Ret (), (dev\<lparr>dstrd := 15\<rparr>, hw_write32 hw (dev_addr dev + 0x1000) v w))
   \<and> spec_doorbell (dev\<lparr>dstrd := 15\<rparr>) CQyHDBL 1 = dev_addr dev + (0x1000 + 3 * 0x20000)
   \<and> spec_doorbell (dev\<lparr>dstrd := 15\<rparr>) SQyTDBL 0 = dev_addr dev + 0x1000"
  by (simp add: run_simps doorbell_def shl16_def spec_doorbell_def push_bit_eq_mult)

lemma reg_in_bounds:
  assumes "k \<le> dev_len dev"
  shows "r \<le> dev_len dev - k \<longleftrightarrow> unat r + unat k \<le> unat (dev_len dev)"
  using assms by (auto simp: word_le_nat_alt unat_diff_word)

text \<open>
  C19. Register accesses stay inside the mapped region of the device: for a region of at least 8
  bytes each of the four accessors touches the register if its last byte lies inside the region,
  and panics before it touches anything otherwise.
\<close>

theorem register_access_bounds:
  assumes "8 \<le> dev_len dev"
  shows "get_reg32 hw r (dev, w)
      = (if unat r + 4 \<le> unat (dev_len dev)
         then (case hw_read32 hw (dev_addr dev + ucast r) w of (v, w') \<Rightarrow> Some (Ret v, (dev, w')))
         else Some (Panic Assertion_failed, (dev, w)))
    \<and> set_reg32 hw r x (dev, w)
      = (if unat r + 4 \<le> unat (dev_len dev)
         then Some (Ret (), (dev, hw_write32 hw (dev_addr dev + ucast r) x w))
         else Some (Panic Assertion_failed, (dev, w)))
    \<and> get_reg64 hw q (dev, w)
      = (if unat q + 8 \<le> unat (dev_len dev)
         then (case hw_read64 hw (dev_addr dev + q) w of (v, w') \<Rightarrow> Some (Ret v, (dev, w')))
         else Some (Panic Assertion_failed, (dev, w)))
    \<and> set_reg64 hw r y (dev, w)
      = (if unat r + 8 \<le> unat (dev_len dev)
         then Some (Ret (), (dev, hw_write64 hw (dev_addr dev + ucast r) y w))
         else Some (Panic Assertion_failed, (dev, w)))"
proof -
  have "4 \<le> dev_len dev" using assms by (rule order_trans [rotated]) simp
  note b = reg_in_bounds [OF this] reg_in_bounds [OF assms]
  have u: "unat (ucast r :: usize) = unat r" by (rule unat_ucast_up) simp
  show ?thesis
    by (simp add: get_reg32_def set_reg32_def get_reg64_def set_reg64_def run_simps b u
        read_volatile32_def read_volatile64_def write_volatile32_def write_volatile64_def)
qed

theorem register_access_bounds_witness:
  "set_reg32 log_hw 0x14 1 (demo_dev, blank_world []) = Some (Ret (), (demo_dev, blank_world [(0x10014, 1)]))
   \<and> set_reg32 log_hw 0x3FFD 1 (demo_dev, blank_world []) = Some (Panic Assertion_failed, (demo_dev, blank_world []))"
proof -
  have "8 \<le> dev_len demo_dev" by (simp add: demo_dev_def)
  note b = register_access_bounds [OF this, of log_hw _ "blank_world []"]
  from b [of "0x14" 1] b [of "0x3FFD" 1] show ?thesis
    by (simp add: demo_dev_def log_hw_def blank_world_def)
qed

subsection \<open>Waiting for the controller\<close>

text \<open>The world after \<open>t\<close> unsuccessful polls of the register at \<open>a\<close>, and what a poll then sees.\<close>

definition poll_world :: "'d hw \<Rightarrow> usize \<Rightarrow> nat \<Rightarrow> 'd world \<Rightarrow> 'd world" where
  "poll_world hw a t w = ((\<lambda>w. hw_tick hw (snd (hw_read32 hw a w))) ^^ t) w"

definition csts_ready :: "'d hw \<Rightarrow> 'm nvme_device \<Rightarrow> 'd world \<Rightarrow> bool" where
  "csts_ready hw dev w \<longleftrightarrow> fst (hw_read32 hw (dev_addr dev + 0x1C) w) AND 1 = 1"

lemma poll_world_Suc: "poll_world hw a (Suc t) w = poll_world hw a t (hw_tick hw (snd (hw_read32 hw a w)))"
  by (simp add: poll_world_def funpow_Suc_right del: funpow.simps)

lemma get_csts:
  assumes "0x20 \<le> dev_len dev"
  shows "get_reg32 hw 0x1C (dev, w)
    = (case hw_read32 hw (dev_addr dev + 0x1C) w of (v, w') \<Rightarrow> Some (Ret v, (dev, w')))"
proof -
  have "0x1C \<le> dev_len dev - 4"
  proof -
    have "4 \<le> dev_len dev" using assms by (rule order_trans [rotated]) simp
    then show ?thesis using assms by (subst reg_in_bounds) (simp_all add: word_le_nat_alt)
  qed
  then show ?thesis by (simp add: get_reg32_def run_simps read_volatile32_def)
qed

lemma wait_csts_step:
  assumes "0x20 \<le> dev_len dev"
  shows "wait_csts hw ready (dev, w) =
    (if csts_ready hw dev w = ready then Some (Ret (), (dev, snd (hw_read32 hw (dev_addr dev + 0x1C) w)))
     else wait_csts hw ready (dev, hw_tick hw (snd (hw_read32 hw (dev_addr dev + 0x1C) w))))"
  by (subst wait_csts.simps) (simp add: get_csts [OF assms] csts_ready_def split: prod.split)

lemma wait_csts_returns:
  assumes "0x20 \<le> dev_len dev"
    and "\<forall>t<T. csts_ready hw dev (poll_world hw (dev_addr dev + 0x1C) t w) \<noteq> ready"
    and "csts_ready hw dev (poll_world hw (dev_addr dev + 0x1C) T w) = ready"
  shows "wait_csts hw ready (dev, w)
    = Some (Ret (), (dev, snd (hw_read32 hw (dev_addr dev + 0x1C) (poll_world hw (dev_addr dev + 0x1C) T w))))"
  using assms(2,3)
proof (induction T arbitrary: w)
  case 0
  then show ?case by (simp add: wait_csts_step [OF assms(1)] poll_world_def)
next
  case (Suc T)
  have "csts_ready hw dev w \<noteq> ready"
    using spec [OF Suc.prems(1), of 0] by (simp add: poll_world_def)
  then show ?case
    using Suc.IH Suc.prems by (simp add: wait_csts_step [OF assms(1)] poll_world_Suc [symmetric])
qed

lemma wait_csts_returned:
  assumes "wait_csts hw ready s = Some y" and "0x20 \<le> dev_len (fst s)"
  shows "\<exists>t. csts_ready hw (fst s) (poll_world hw (dev_addr (fst s) + 0x1C) t (snd s)) = ready"
proof -
  have "0x20 \<le> dev_len (fst s) \<longrightarrow>
      (\<exists>t. csts_ready hw (fst s) (poll_world hw (dev_addr (fst s) + 0x1C) t (snd s)) = ready)"
  proof (rule wait_csts.raw_induct [OF _ assms(1), where P = "\<lambda>hw ready s y. 0x20 \<le> dev_len (fst s) \<longrightarrow>
      (\<exists>t. csts_ready hw (fst s) (poll_world hw (dev_addr (fst s) + 0x1C) t (snd s)) = ready)"], rule impI)
    fix wait hw ready s y
    assume IH: "\<And>hw ready s y. wait hw ready s = Some y \<Longrightarrow> 0x20 \<le> dev_len (fst s) \<longrightarrow>
        (\<exists>t. csts_ready hw (fst s) (poll_world hw (dev_addr (fst s) + 0x1C) t (snd s)) = ready)"
      and step: "(case get_reg32 hw (reg32 CSTS) s of None \<Rightarrow> None
        | Some (r, t) \<Rightarrow> (case r of
             Ret csts \<Rightarrow> if (csts AND 1 = 1) = ready then Some (Ret (), t)
               else wait hw ready (fst t, hw_tick hw (snd t))
           | Err e \<Rightarrow> Some (Err e, t) | Panic p \<Rightarrow> Some (Panic p, t))) = Some y"
      and len: "0x20 \<le> dev_len (fst s)"
    let ?dev = "fst s" and ?a = "dev_addr (fst s) + 0x1C" and ?w = "snd s"
    show "\<exists>t. csts_ready hw ?dev (poll_world hw ?a t ?w) = ready"
    proof (cases "csts_ready hw ?dev ?w = ready")
      case True
      then show ?thesis by (intro exI [of _ 0]) (simp add: poll_world_def)
    next
      case False
      then have "wait hw ready (?dev, hw_tick hw (snd (hw_read32 hw ?a ?w))) = Some y"
        using step get_csts [OF len, of hw ?w] by (simp add: csts_ready_def split: prod.splits)
      from IH [OF this] len obtain t where
        "csts_ready hw ?dev (poll_world hw ?a t (hw_tick hw (snd (hw_read32 hw ?a ?w)))) = ready" by auto
      then show ?thesis by (intro exI [of _ "Suc t"]) (simp add: poll_world_Suc)
    qed
  qed
  then show ?thesis using assms(2) by simp
qed

text \<open>
  C20. The two waiting loops of the initialisation. On a device whose region contains the status
  register they end exactly if the controller's ready bit ever takes the awaited value at a poll,
  and they end at the first such poll, without changing the device; otherwise they never return.
\<close>

theorem wait_csts_iff_ready:
  assumes "0x20 \<le> dev_len dev"
    and "rdy = (\<lambda>t. csts_ready hw dev (poll_world hw (dev_addr dev + 0x1C) t w) = ready)"
  shows "wait_csts hw ready (dev, w) =
    (if \<exists>t. rdy t
     then Some (Ret (), (dev, snd (hw_read32 hw (dev_addr dev + 0x1C)
                                 (poll_world hw (dev_addr dev + 0x1C) (LEAST t. rdy t) w))))
     else None)"
proof (cases "\<exists>t. rdy t")
  case True
  then have "rdy (LEAST t. rdy t)" by (rule LeastI_ex)
  moreover have "\<forall>t < (LEAST t. rdy t). \<not> rdy t" using not_less_Least by blast
  ultimately have "wait_csts hw ready (dev, w) = Some (Ret (), (dev, snd (hw_read32 hw (dev_addr dev + 0x1C)
      (poll_world hw (dev_addr dev + 0x1C) (LEAST t. rdy t) w))))"
    by (intro wait_csts_returns [OF assms(1)]) (simp_all only: assms(2) simp_thms)
  then show ?thesis using True by simp
next
  case False
  have "wait_csts hw ready (dev, w) = None"
  proof (rule ccontr)
    assume "wait_csts hw ready (dev, w) \<noteq> None"
    then obtain y where "wait_csts hw ready (dev, w) = Some y" by blast
    from wait_csts_returned [OF this] show False using False assms by simp
  qed
  then show ?thesis using False by simp
qed

text \<open>A controller that becomes ready after three steps.\<close>

definition slow_hw :: "nat hw" where
  "slow_hw = \<lparr>hw_tick = (\<lambda>w. w\<lparr>wdev := Suc (wdev w)\<rparr>), hw_write32 = (\<lambda>a v w. w),
     hw_write64 = (\<lambda>a v w. w), hw_read32 = (\<lambda>a w. (if 3 \<le> wdev w then 1 else 0, w)),
     hw_read64 = (\<lambda>a w. (0, w)), hw_now = (\<lambda>w. (0, w))\<rparr>"

theorem wait_csts_iff_ready_witness:
  "wait_csts slow_hw True (demo_dev, blank_world 0) = Some (Ret (), (demo_dev, blank_world 3))"
proof -
  have p: "poll_world slow_hw a t (blank_world 0) = blank_world t" for a t
    by (induction t) (simp_all add: poll_world_def slow_hw_def blank_world_def)
  have r: "csts_ready slow_hw demo_dev (blank_world t) = (3 \<le> t)" for t
    by (simp add: csts_ready_def slow_hw_def blank_world_def)
  have "(LEAST t. (3 :: nat) \<le> t) = 3" by (rule Least_equality) simp_all
  moreover have "0x20 \<le> dev_len demo_dev" by (simp add: demo_dev_def)
  from wait_csts_iff_ready [OF this refl, where hw = slow_hw and w = "blank_world 0" and ready = True]
  have "wait_csts slow_hw True (demo_dev, blank_world 0) = Some (Ret (), (demo_dev,
      snd (hw_read32 slow_hw (dev_addr demo_dev + 0x1C) (blank_world (LEAST t. (3 :: nat) \<le> t)))))"
    by (auto simp: p r)
  ultimately show ?thesis by (simp add: slow_hw_def)
qed

subsection \<open>Admin commands\<close>

text \<open>
  C21. An admin command. The command built from the current tail and the buffer's address is stored
  in the slot at the tail and the doorbell rung with the new tail; when the controller's answer
  appears, after \<open>T\<close> polls that come too early, the call returns it, or an error if its status is
  not zero. Either way the answer has been consumed, its doorbell rung, and nothing but the two
  admin queues of the device has changed.
\<close>

theorem admin_command_outcome:
  assumes "sq_inv (admin_sq dev)" and "cq_consumed (admin_cq dev) N"
    and "entry = cmd (ucast (sq_tail (admin_sq dev))) (phys (buffer dev))"
    and "w1 = sq_rung hw (doorbell dev SQyTDBL 0) entry (admin_sq dev) w"
    and "answered hw (admin_cq dev) w1 c T"
  shows "\<exists>dev'. submit_and_complete_admin hw cmd (dev, w) =
      Some (if status_code c = 0 then Ret c
            else Err (Vroom ''Requesting i/o completion queue failed''),
        (dev', hw_write32 hw (doorbell dev CQyHDBL 0) (ucast (cq_head (admin_cq dev'))) ((hw_tick hw ^^ T) w1)))
    \<and> dev' = dev\<lparr>admin_sq := admin_sq dev', admin_cq := admin_cq dev'\<rparr>
    \<and> cq_consumed (admin_cq dev') (Suc N) \<and> sq_inv (admin_sq dev')
    \<and> w1 = hw_write32 hw (doorbell dev SQyTDBL 0) (ucast (sq_tail (admin_sq dev')))
             (w\<lparr>wmem := sq_stored entry (admin_sq dev) (wmem w)\<rparr>)
    \<and> sq_slot (admin_sq dev) (sq_stored entry (admin_sq dev) (wmem w)) (unat (sq_tail (admin_sq dev))) = entry"
proof -
  have inv: "cq_inv (admin_cq dev)" using assms(2) by (simp add: cq_consumed_def)
  have "unat (sq_tail (admin_sq dev)) < 16384" using sq_invD [OF assms(1)] by simp
  then show ?thesis
    using admin_run [where cmd = cmd, OF assms(1) inv assms(3-5)] cq_consumed_after [OF assms(2)]
      sq_inv_after [OF assms(1), of entry] assms(4)
    by (intro exI [of _ "dev_admin entry dev"])
      (simp add: dev_admin_def cq_rung_def sq_rung_def sq_slot_stored [OF _ assms(1)])
qed

lemma demo_dev_state:
  "sync_state (admin_sq demo_dev) (admin_cq demo_dev) [] (admin_sq demo_dev) (admin_cq demo_dev) (blank_world [])"
  "sync_state (io_sq demo_dev) (io_cq demo_dev) [] (io_sq demo_dev) (io_cq demo_dev) (blank_world [])"
  by (simp_all add: sync_state_def demo_dev_def demo_ring_def demo_cring_def blank_world_def sq_inv_def
      cq_consumed_def cq_inv_def phase_of_def)

definition demo_admin_hw :: "nvme_command list hw" where
  "demo_admin_hw = sync_hw (doorbell demo_dev SQyTDBL 0) (admin_sq demo_dev) (admin_cq demo_dev)"

lemma demo_doorbells:
  "doorbell demo_dev SQyTDBL 0 \<noteq> doorbell demo_dev CQyHDBL 0"
  "doorbell demo_dev SQyTDBL 1 \<noteq> doorbell demo_dev CQyHDBL 1"
  by (simp_all add: doorbell_def demo_dev_def shl16_def push_bit_eq_mult)

lemma demo_admin_serves:
  "serves demo_admin_hw (doorbell demo_dev SQyTDBL 0) (doorbell demo_dev CQyHDBL 0) (\<lambda>c q. q)
     (sync_state (admin_sq demo_dev) (admin_cq demo_dev))"
  unfolding demo_admin_hw_def using demo_doorbells(1) by (rule sync_hw_serves) simp

theorem admin_command_outcome_witness:
  "\<exists>dev'. submit_and_complete_admin demo_admin_hw (\<lambda>cid _. cmd_async_event_req cid) (demo_dev, blank_world [])
     = Some (Ret (sync_answer 4 4 0),
         (dev', sq_rung demo_admin_hw (doorbell demo_dev SQyTDBL 0) (cmd_async_event_req 0)
            (admin_sq demo_dev) (blank_world [])))
   \<and> cq_consumed (admin_cq dev') 1"
proof -
  note st = demo_dev_state(1)
  let ?e = "cmd_async_event_req 0" and ?db = "doorbell demo_dev SQyTDBL 0"
  let ?w1 = "sq_rung demo_admin_hw ?db ?e (admin_sq demo_dev) (blank_world [])"
  have len: "unat (sq_len (admin_sq demo_dev)) = 4" "unat (cq_len (admin_cq demo_dev)) = 4"
    by (simp_all add: demo_dev_def demo_ring_def demo_cring_def)
  have "answered demo_admin_hw (admin_cq demo_dev) ?w1 (sync_answer 4 4 0) 0"
    using sync_rung(2) [OF st refl refl, of ?db ?e] sync_rung(3) [OF st refl refl]
    by (simp add: answered_def demo_admin_hw_def len)
  moreover have "sq_inv (admin_sq demo_dev)" "cq_consumed (admin_cq demo_dev) 0"
    using st by (simp_all add: sync_state_def blank_world_def)
  moreover have "?e = (\<lambda>cid _. cmd_async_event_req cid) (ucast (sq_tail (admin_sq demo_dev))) (phys (buffer demo_dev))"
    by (simp add: demo_dev_def demo_ring_def)
  moreover have "status_code (sync_answer 4 4 0) = 0"
    by (simp add: status_code_def sync_answer_def drop_bit_Suc)
  ultimately show ?thesis
    using admin_command_outcome [of demo_dev 0 ?e "\<lambda>cid _. cmd_async_event_req cid" ?w1 demo_admin_hw
        "blank_world []" "sync_answer 4 4 0" 0] demo_doorbells(1)
    by (auto simp: demo_admin_hw_def)
qed

lemma admin_served_first:
  assumes "serves_first N hw (doorbell dev SQyTDBL 0) (doorbell dev CQyHDBL 0) (\<lambda>c q. q) I"
    and "I cs (admin_sq dev) (admin_cq dev) w" and "Suc (length cs) < N"
    and "entry = cmd (ucast (sq_tail (admin_sq dev))) (phys (buffer dev))"
  shows "\<exists>c w'. submit_and_complete_admin hw cmd (dev, w) = Some (Ret c, (dev_admin entry dev, w'))
    \<and> I (cs @ [entry]) (admin_sq (dev_admin entry dev)) (admin_cq (dev_admin entry dev)) w'"
proof -
  let ?w1 = "sq_rung hw (doorbell dev SQyTDBL 0) entry (admin_sq dev) w"
  obtain c T where c: "sq_inv (admin_sq dev)" "cq_inv (admin_cq dev)" "answered hw (admin_cq dev) ?w1 c T"
      "status_code c = 0"
      "I (cs @ [entry]) (sq_after entry (admin_sq dev)) (cq_after (admin_cq dev))
         (cq_rung hw (doorbell dev CQyHDBL 0) (admin_cq dev) T ?w1)"
    using assms(1-3) unfolding serves_first_def by blast
  show ?thesis
    using admin_run [where cmd = cmd, OF c(1,2) assms(4) refl c(3)] c(4,5) by (auto simp: dev_admin_def)
qed

lemma admin_served:
  assumes "serves hw (doorbell dev SQyTDBL 0) (doorbell dev CQyHDBL 0) (\<lambda>c q. q) I"
    and "I cs (admin_sq dev) (admin_cq dev) w"
    and "entry = cmd (ucast (sq_tail (admin_sq dev))) (phys (buffer dev))"
  shows "\<exists>c w'. submit_and_complete_admin hw cmd (dev, w) = Some (Ret c, (dev_admin entry dev, w'))
    \<and> I (cs @ [entry]) (admin_sq (dev_admin entry dev)) (admin_cq (dev_admin entry dev)) w'"
  by (rule admin_served_first [where N = "Suc (Suc (length cs))" and cmd = cmd, OF serves_serves_first [OF assms(1)] assms(2) _ assms(3)]) simp

lemma dev_admin_simps [simp]:
  "buffer (dev_admin e dev) = buffer dev" "namespaces (dev_admin e dev) = namespaces dev"
  "dev_addr (dev_admin e dev) = dev_addr dev" "dev_len (dev_admin e dev) = dev_len dev"
  "dstrd (dev_admin e dev) = dstrd dev" "dev_q_id (dev_admin e dev) = dev_q_id dev"
  "allocator (dev_admin e dev) = allocator dev" "doorbell (dev_admin e dev) = doorbell dev"
  "io_sq (dev_admin e dev) = io_sq dev" "io_cq (dev_admin e dev) = io_cq dev"
  "prp_list (dev_admin e dev) = prp_list dev" "stats (dev_admin e dev) = stats dev"
  by (simp_all add: dev_admin_def)

end
