(* ===== verification/Device_Admin.thy ===== *)
theory Device_Admin
  imports Nvme_Device
begin

text \<open>
  What the operations built on admin commands achieve: identification of the controller and of
  its namespaces, creation of queue pairs, and the page list that initialisation writes
  (\<^verbatim>\<open>src/src/nvme.rs\<close>). The properties assume a controller that answers admin commands
  (\<open>serves\<close>) and say which commands it has been given.
\<close>

unbundle bit_operations_syntax

abbreviation admin_service :: "'d hw \<Rightarrow> 'm nvme_device \<Rightarrow> 'd service \<Rightarrow> bool" where
  "admin_service hw dev I \<equiv>
     serves hw (doorbell dev SQyTDBL 0) (doorbell dev CQyHDBL 0) (\<lambda>c q. q) I"

lemma mem_read_field:
  assumes "off + k \<le> n"
  shows "bytes_field (mem_read m a n) off k = le_word (mem_read m (a + of_nat off) k)"
proof -
  have "take k (drop off (mem_read m a n)) = mem_read m (a + of_nat off) k"
    using assms by (intro nth_equalityI) (simp_all add: mem_read_def add.assoc)
  then show ?thesis by (simp add: bytes_field_def)
qed

subsection \<open>Strings of the controller\<close>

lemma byte_char_nonzero:
  assumes "b \<noteq> 0"
  shows "of_char (byte_char b) \<noteq> (0 :: nat)"
proof -
  have "unat b < 256" using unsigned_less [of b] by simp
  then show ?thesis using assms by (simp add: byte_char_def unat_eq_zero)
qed

lemma c_string_props:
  "c \<in> set (c_string bs) \<Longrightarrow> of_char c \<noteq> (0 :: nat)" "length (c_string bs) \<le> length bs"
  by (auto simp: c_string_def length_takeWhile_le dest!: set_takeWhileD byte_char_nonzero)

text \<open>A string the driver reports: no zero, no white space at either end, at most \<open>n\<close> characters.\<close>

definition clean_string :: "nat \<Rightarrow> string \<Rightarrow> bool" where
  "clean_string n s \<longleftrightarrow> (\<forall>c\<in>set s. of_char c \<noteq> (0 :: nat)) \<and> length s \<le> n
     \<and> (s \<noteq> [] \<longrightarrow> \<not> is_whitespace (hd s) \<and> \<not> is_whitespace (last s))"

lemma clean_trim: "length bs = n \<Longrightarrow> clean_string n (trim (c_string bs))"
  using trim_subset [of "c_string bs"] c_string_props(1) [of _ bs] c_string_props(2) [of bs] trim_ends [of "c_string bs"]
  by (auto simp: clean_string_def)

lemma buffer_string_run:
  assumes "stop \<le> dsize (buffer dev)"
  shows "buffer_string start stop (dev, w)
    = Some (Ret (c_string (mem_read (wmem w) (virt (buffer dev) + start) (unat (stop - start)))), (dev, w))"
  using assms by (simp add: buffer_string_def run_simps dma_index_range_def read_slice_def)

text \<open>
  C22. Identifying the controller. One identify command is sent; the model, serial number and
  firmware revision it returns are the texts at offsets 24, 4 and 64 of the identify data, cut at
  the first zero byte and without white space at the ends.
\<close>

theorem identify_controller_texts:
  assumes "admin_service hw dev I" and "I cs (admin_sq dev) (admin_cq dev) w"
    and "72 \<le> dsize (buffer dev)"
  shows "\<exists>dev' w'. let text = (\<lambda>off n. trim (c_string (mem_read (wmem w') (virt (buffer dev) + off) n))) in
      identify_controller hw (dev, w) = Some (Ret (text 24 40, text 4 20, text 64 8), (dev', w'))
    \<and> clean_string 40 (text 24 40) \<and> clean_string 20 (text 4 20) \<and> clean_string 8 (text 64 8)
    \<and> I (cs @ [cmd_identify_controller (ucast (sq_tail (admin_sq dev))) (phys (buffer dev))])
        (admin_sq dev') (admin_cq dev') w'"
proof -
  let ?e = "cmd_identify_controller (ucast (sq_tail (admin_sq dev))) (phys (buffer dev))"
  obtain c w' where a: "submit_and_complete_admin hw cmd_identify_controller (dev, w)
        = Some (Ret c, (dev_admin ?e dev, w'))"
      "I (cs @ [?e]) (admin_sq (dev_admin ?e dev)) (admin_cq (dev_admin ?e dev)) w'"
    using admin_served [where cmd = cmd_identify_controller, OF assms(1,2) refl] by blast
  have "24 \<le> dsize (buffer dev)" "64 \<le> dsize (buffer dev)"
    using assms(3) by (auto intro: order_trans [rotated])
  note b = this assms(3)
  let ?text = "\<lambda>off n. trim (c_string (mem_read (wmem w') (virt (buffer dev) + off) n))"
  have "identify_controller hw (dev, w)
      = Some (Ret (?text 24 40, ?text 4 20, ?text 64 8), (dev_admin ?e dev, w'))"
    using b by (simp add: identify_controller_def run_simps a(1) buffer_string_run)
  then show ?thesis
    using a(2) by (intro exI [of _ "dev_admin ?e dev"] exI [of _ w']) (simp add: clean_trim)
qed

theorem identify_controller_texts_witness:
  "\<exists>dev' w' model serial firmware.
      identify_controller demo_admin_hw (demo_dev, blank_world []) = Some (Ret (model, serial, firmware), (dev', w'))
    \<and> clean_string 40 model \<and> wdev w' = [cmd_identify_controller 0 0xC00000]"
proof -
  have "72 \<le> dsize (buffer demo_dev)" by (simp add: demo_dev_def)
  from identify_controller_texts [OF demo_admin_serves demo_dev_state(1) this] show ?thesis
    by (auto simp: Let_def sync_state_def demo_dev_def demo_ring_def)
qed

subsection \<open>Namespaces\<close>

text \<open>
  C23. Listing the namespaces. One identify command is sent; the list returned is the leading
  non-zero words of the data, at most 1024 of them: each entry is the word at its index and the
  word behind a shorter list is zero.
\<close>

theorem identify_namespace_list_prefix:
  assumes "admin_service hw dev I" and "I cs (admin_sq dev) (admin_cq dev) w"
  shows "\<exists>ids dev' w'. identify_namespace_list hw base (dev, w) = Some (Ret ids, (dev', w'))
    \<and> length ids \<le> 1024 \<and> 0 \<notin> set ids
    \<and> (\<forall>i < length ids. ids ! i = read_u32 (wmem w') (virt (buffer dev)) i)
    \<and> (length ids < 1024 \<longrightarrow> read_u32 (wmem w') (virt (buffer dev)) (length ids) = 0)
    \<and> I (cs @ [cmd_identify_namespace_list (ucast (sq_tail (admin_sq dev))) (phys (buffer dev)) base])
        (admin_sq dev') (admin_cq dev') w'"
proof -
  let ?cmd = "\<lambda>cid addr. cmd_identify_namespace_list cid addr base"
  let ?e = "?cmd (ucast (sq_tail (admin_sq dev))) (phys (buffer dev))"
  obtain c w' where a: "submit_and_complete_admin hw ?cmd (dev, w) = Some (Ret c, (dev_admin ?e dev, w'))"
      "I (cs @ [?e]) (admin_sq (dev_admin ?e dev)) (admin_cq (dev_admin ?e dev)) w'"
    using admin_served [where cmd = ?cmd, OF assms(1,2) refl] by blast
  let ?all = "map (read_u32 (wmem w') (virt (buffer dev))) [0..<1024]"
  let ?ids = "takeWhile (\<lambda>i. i \<noteq> 0) ?all"
  have len: "length ?ids \<le> 1024" using length_takeWhile_le [of "\<lambda>i. i \<noteq> 0" ?all] by simp
  have "?ids ! i = read_u32 (wmem w') (virt (buffer dev)) i" if "i < length ?ids" for i
    using that len by (simp add: takeWhile_nth)
  moreover have "read_u32 (wmem w') (virt (buffer dev)) (length ?ids) = 0" if "length ?ids < 1024"
    using nth_length_takeWhile [of "\<lambda>i. i \<noteq> 0" ?all] that by simp
  moreover have "0 \<notin> set ?ids" by (auto dest: set_takeWhileD)
  moreover have "identify_namespace_list hw base (dev, w) = Some (Ret ?ids, (dev_admin ?e dev, w'))"
    by (simp add: identify_namespace_list_def run_simps mignore_def a(1))
  ultimately show ?thesis using a(2) len by blast
qed

theorem identify_namespace_list_prefix_witness:
  "\<exists>ids dev' w'. identify_namespace_list demo_admin_hw 0 (demo_dev, blank_world []) = Some (Ret ids, (dev', w'))
    \<and> 0 \<notin> set ids \<and> wdev w' = [cmd_identify_namespace_list 0 0xC00000 0]"
  using identify_namespace_list_prefix [OF demo_admin_serves demo_dev_state(1), of 0]
  by (auto simp: sync_state_def demo_dev_def demo_ring_def)

text \<open>Byte 2 of a 32-bit word in memory.\<close>

lemma lbads_byte:
  "drop_bit 16 (le_word (mem_read m a 4) :: u32) AND 0xFF = ucast (m (a + 2))"
proof -
  have "(0xFF :: u32) = mask 8" by (simp add: mask_eq_exp_minus_1)
  then have "drop_bit 16 (le_word (mem_read m a 4) :: u32) AND 0xFF
      = take_bit 8 (drop_bit 16 (le_word (mem_read m a 4)))"
    by (simp only: take_bit_eq_mask)
  also have "\<dots> = ucast (m (a + 2))"
  proof (rule bit_word_eqI)
    fix n
    have "bit (m (a + 2)) n \<Longrightarrow> n < 8" using bit_imp_le_length [of "m (a + 2)" n] by simp
    moreover have "(16 + n) div 8 = 2 \<and> (16 + n) mod 8 = n" if "n < 8" using that by presburger
    ultimately show "bit (take_bit 8 (drop_bit 16 (le_word (mem_read m a 4) :: u32))) n
        = bit (ucast (m (a + 2)) :: u32) n"
      by (cases "n < 8") (auto simp: bit_simps bit_le_word mem_read_def)
  qed
  finally show ?thesis .
qed

lemma unat_and_15: "unat ((b :: u8) AND 0xF) < 16"
proof -
  have "(0xF :: u8) = mask 4" by (simp add: mask_eq_exp_minus_1)
  then have "unat (b AND 0xF) = take_bit 4 (unat b)"
    by (simp only: take_bit_eq_mask [symmetric] unsigned_take_bit_eq)
  then show ?thesis using take_bit_nat_less_exp [of 4 "unat b"] by simp
qed

lemma block_size_of_decode:
  fixes m a
  defines "d \<equiv> decode_identify (mem_read m a 4096)"
    and "idx \<equiv> unat (m (a + 26) AND 0xF)"
  shows "ind_ncap d = le_word (mem_read m (a + 8) 8)"
    and "block_size_of d = (let lbads = unat (m (a + of_nat (128 + 4 * idx) + 2))
           in if 9 \<le> lbads \<and> lbads < 32 then 2 ^ lbads else 0)"
proof -
  show "ind_ncap d = le_word (mem_read m (a + 8) 8)"
    by (simp add: d_def decode_identify_def mem_read_field)
  have "ind_flbas d = m (a + 26)"
    by (simp add: d_def decode_identify_def mem_read_field) (simp add: mem_read_def)
  then have idx: "unat (ind_flbas d AND 0xF) = idx" by (simp add: idx_def)
  have "idx < 16" unfolding idx_def by (rule unat_and_15)
  then have "ind_lba_format_support d ! idx = le_word (mem_read m (a + of_nat (128 + 4 * idx)) 4)"
    by (simp add: d_def decode_identify_def mem_read_field)
  then have b: "drop_bit 16 (ind_lba_format_support d ! idx) AND 0xFF = ucast (m (a + of_nat (128 + 4 * idx) + 2))"
    by (simp add: lbads_byte)
  show "block_size_of d = (let lbads = unat (m (a + of_nat (128 + 4 * idx) + 2))
           in if 9 \<le> lbads \<and> lbads < 32 then 2 ^ lbads else 0)"
    by (simp add: block_size_of_def idx b Let_def word_le_nat_alt word_less_nat_alt unat_ucast_up push_bit_eq_mult)
qed

text \<open>
  C24. Identifying a namespace. One identify command is sent; the namespace entered under its
  number has the capacity at offset 8 of the data, and as block size the power of two that the
  format selected by the low four bits of byte 26 gives, or 0 when that exponent is not between 9
  and 31. No other entry of the table changes.
\<close>

theorem identify_namespace_records:
  assumes "admin_service hw dev I" and "I cs (admin_sq dev) (admin_cq dev) w"
    and "a = virt (buffer dev)"
  shows "\<exists>ns dev' w'. identify_namespace hw i (dev, w) = Some (Ret ns, (dev', w'))
    \<and> namespaces dev' = (namespaces dev)(i \<mapsto> ns) \<and> ns_ident ns = i
    \<and> ns_blocks ns = le_word (mem_read (wmem w') (a + 8) 8)
    \<and> ns_block_size ns
       = (let lbads = unat (wmem w' (a + of_nat (128 + 4 * unat (wmem w' (a + 26) AND 0xF)) + 2))
          in if 9 \<le> lbads \<and> lbads < 32 then 2 ^ lbads else 0)
    \<and> I (cs @ [cmd_identify_namespace (ucast (sq_tail (admin_sq dev))) (phys (buffer dev)) i])
        (admin_sq dev') (admin_cq dev') w'"
proof -
  let ?cmd = "\<lambda>cid addr. cmd_identify_namespace cid addr i"
  let ?e = "?cmd (ucast (sq_tail (admin_sq dev))) (phys (buffer dev))"
  obtain c w' where r: "submit_and_complete_admin hw ?cmd (dev, w) = Some (Ret c, (dev_admin ?e dev, w'))"
      "I (cs @ [?e]) (admin_sq (dev_admin ?e dev)) (admin_cq (dev_admin ?e dev)) w'"
    using admin_served [where cmd = ?cmd, OF assms(1,2) refl] by blast
  let ?d = "decode_identify (mem_read (wmem w') a 4096)"
  let ?ns = "\<lparr>ns_ident = i, ns_blocks = ind_ncap ?d, ns_block_size = block_size_of ?d\<rparr>"
  let ?dev = "(dev_admin ?e dev)\<lparr>namespaces := (namespaces dev)(i \<mapsto> ?ns)\<rparr>"
  have "identify_namespace hw i (dev, w) = Some (Ret ?ns, (?dev, w'))"
    by (simp add: identify_namespace_def run_simps mignore_def r(1) Let_def assms(3))
  then show ?thesis
    using r(2) by (intro exI [of _ ?ns] exI [of _ ?dev] exI [of _ w']) (simp add: block_size_of_decode)
qed

theorem identify_namespace_records_witness:
  "\<exists>ns dev' w'. identify_namespace demo_admin_hw 1 (demo_dev, blank_world []) = Some (Ret ns, (dev', w'))
    \<and> namespaces dev' = [1 \<mapsto> ns] \<and> ns_ident ns = 1
    \<and> wdev w' = [cmd_identify_namespace 0 0xC00000 1]"
  using identify_namespace_records [OF demo_admin_serves demo_dev_state(1) refl, of 1]
  by (auto simp: sync_state_def demo_dev_def demo_ring_def)

subsection \<open>Queue pairs\<close>

text \<open>An allocator that gives regions of up to 2 MiB and leaves the controller's service alone.\<close>

definition allocates :: "('m, 'd) mapping_ops \<Rightarrow> 'm \<Rightarrow> 'd service \<Rightarrow> bool" where
  "allocates ops mem I \<longleftrightarrow>
     (\<forall>n cs sq cq w. n \<le> PAGESIZE_2MIB \<longrightarrow> I cs sq cq w \<longrightarrow>
        (\<exists>d w'. op_allocate ops mem n w = Some (Ret d, w') \<and> I cs sq cq w'))"

lemma allocatesD:
  "allocates ops mem I \<Longrightarrow> n \<le> PAGESIZE_2MIB \<Longrightarrow> I cs sq cq w \<Longrightarrow>
    \<exists>d w'. op_allocate ops mem n w = Some (Ret d, w') \<and> I cs sq cq w'"
  unfolding allocates_def by blast

lemma unat_ucast_u16: "unat (ucast (x :: u16) :: usize) = unat x"
  by (rule unat_ucast_up) simp

lemma pair_doorbell:
  fixes q :: u16
  assumes "unat (dstrd dev) < 16" and "2 * unat q + 1 < 2 ^ 16"
  shows "dev_addr dev + (0x1000 + shl64 4 (dstrd dev) * ucast (2 * q + 1)) = spec_doorbell dev CQyHDBL (unat q)"
    and "dev_addr dev + 0x1000 + shl64 4 (dstrd dev) * ucast (2 * q) = spec_doorbell dev SQyTDBL (unat q)"
proof -
  have s: "shl64 4 (dstrd dev) = of_nat (2 ^ (2 + unat (dstrd dev)))"
    using assms(1) by (simp add: shl64_def push_bit_eq_mult power_add)
  have "unat (2 * q) = 2 * unat q" using assms(2) by (subst unat_mult_no_wrap) simp_all
  moreover from this have "unat (2 * q + 1) = 2 * unat q + 1"
    using assms(2) by (subst unat_add_no_wrap) simp_all
  ultimately have "(ucast (2 * q + 1) :: usize) = of_nat (2 * unat q + 1)" "(ucast (2 * q) :: usize) = of_nat (2 * unat q)"
    using unat_ucast_u16 by (metis word_of_unat)+
  note i = this
  show "dev_addr dev + (0x1000 + shl64 4 (dstrd dev) * ucast (2 * q + 1)) = spec_doorbell dev CQyHDBL (unat q)"
    unfolding s i spec_doorbell_def by (simp add: algebra_simps)
  show "dev_addr dev + 0x1000 + shl64 4 (dstrd dev) * ucast (2 * q) = spec_doorbell dev SQyTDBL (unat q)"
    unfolding s i spec_doorbell_def by (simp add: algebra_simps)
qed

lemma cq_new_run:
  assumes "alloc (16 * 16384) w = Some (Ret d, w')"
  shows "cq_new alloc len db w = Some (Ret \<lparr>cq_commands = d, cq_head = 0, cq_phase = True,
    cq_len = min len 16384, cq_doorbell = db\<rparr>, w')"
  using assms by (simp add: cq_new_def run_simps)

lemma sq_new_run:
  assumes "alloc (64 * 16384) w = Some (Ret d, w')"
  shows "sq_new alloc len db w = Some (Ret \<lparr>sq_commands = d, sq_head = 0, sq_tail = 0,
    sq_len = min len 16384, sq_doorbell = db\<rparr>, w')"
  using assms by (simp add: sq_new_def run_simps)

lemma pair_offset_bound:
  fixes dev :: "'m nvme_device"
  assumes "unat (dstrd dev) < 16" and "2 * unat (dev_q_id dev) + 1 < 2 ^ 16"
    and "0x1000 + (2 * unat (dev_q_id dev) + 1) * 2 ^ (2 + unat (dstrd dev)) + 4 \<le> unat (dev_len dev)"
  shows "0x1000 + shl64 4 (dstrd dev) * ucast (2 * dev_q_id dev + 1) \<le> dev_len dev - 4"
proof -
  let ?o = "0x1000 + (2 * unat (dev_q_id dev) + 1) * 2 ^ (2 + unat (dstrd dev))"
  have "0x1000 + shl64 4 (dstrd dev) * ucast (2 * dev_q_id dev + 1) = (of_nat ?o :: usize)"
    using pair_doorbell(1) [OF assms(1,2)] by (simp add: spec_doorbell_def)
  moreover have "unat (dev_len dev) < 2 ^ 64" by simp
  then have "?o < 2 ^ 64" using assms(3) by linarith
  ultimately have "unat (0x1000 + shl64 4 (dstrd dev) * ucast (2 * dev_q_id dev + 1)) = ?o"
    by (simp only: unat_of_nat_u64)
  moreover have "4 \<le> dev_len dev" using assms(3) by (simp add: word_le_nat_alt)
  ultimately show ?thesis using assms(3) by (simp add: reg_in_bounds)
qed

lemma pair_lengths:
  fixes len :: usize
  assumes "0 < len" and "len \<le> 65536"
  shows "unat (min len 16384) = unat (ucast (len - 1) :: u16) + 1 \<longleftrightarrow> len \<le> 16384"
    and "0 < min len 16384" "min len 16384 \<le> 16384"
proof -
  have n: "0 < unat len" "unat len \<le> 65536" using assms by (simp_all add: word_less_nat_alt word_le_nat_alt)
  have "unat (len - 1) = unat len - 1" using assms(1) by (subst unat_minus_one) auto
  then have "unat (ucast (len - 1) :: u16) + 1 = unat len"
    using n by (simp add: unsigned_ucast_eq take_bit_eq_mod)
  then show "unat (min len 16384) = unat (ucast (len - 1) :: u16) + 1 \<longleftrightarrow> len \<le> 16384"
    by (auto simp: min_def word_le_nat_alt)
  show "0 < min len 16384" "min len 16384 \<le> 16384" using assms(1) by (simp_all add: min_def)
qed

lemma create_served:
  fixes dev :: "'m nvme_device"
  assumes srv: "admin_service hw dev I" and I: "I cs (admin_sq dev) (admin_cq dev) w"
    and alloc: "allocates ops (allocator dev) I" and len: "0 < len" "len \<le> 65536"
    and bar: "unat (dstrd dev) < 16" "2 * unat (dev_q_id dev) + 1 < 2 ^ 16"
      "0x1000 + (2 * unat (dev_q_id dev) + 1) * 2 ^ (2 + unat (dstrd dev)) + 4 \<le> unat (dev_len dev)"
  shows "\<exists>qp dev' w' cid cid'. create_io_queue_pair hw ops len (dev, w) = Some (Ret qp, (dev', w'))
    \<and> qp_id qp = dev_q_id dev \<and> dev_q_id dev' = dev_q_id dev + 1
    \<and> sq_inv (sub_queue qp) \<and> sq_is_empty (sub_queue qp) \<and> cq_consumed (comp_queue qp) 0
    \<and> sq_doorbell (sub_queue qp) = spec_doorbell dev SQyTDBL (unat (qp_id qp))
    \<and> cq_doorbell (comp_queue qp) = spec_doorbell dev CQyHDBL (unat (qp_id qp))
    \<and> I (cs @ [cmd_create_io_completion_queue cid (qp_id qp) (cq_get_addr (comp_queue qp)) (ucast (len - 1)),
               cmd_create_io_submission_queue cid' (qp_id qp) (sq_get_addr (sub_queue qp)) (ucast (len - 1)) (qp_id qp)])
        (admin_sq dev') (admin_cq dev') w'
    \<and> (unat (sq_len (sub_queue qp)) = unat (ucast (len - 1) :: u16) + 1 \<longleftrightarrow> len \<le> QUEUE_LENGTH)
    \<and> cq_len (comp_queue qp) = sq_len (sub_queue qp)
    \<and> (\<exists>e1 e2. dev' = (dev_admin e2 (dev_admin e1 dev))\<lparr>dev_q_id := dev_q_id dev + 1\<rparr>)"
proof -
  let ?q = "dev_q_id dev" and ?al = "op_allocate ops (allocator dev)"
  note db = pair_doorbell [OF bar(1,2)]
  obtain cd w1 where w1: "?al (16 * 16384) w = Some (Ret cd, w1)" "I cs (admin_sq dev) (admin_cq dev) w1"
    using allocatesD [OF alloc _ I, of "16 * 16384"] by auto
  let ?cq = "\<lparr>cq_commands = cd, cq_head = 0, cq_phase = True, cq_len = min len 16384,
      cq_doorbell = spec_doorbell dev CQyHDBL (unat ?q)\<rparr>"
  let ?cmd1 = "\<lambda>cid _. cmd_create_io_completion_queue cid ?q (phys cd) (ucast (len - 1))"
  define e1 where "e1 = ?cmd1 (ucast (sq_tail (admin_sq dev))) (phys (buffer dev))"
  obtain c1 w2 where w2: "submit_and_complete_admin hw ?cmd1 (dev, w1) = Some (Ret c1, (dev_admin e1 dev, w2))"
      "I (cs @ [e1]) (admin_sq (dev_admin e1 dev)) (admin_cq (dev_admin e1 dev)) w2"
    using admin_served [where cmd = ?cmd1, OF srv w1(2) e1_def] by blast
  obtain sd w3 where w3: "?al (64 * 16384) w2 = Some (Ret sd, w3)"
      "I (cs @ [e1]) (admin_sq (dev_admin e1 dev)) (admin_cq (dev_admin e1 dev)) w3"
    using allocatesD [OF alloc _ w2(2), of "64 * 16384"] by auto
  let ?sq = "\<lparr>sq_commands = sd, sq_head = 0, sq_tail = 0, sq_len = min len 16384,
      sq_doorbell = spec_doorbell dev SQyTDBL (unat ?q)\<rparr>"
  let ?cmd2 = "\<lambda>cid _. cmd_create_io_submission_queue cid ?q (phys sd) (ucast (len - 1)) ?q"
  let ?dev1 = "dev_admin e1 dev"
  define e2 where "e2 = ?cmd2 (ucast (sq_tail (admin_sq ?dev1))) (phys (buffer ?dev1))"
  have srv1: "admin_service hw ?dev1 I" using srv by simp
  obtain c2 w4 where w4: "submit_and_complete_admin hw ?cmd2 (?dev1, w3) = Some (Ret c2, (dev_admin e2 ?dev1, w4))"
      "I ((cs @ [e1]) @ [e2]) (admin_sq (dev_admin e2 ?dev1)) (admin_cq (dev_admin e2 ?dev1)) w4"
    using admin_served [where cmd = ?cmd2, OF srv1 w3(2) e2_def] by blast
  let ?qp = "\<lparr>qp_id = ?q, sub_queue = ?sq, comp_queue = ?cq\<rparr>"
  let ?dev' = "(dev_admin e2 ?dev1)\<lparr>dev_q_id := ?q + 1\<rparr>"
  have run: "create_io_queue_pair hw ops len (dev, w) = Some (Ret ?qp, (?dev', w4))"
    using pair_offset_bound [OF bar] cq_new_run [where alloc = ?al, OF w1(1), of len] sq_new_run [where alloc = ?al, OF w3(1), of len] w2(1) w4(1)
    by (simp add: create_io_queue_pair_def Let_def run_simps db cq_get_addr_def sq_get_addr_def)
  note L = pair_lengths [OF len]
  have "sq_inv ?sq" "cq_consumed ?cq 0"
    using L(2,3) by (simp_all add: sq_inv_def cq_consumed_def cq_inv_def phase_of_def)
  moreover have "I (cs @ [cmd_create_io_completion_queue (ucast (sq_tail (admin_sq dev))) ?q (phys cd) (ucast (len - 1)),
      cmd_create_io_submission_queue (ucast (sq_tail (admin_sq ?dev1))) ?q (phys sd) (ucast (len - 1)) ?q])
      (admin_sq ?dev') (admin_cq ?dev') w4"
    using w4(2) unfolding e1_def [symmetric] e2_def [symmetric] by simp
  ultimately show ?thesis
    using run L(1)
    by (intro exI [where x = ?qp] exI [where x = ?dev'] exI [where x = w4])
      (auto simp: sq_is_empty_def cq_get_addr_def sq_get_addr_def)
qed

text \<open>
  C25. Creating a queue pair, with a controller that accepts its two commands and an allocator that
  gives it memory: the pair has the device's next identifier, which is then used up; both rings
  are empty and satisfy their invariants; the doorbells are those of the specification; the
  controller has been told first of the completion and then of the submission queue, with their
  addresses. It has been told the length of the rings the driver uses exactly if the requested
  length is at most \<open>QUEUE_LENGTH\<close>.
\<close>

theorem create_io_queue_pair_fresh:
  fixes dev :: "'m nvme_device"
  assumes srv: "admin_service hw dev I" and I: "I cs (admin_sq dev) (admin_cq dev) w"
    and alloc: "allocates ops (allocator dev) I" and len: "0 < len" "len \<le> 65536"
    and bar: "unat (dstrd dev) < 16" "2 * unat (dev_q_id dev) + 1 < 2 ^ 16"
      "0x1000 + (2 * unat (dev_q_id dev) + 1) * 2 ^ (2 + unat (dstrd dev)) + 4 \<le> unat (dev_len dev)"
  shows "\<exists>qp dev' w' cid cid'. create_io_queue_pair hw ops len (dev, w) = Some (Ret qp, (dev', w'))
    \<and> qp_id qp = dev_q_id dev \<and> dev_q_id dev' = dev_q_id dev + 1
    \<and> sq_inv (sub_queue qp) \<and> sq_is_empty (sub_queue qp) \<and> cq_consumed (comp_queue qp) 0
    \<and> sq_doorbell (sub_queue qp) = spec_doorbell dev SQyTDBL (unat (qp_id qp))
    \<and> cq_doorbell (comp_queue qp) = spec_doorbell dev CQyHDBL (unat (qp_id qp))
    \<and> I (cs @ [cmd_create_io_completion_queue cid (qp_id qp) (cq_get_addr (comp_queue qp)) (ucast (len - 1)),
               cmd_create_io_submission_queue cid' (qp_id qp) (sq_get_addr (sub_queue qp)) (ucast (len - 1)) (qp_id qp)])
        (admin_sq dev') (admin_cq dev') w'
    \<and> (unat (sq_len (sub_queue qp)) = unat (ucast (len - 1) :: u16) + 1 \<longleftrightarrow> len \<le> QUEUE_LENGTH)
    \<and> cq_len (comp_queue qp) = sq_len (sub_queue qp)"
  using create_served [OF assms] by blast

definition demo_ops :: "(unit, 'd) mapping_ops" where
  "demo_ops = \<lparr>op_allocate = (\<lambda>_ n. mret \<lparr>virt = 0x1000000, phys = 0x1000000, dsize = n\<rparr>),
     op_deallocate = (\<lambda>_ _. mret ()), op_map_resource = (\<lambda>_. mret (0x10000, 0x4000)),
     op_set_page_size = (\<lambda>_ m. m)\<rparr>"

lemma demo_ops_allocates: "allocates demo_ops m I"
  by (simp add: allocates_def demo_ops_def)

theorem create_io_queue_pair_fresh_witness:
  "\<exists>qp dev' w'. create_io_queue_pair demo_admin_hw demo_ops 1024 (demo_dev, blank_world [])
      = Some (Ret qp, (dev', w'))
    \<and> qp_id qp = 2 \<and> dev_q_id dev' = 3 \<and> sq_inv (sub_queue qp) \<and> cq_consumed (comp_queue qp) 0
    \<and> sq_doorbell (sub_queue qp) = 0x11010 \<and> cq_doorbell (comp_queue qp) = 0x11014
    \<and> length (wdev w') = 2"
proof -
  have b: "unat (dstrd demo_dev) < 16" "2 * unat (dev_q_id demo_dev) + 1 < 2 ^ 16"
    "0x1000 + (2 * unat (dev_q_id demo_dev) + 1) * 2 ^ (2 + unat (dstrd demo_dev)) + 4 \<le> unat (dev_len demo_dev)"
    by (simp_all add: demo_dev_def)
  have q: "dev_q_id demo_dev = 2" "dev_addr demo_dev = 0x10000" "dstrd demo_dev = 0" by (simp_all add: demo_dev_def)
  have len: "(0 :: usize) < 1024" "(1024 :: usize) \<le> 65536" by simp_all
  from create_io_queue_pair_fresh [OF demo_admin_serves demo_dev_state(1) demo_ops_allocates len b]
  show ?thesis by (elim exE conjE) (intro exI conjI, assumption, auto simp: q spec_doorbell_def sync_state_def)
qed

subsection \<open>The page list of the buffer\<close>

text \<open>Entry \<open>j\<close> of the page list, as the controller reads it.\<close>

definition prp_entry :: "'m nvme_device \<Rightarrow> memory \<Rightarrow> nat \<Rightarrow> u64" where
  "prp_entry dev m j = le_word (mem_read m (cell (virt (prp_list dev)) 8 j) 8)"

lemma store_prp_entry:
  assumes "i < 512" and "j < 512"
  shows "store_prp i v (dev, w) = Some (Ret (), (dev, w\<lparr>wmem := mem_write (wmem w) (cell (virt (prp_list dev)) 8 i) (le_bytes 8 v)\<rparr>))"
    and "prp_entry dev (mem_write m (cell (virt (prp_list dev)) 8 i) (le_bytes 8 v)) j
      = (if j = i then v else prp_entry dev m j)"
proof -
  show "store_prp i v (dev, w) = Some (Ret (), (dev, w\<lparr>wmem := mem_write (wmem w) (cell (virt (prp_list dev)) 8 i) (le_bytes 8 v)\<rparr>))"
    using assms(1) by (simp add: store_prp_def)
  show "prp_entry dev (mem_write m (cell (virt (prp_list dev)) 8 i) (le_bytes 8 v)) j
      = (if j = i then v else prp_entry dev m j)"
  proof (cases "j = i")
    case True
    then show ?thesis by (simp add: prp_entry_def mem_read_write_exact)
  next
    case False
    then have "disjoint_ranges (cell b 8 i) 8 (cell b 8 j) 8" for b
      using assms by (intro cell_disjoint [where n = 512]) auto
    then show ?thesis using False by (simp add: prp_entry_def mem_read_write_disjoint)
  qed
qed

text \<open>A loop that stores \<open>f i\<close> into entry \<open>g i\<close> of the list, for distinct indices.\<close>

lemma prp_store_loop:
  assumes "\<forall>i\<in>set is. g i < 512" and "inj_on g (set is)" and "distinct is"
    and body: "\<And>i w. i \<in> set is \<Longrightarrow> body i () (dev, w) = store_prp (g i) (f i) (dev, w)"
  shows "\<exists>w'. mfold body is () (dev, w) = Some (Ret (), (dev, w')) \<and> wdev w' = wdev w
    \<and> (\<forall>i\<in>set is. prp_entry dev (wmem w') (g i) = f i)
    \<and> (\<forall>j<512. j \<notin> g ` set is \<longrightarrow> prp_entry dev (wmem w') j = prp_entry dev (wmem w) j)"
  using assms
proof (induction "is" arbitrary: w)
  case Nil
  then show ?case by simp
next
  case (Cons i "is")
  let ?w = "w\<lparr>wmem := mem_write (wmem w) (cell (virt (prp_list dev)) 8 (g i)) (le_bytes 8 (f i))\<rparr>"
  have gi: "g i < 512" using Cons.prems(1) by simp
  obtain w' where w': "mfold body is () (dev, ?w) = Some (Ret (), (dev, w'))" "wdev w' = wdev ?w"
      "\<forall>k\<in>set is. prp_entry dev (wmem w') (g k) = f k"
      "\<forall>j<512. j \<notin> g ` set is \<longrightarrow> prp_entry dev (wmem w') j = prp_entry dev (wmem ?w) j"
    using Cons.IH [of ?w] Cons.prems by (auto simp: inj_on_def)
  have step: "body i () (dev, w) = Some (Ret (), (dev, ?w))"
    using Cons.prems(4) [of i w] gi by (simp add: store_prp_entry)
  have fresh: "g i \<notin> g ` set is" using Cons.prems(2,3) by (auto simp: inj_on_def)
  then have "prp_entry dev (wmem w') (g i) = f i" using w'(4) gi by (simp add: store_prp_entry)
  moreover have "prp_entry dev (wmem w') j = prp_entry dev (wmem w) j"
    if "j < 512" "j \<noteq> g i" "j \<notin> g ` set is" for j
    using w'(4) that gi by (simp add: store_prp_entry)
  ultimately show ?case using w'(1-3) step by (intro exI [of _ w']) (auto simp: run_simps)
qed

lemma init_prp_list_run:
  "\<exists>w'. init_prp_list (dev, w) = Some (Ret (), (dev, w')) \<and> wdev w' = wdev w
    \<and> (\<forall>j<511. prp_entry dev (wmem w') j = phys (buffer dev) + of_nat (Suc j) * 4096)"
proof -
  let ?f = "\<lambda>i. phys (buffer dev) + of_nat i * 4096"
  have "\<exists>w'. init_prp_list (dev, w) = Some (Ret (), (dev, w')) \<and> wdev w' = wdev w
    \<and> (\<forall>i\<in>set [1..<512]. prp_entry dev (wmem w') (i - 1) = ?f i)
    \<and> (\<forall>j<512. j \<notin> (\<lambda>i. i - 1) ` set [1..<512] \<longrightarrow> prp_entry dev (wmem w') j = prp_entry dev (wmem w) j)"
    unfolding init_prp_list_def by (rule prp_store_loop) (auto simp: inj_on_def run_simps)
  then obtain w' where w': "init_prp_list (dev, w) = Some (Ret (), (dev, w'))" "wdev w' = wdev w"
      "\<forall>i\<in>set [1..<512]. prp_entry dev (wmem w') (i - 1) = ?f i" by blast
  have "prp_entry dev (wmem w') j = ?f (Suc j)" if "j < 511" for j
    using w'(3) [rule_format, of "Suc j"] that by simp
  then show ?thesis using w'(1,2) by blast
qed

end
