(* ===== verification/Device_Io.thy ===== *)
theory Device_Io
  imports Device_Admin
begin

text \<open>
  Data transfers of the device on its own I/O queue (\<^verbatim>\<open>src/src/nvme.rs\<close>): \<open>namespace_io\<close> and the
  reads and writes built on it, and the batched transfers built on \<open>dev_submit_io\<close> and
  \<open>dev_complete_io\<close>. Slices of bytes the caller passes are lists; a function that fills a slice
  returns the new contents. A time is a number of nanoseconds.
\<close>

unbundle bit_operations_syntax

definition checked_div :: "u64 \<Rightarrow> u64 \<Rightarrow> ('s, u64) comp" where
  "checked_div a b = (if b = 0 then mpanic Division_by_zero else mret (a div b))"

definition io_entry :: "bool \<Rightarrow> u16 \<Rightarrow> u32 \<Rightarrow> u64 \<Rightarrow> u64 \<Rightarrow> u64 \<Rightarrow> u64 \<Rightarrow> nvme_command" where
  "io_entry write cid nsid lba blocks addr ptr1 =
     (if write then cmd_io_write cid nsid lba (ucast blocks - 1) addr ptr1
      else cmd_io_read cid nsid lba (ucast blocks - 1) addr ptr1)"

definition dev_complete_io :: "'d hw \<Rightarrow> u64 \<Rightarrow> (('m, 'd) dev_state, u16 option) comp" where
  "dev_complete_io hw step =
     mbind (on_io_cq (cq_complete_n hw step)) (\<lambda>(tail, c_entry, _).
     mbind (write_reg_idx hw CQyHDBL 1 (ucast tail)) (\<lambda>_.
     if status_code c_entry \<noteq> 0 then mret None
     else mbind (mmodify (\<lambda>(dev, w).
              (dev\<lparr>stats := (stats dev)\<lparr>completions := completions (stats dev) + 1\<rparr>\<rparr>, w))) (\<lambda>_.
          mret (Some (ce_sq_head c_entry)))))"

text \<open>\<^verbatim>\<open>self.io_sq.head = self.complete_io(step).unwrap() as usize\<close>\<close>

definition take_completions :: "'d hw \<Rightarrow> u64 \<Rightarrow> (('m, 'd) dev_state, unit) comp" where
  "take_completions hw step =
     mbind (dev_complete_io hw step) (\<lambda>r. case r of
        None \<Rightarrow> mpanic Unwrap_failed
      | Some h \<Rightarrow> mmodify (\<lambda>(dev, w). (dev\<lparr>io_sq := (io_sq dev)\<lparr>sq_head := ucast h\<rparr>\<rparr>, w)))"

definition count_submission :: "(('m, 'd) dev_state, unit) comp" where
  "count_submission = mmodify (\<lambda>(dev, w).
     (dev\<lparr>stats := (stats dev)\<lparr>submissions := submissions (stats dev) + 1\<rparr>\<rparr>, w))"

definition namespace_ptr :: "'m nvme_device \<Rightarrow> u64 \<Rightarrow> u64 \<Rightarrow> u64" where
  "namespace_ptr dev blocks addr =
     (let bytes = blocks * 512
      in if bytes \<le> 4096 then 0 else if bytes \<le> 8192 then addr + 4096 else phys (prp_list dev) + 8)"

definition namespace_io ::
    "'d hw \<Rightarrow> u32 \<Rightarrow> u64 \<Rightarrow> u64 \<Rightarrow> u64 \<Rightarrow> bool \<Rightarrow> (('m, 'd) dev_state, unit) comp" where
  "namespace_io hw nsid blocks lba addr write =
     mbind (massert (0 < blocks)) (\<lambda>_.
     mbind (massert (blocks \<le> 0x10000)) (\<lambda>_.
     mbind (mget fst) (\<lambda>dev.
     mbind (on_io_sq (sq_submit (io_entry write (ucast (sq_tail (io_sq dev))) nsid lba blocks addr
              (namespace_ptr dev blocks addr)))) (\<lambda>tail.
     mbind count_submission (\<lambda>_.
     mbind (write_reg_idx hw SQyTDBL 1 (ucast tail)) (\<lambda>_.
     take_completions hw 1))))))"

text \<open>A \<^verbatim>\<open>for\<close> loop over the chunks of a region, carrying the next block address.\<close>

definition for_chunks ::
    "dma \<Rightarrow> usize \<Rightarrow> (dma_chunk \<Rightarrow> 'a \<Rightarrow> ('s, 'a) comp) \<Rightarrow> 'a \<Rightarrow> ('s, 'a) comp" where
  "for_chunks data bytes body acc = (\<lambda>s.
     case dma_chunks_collect (chunks data bytes) of
       None \<Rightarrow> None
     | Some cs \<Rightarrow> mfold body cs acc s)"

definition transfer_chunk ::
    "'d hw \<Rightarrow> bool \<Rightarrow> dma_chunk \<Rightarrow> u64 \<Rightarrow> (('m, 'd) dev_state, u64) comp" where
  "transfer_chunk hw write chunk lba =
     (let blocks = blocks_of (chunk_len chunk)
      in mbind (namespace_io hw 1 blocks lba (phys_addr chunk) write) (\<lambda>_. mret (lba + blocks)))"

definition nvme_write :: "'d hw \<Rightarrow> dma \<Rightarrow> u64 \<Rightarrow> (('m, 'd) dev_state, unit) comp" where
  "nvme_write hw data lba =
     mbind (for_chunks data (2 * 4096) (transfer_chunk hw True) lba) (\<lambda>_. mret ())"

definition nvme_read :: "'d hw \<Rightarrow> dma \<Rightarrow> u64 \<Rightarrow> (('m, 'd) dev_state, unit) comp" where
  "nvme_read hw dest lba =
     mbind (for_chunks dest (2 * 4096) (transfer_chunk hw False) lba) (\<lambda>_. mret ())"

subsection \<open>Transfers with a page list\<close>

definition instant_now :: "'d hw \<Rightarrow> ('x \<times> 'd world, nat) comp" where
  "instant_now hw = (\<lambda>(x, w). case hw_now hw w of (t, w') \<Rightarrow> Some (Ret t, (x, w')))"

definition store_pages :: "usize \<Rightarrow> usize \<Rightarrow> (('m, 'd) dev_state, unit) comp" where
  "store_pages addr prp_pages =
     mfold (\<lambda>i _. store_prp i (addr + of_nat i * 4096)) [0..<unat prp_pages] ()"

definition write_prp_chunk ::
    "'d hw \<Rightarrow> bool \<Rightarrow> dma_chunk \<Rightarrow> u64 \<times> nat \<Rightarrow> (('m, 'd) dev_state, u64 \<times> nat) comp" where
  "write_prp_chunk hw write chunk = (\<lambda>(lba, total).
     let prp_pages = chunk_len chunk div PAGESIZE_4KIB;
         blocks = blocks_of (chunk_len chunk)
     in
     mbind (store_pages (phys_addr chunk) prp_pages) (\<lambda>_.
     mbind (instant_now hw) (\<lambda>start.
     mbind (namespace_io hw 1 blocks lba (phys_addr chunk) write) (\<lambda>_.
     mbind (instant_now hw) (\<lambda>stop.
     if prp_pages = 0 then mpanic Division_by_zero
     else mret (lba + blocks, total + (stop - start)))))))"

definition write_prp :: "'d hw \<Rightarrow> dma \<Rightarrow> u64 \<Rightarrow> bool \<Rightarrow> (('m, 'd) dev_state, nat) comp" where
  "write_prp hw data lba write =
     mbind (for_chunks data (128 * 4096) (write_prp_chunk hw write) (lba, 0)) (\<lambda>(_, total). mret total)"

subsection \<open>Transfers through the buffer\<close>

text \<open>\<^verbatim>\<open>slice::chunks\<close>.\<close>

function slice_chunks :: "nat \<Rightarrow> 'a list \<Rightarrow> 'a list list" where
  "slice_chunks n xs = (if xs = [] \<or> n = 0 then [] else take n xs # slice_chunks n (drop n xs))"
  by pat_completeness auto
termination by (relation "measure (length \<circ> snd)") auto

declare slice_chunks.simps [simp del]

definition len_u64 :: "'a list \<Rightarrow> u64" where "len_u64 xs = of_nat (length xs)"

text \<open>\<^verbatim>\<open>self.buffer[..n].copy_from_slice(chunk)\<close> and the copy in the other direction.\<close>

definition buffer_store :: "u8 list \<Rightarrow> (('m, 'd) dev_state, unit) comp" where
  "buffer_store bs =
     mbind (mget fst) (\<lambda>dev.
     mbind (mlift (dma_index_to (buffer dev) (len_u64 bs))) (\<lambda>(a, _).
     mmodify (\<lambda>(dev, w). (dev, w\<lparr>wmem := mem_write (wmem w) a bs\<rparr>))))"

definition buffer_load :: "nat \<Rightarrow> (('m, 'd) dev_state, u8 list) comp" where
  "buffer_load n =
     mbind (mget fst) (\<lambda>dev.
     mbind (mlift (dma_index_to (buffer dev) (of_nat n))) (\<lambda>(a, _).
     mget (\<lambda>(dev, w). mem_read (wmem w) a n)))"

definition lookup_namespace :: "u32 \<Rightarrow> (('m, 'd) dev_state, nvme_namespace) comp" where
  "lookup_namespace i =
     mbind (mget (\<lambda>(dev, w). namespaces dev i)) (\<lambda>r. case r of
        None \<Rightarrow> mpanic Unwrap_failed
      | Some ns \<Rightarrow> mret ns)"

definition write_copied :: "'d hw \<Rightarrow> u8 list \<Rightarrow> u64 \<Rightarrow> (('m, 'd) dev_state, unit) comp" where
  "write_copied hw data lba =
     mbind (lookup_namespace 1) (\<lambda>ns.
     mbind (mfold (\<lambda>chunk lba.
         mbind (buffer_store chunk) (\<lambda>_.
         mbind (checked_div (len_u64 chunk + ns_block_size ns - 1) (ns_block_size ns)) (\<lambda>blocks.
         mbind (mget (phys \<circ> buffer \<circ> fst)) (\<lambda>addr.
         mbind (namespace_io hw 1 blocks lba addr True) (\<lambda>_.
         mret (lba + blocks))))))
       (slice_chunks (128 * 4096) data) lba) (\<lambda>_.
     mret ()))"

definition read_copied :: "'d hw \<Rightarrow> u8 list \<Rightarrow> u64 \<Rightarrow> (('m, 'd) dev_state, u8 list) comp" where
  "read_copied hw dest lba =
     mbind (lookup_namespace 1) (\<lambda>ns.
     mbind (mfold (\<lambda>chunk (lba, out).
         mbind (checked_div (len_u64 chunk + ns_block_size ns - 1) (ns_block_size ns)) (\<lambda>blocks.
         mbind (mget (phys \<circ> buffer \<circ> fst)) (\<lambda>addr.
         mbind (namespace_io hw 1 blocks lba addr False) (\<lambda>_.
         mbind (buffer_load (length chunk)) (\<lambda>bs.
         mret (lba + blocks, out @ bs))))))
       (slice_chunks (128 * 4096) dest) (lba, [])) (\<lambda>(_, out).
     mret out))"

subsection \<open>Batched transfers\<close>

definition batch_ptr :: "'m nvme_device \<Rightarrow> nvme_namespace \<Rightarrow> u64 \<Rightarrow> u64 \<Rightarrow> u64" where
  "batch_ptr dev ns blocks addr =
     (let bytes = blocks * ns_block_size ns
      in if bytes \<le> 4096 then 0 else if bytes \<le> 8192 then addr + 4096
         else phys (prp_list dev) + (addr - phys (buffer dev)) div 8)"

definition dev_submit_io ::
    "nvme_namespace \<Rightarrow> u64 \<Rightarrow> u64 \<Rightarrow> u64 \<Rightarrow> bool \<Rightarrow> (('m, 'd) dev_state, usize option) comp" where
  "dev_submit_io ns addr blocks lba write =
     mbind (massert (0 < blocks)) (\<lambda>_.
     mbind (massert (blocks \<le> 0x10000)) (\<lambda>_.
     mbind (mget fst) (\<lambda>dev.
     on_io_sq (sq_submit_checked (io_entry write (ucast (sq_tail (io_sq dev))) (ns_ident ns) lba blocks addr
       (batch_ptr dev ns blocks addr))))))"

text \<open>The inner loop of both batched transfers, and what they do with one chunk.\<close>

definition submit_batch ::
    "'d hw \<Rightarrow> nvme_namespace \<Rightarrow> bool \<Rightarrow> u64 \<Rightarrow> u64 \<Rightarrow> u64 \<Rightarrow> u64 \<Rightarrow> (('m, 'd) dev_state, u64) comp" where
  "submit_batch hw ns write batch_len batch_size blocks lba =
     mfold (\<lambda>i lba.
         mbind (mget (phys \<circ> buffer \<circ> fst)) (\<lambda>buf.
         mbind (dev_submit_io ns (buf + of_nat i * batch_size) blocks lba write) (\<lambda>r.
         mbind (case r of
                  Some tail \<Rightarrow> mbind count_submission (\<lambda>_. write_reg_idx hw SQyTDBL 1 (ucast tail))
                | None \<Rightarrow> mret ()) (\<lambda>_.
         mret (lba + blocks)))))
       [0..<unat batch_len] lba"

definition batch_chunk ::
    "'d hw \<Rightarrow> nvme_namespace \<Rightarrow> bool \<Rightarrow> u64 \<Rightarrow> u64 \<Rightarrow> u64 \<Rightarrow> (('m, 'd) dev_state, u64) comp" where
  "batch_chunk hw ns write len batch_len0 lba =
     (let batch_len = min batch_len0 (len div 512)
      in mbind (checked_div len batch_len) (\<lambda>batch_size.
         mbind (checked_div batch_size (ns_block_size ns)) (\<lambda>blocks.
         mbind (submit_batch hw ns write batch_len batch_size blocks lba) (\<lambda>lba.
         mbind (take_completions hw batch_len) (\<lambda>_.
         mret lba)))))"

definition batched_write ::
    "'d hw \<Rightarrow> u32 \<Rightarrow> u8 list \<Rightarrow> u64 \<Rightarrow> u64 \<Rightarrow> (('m, 'd) dev_state, unit) comp" where
  "batched_write hw nsid data lba batch_len =
     mbind (lookup_namespace nsid) (\<lambda>ns.
     mbind (mfold (\<lambda>chunk lba.
         mbind (buffer_store chunk) (\<lambda>_.
         batch_chunk hw ns True (len_u64 chunk) batch_len lba))
       (slice_chunks (unat PAGESIZE_2MIB) data) lba) (\<lambda>_.
     mret ()))"

definition batched_read ::
    "'d hw \<Rightarrow> u32 \<Rightarrow> u8 list \<Rightarrow> u64 \<Rightarrow> u64 \<Rightarrow> (('m, 'd) dev_state, u8 list) comp" where
  "batched_read hw nsid data lba batch_len =
     mbind (lookup_namespace nsid) (\<lambda>ns.
     mbind (mfold (\<lambda>chunk (lba, out).
         mbind (batch_chunk hw ns False (len_u64 chunk) batch_len lba) (\<lambda>lba.
         mbind (buffer_load (length chunk)) (\<lambda>bs.
         mret (lba, out @ bs))))
       (slice_chunks (unat PAGESIZE_2MIB) data) (lba, [])) (\<lambda>(_, out).
     mret out))"

subsection \<open>One transfer\<close>

abbreviation io_service :: "'d hw \<Rightarrow> 'm nvme_device \<Rightarrow> 'd service \<Rightarrow> bool" where
  "io_service hw dev I \<equiv> serves hw (doorbell dev SQyTDBL 1) (doorbell dev CQyHDBL 1) take_head I"

text \<open>The command of a transfer, and the device once it has been answered with success.\<close>

definition namespace_entry ::
    "'m nvme_device \<Rightarrow> u32 \<Rightarrow> u64 \<Rightarrow> u64 \<Rightarrow> u64 \<Rightarrow> bool \<Rightarrow> nvme_command" where
  "namespace_entry dev nsid blocks lba addr write =
     io_entry write (ucast (sq_tail (io_sq dev))) nsid lba blocks addr (namespace_ptr dev blocks addr)"

definition dev_io :: "nvme_command \<Rightarrow> nvme_completion \<Rightarrow> 'm nvme_device \<Rightarrow> 'm nvme_device" where
  "dev_io entry c dev =
     dev\<lparr>io_sq := take_head c (sq_after entry (io_sq dev)), io_cq := cq_after (io_cq dev),
         stats := \<lparr>completions = completions (stats dev) + 1, submissions = submissions (stats dev) + 1\<rparr>\<rparr>"

definition dev_io_failed :: "nvme_command \<Rightarrow> 'm nvme_device \<Rightarrow> 'm nvme_device" where
  "dev_io_failed entry dev =
     dev\<lparr>io_sq := sq_after entry (io_sq dev), io_cq := cq_after (io_cq dev),
         stats := (stats dev)\<lparr>submissions := submissions (stats dev) + 1\<rparr>\<rparr>"

lemma namespace_io_run:
  assumes "sq_inv (io_sq dev)" and "cq_inv (io_cq dev)"
    and "entry = namespace_entry dev nsid blocks lba addr write"
    and "w1 = sq_rung hw (doorbell dev SQyTDBL 1) entry (io_sq dev) w"
    and ans: "answered hw (io_cq dev) w1 c T" and "0 < blocks" "blocks \<le> 0x10000"
  shows "namespace_io hw nsid blocks lba addr write (dev, w) =
    (let w2 = cq_rung hw (doorbell dev CQyHDBL 1) (io_cq dev) T w1
     in if status_code c = 0 then Some (Ret (), (dev_io entry c dev, w2))
        else Some (Panic Unwrap_failed, (dev_io_failed entry dev, w2)))"
proof -
  have s: "sq_submit entry (io_sq dev, w) = Some (Ret (sq_tail (sq_after entry (io_sq dev))),
      (sq_after entry (io_sq dev), w\<lparr>wmem := sq_stored entry (io_sq dev) (wmem w)\<rparr>))"
    by (rule sq_submit_run [OF assms(1)])
  note c = answered_complete_1 [OF assms(2) ans]
  show ?thesis
    using assms(6,7) s c unfolding assms(4)
    by (simp add: namespace_io_def namespace_entry_def [symmetric] assms(3) [symmetric] run_simps
        count_submission_def take_completions_def dev_complete_io_def sq_rung_def cq_rung_def
        dev_io_def dev_io_failed_def Let_def del: sq_after_simps)
qed

text \<open>
  C26. A transfer on the device's own queue. It panics without touching anything unless it moves
  between 1 and 65536 blocks. Otherwise one command is put in the slot at the tail and the
  doorbell rung; when the controller's answer appears it is consumed and its doorbell rung. On
  success the head moves to the one reported and both counters have gone up by one; on an error
  status the driver panics, with the submission counted and the head unchanged.
\<close>

theorem namespace_io_outcome:
  assumes "sq_inv (io_sq dev)" and "cq_consumed (io_cq dev) N"
    and "entry = namespace_entry dev nsid blocks lba addr write"
    and "w1 = hw_write32 hw (doorbell dev SQyTDBL 1) (ucast (sq_tail (sq_after entry (io_sq dev))))
                (w\<lparr>wmem := sq_stored entry (io_sq dev) (wmem w)\<rparr>)"
    and "answered hw (io_cq dev) w1 c T"
  shows "if 0 < blocks \<and> blocks \<le> 0x10000
    then \<exists>dev'. namespace_io hw nsid blocks lba addr write (dev, w)
           = Some (if status_code c = 0 then Ret () else Panic Unwrap_failed,
               (dev', hw_write32 hw (doorbell dev CQyHDBL 1) (ucast (cq_head (io_cq dev'))) ((hw_tick hw ^^ T) w1)))
         \<and> cq_consumed (io_cq dev') (Suc N)
         \<and> sq_tail (io_sq dev') = (sq_tail (io_sq dev) + 1) mod sq_len (io_sq dev)
         \<and> sq_head (io_sq dev') = (if status_code c = 0 then ucast (ce_sq_head c) else sq_head (io_sq dev))
         \<and> submissions (stats dev') = submissions (stats dev) + 1
         \<and> completions (stats dev') = completions (stats dev) + (if status_code c = 0 then 1 else 0)
         \<and> namespaces dev' = namespaces dev
    else namespace_io hw nsid blocks lba addr write (dev, w) = Some (Panic Assertion_failed, (dev, w))"
proof (cases "0 < blocks \<and> blocks \<le> 0x10000")
  case True
  have inv: "cq_inv (io_cq dev)" using assms(2) by (simp add: cq_consumed_def)
  have w1: "w1 = sq_rung hw (doorbell dev SQyTDBL 1) entry (io_sq dev) w" by (simp add: assms(4) sq_rung_def)
  note r = namespace_io_run [OF assms(1) inv assms(3) w1 assms(5), of]
  have con: "cq_consumed (cq_after (io_cq dev)) (Suc N)" using cq_consumed_after [OF assms(2)] .
  show ?thesis
  proof (cases "status_code c = 0")
    case True
    then show ?thesis using r con \<open>0 < blocks \<and> blocks \<le> 0x10000\<close>
      by (auto simp: Let_def cq_rung_def dev_io_def intro!: exI [of _ "dev_io entry c dev"])
  next
    case False
    then show ?thesis using r con \<open>0 < blocks \<and> blocks \<le> 0x10000\<close>
      by (auto simp: Let_def cq_rung_def dev_io_failed_def intro!: exI [of _ "dev_io_failed entry dev"])
  qed
next
  case False
  then show ?thesis by (auto simp: namespace_io_def run_simps)
qed

definition demo_io_hw :: "nvme_command list hw" where
  "demo_io_hw = sync_hw (doorbell demo_dev SQyTDBL 1) (io_sq demo_dev) (io_cq demo_dev)"

lemma demo_io_serves: "io_service demo_io_hw demo_dev (sync_state (io_sq demo_dev) (io_cq demo_dev))"
  unfolding demo_io_hw_def using demo_doorbells(2) by (rule sync_hw_serves) simp

theorem namespace_io_outcome_witness:
  "\<exists>dev' w'. namespace_io demo_io_hw 1 8 100 65536 True (demo_dev, blank_world []) = Some (Ret (), (dev', w'))
    \<and> sq_head (io_sq dev') = 1 \<and> sq_tail (io_sq dev') = 1 \<and> completions (stats dev') = 1"
proof -
  note st = demo_dev_state(2)
  let ?db = "doorbell demo_dev SQyTDBL 1" and ?e = "namespace_entry demo_dev 1 8 100 65536 True"
  let ?w1 = "sq_rung demo_io_hw ?db ?e (io_sq demo_dev) (blank_world [])"
  have len: "sq_len (io_sq demo_dev) = 4" "cq_len (io_cq demo_dev) = 4" "sq_tail (io_sq demo_dev) = 0"
    "completions (stats demo_dev) = 0"
    by (simp_all add: demo_dev_def demo_ring_def demo_cring_def)
  have ans: "answered demo_io_hw (io_cq demo_dev) ?w1 (sync_answer 4 4 0) 0"
    using sync_rung(2) [OF st refl refl, of ?db ?e] sync_rung(3) [OF st refl refl]
    by (simp add: answered_def demo_io_hw_def len)
  have "sq_inv (io_sq demo_dev)" "cq_consumed (io_cq demo_dev) 0"
    using st by (simp_all add: sync_state_def blank_world_def)
  from namespace_io_outcome [OF this refl sq_rung_def ans] show ?thesis
    by (auto simp: len status_code_def sync_answer_def phase_of_def drop_bit_Suc)
qed

subsection \<open>Reading and writing a region\<close>

lemma dev_io_simps [simp]:
  "io_sq (dev_io e c dev) = take_head c (sq_after e (io_sq dev))" "io_cq (dev_io e c dev) = cq_after (io_cq dev)"
  "doorbell (dev_io e c dev) = doorbell dev" "prp_list (dev_io e c dev) = prp_list dev"
  "buffer (dev_io e c dev) = buffer dev" "namespaces (dev_io e c dev) = namespaces dev"
  "submissions (stats (dev_io e c dev)) = submissions (stats dev) + 1"
  "completions (stats (dev_io e c dev)) = completions (stats dev) + 1"
  by (simp_all add: dev_io_def)

lemma namespace_io_served:
  assumes "io_service hw dev I" and "I cs (io_sq dev) (io_cq dev) w"
    and "0 < blocks" and "blocks \<le> 0x10000"
    and "entry = namespace_entry dev nsid blocks lba addr write"
  shows "\<exists>c w'. namespace_io hw nsid blocks lba addr write (dev, w) = Some (Ret (), (dev_io entry c dev, w'))
    \<and> I (cs @ [entry]) (io_sq (dev_io entry c dev)) (io_cq (dev_io entry c dev)) w'"
proof -
  let ?w1 = "sq_rung hw (doorbell dev SQyTDBL 1) entry (io_sq dev) w"
  obtain c T where c: "sq_inv (io_sq dev)" "cq_inv (io_cq dev)" "answered hw (io_cq dev) ?w1 c T"
      "status_code c = 0"
      "I (cs @ [entry]) (take_head c (sq_after entry (io_sq dev))) (cq_after (io_cq dev))
         (cq_rung hw (doorbell dev CQyHDBL 1) (io_cq dev) T ?w1)"
    using assms(1,2) unfolding serves_def by blast
  show ?thesis
    using namespace_io_run [OF c(1,2) assms(5) refl c(3) assms(3,4)] c(4,5) by (auto simp: Let_def)
qed

text \<open>The command of a chunk, up to its identifier.\<close>

definition chunk_command :: "'m nvme_device \<Rightarrow> bool \<Rightarrow> dma_chunk \<times> u64 \<Rightarrow> nvme_command \<Rightarrow> bool" where
  "chunk_command dev write = (\<lambda>(c, l) e. \<exists>cid.
     e = io_entry write cid 1 l (blocks_of (chunk_len c)) (phys_addr c)
           (namespace_ptr dev (blocks_of (chunk_len c)) (phys_addr c)))"

lemma chunk_command_dev_io [simp]: "chunk_command (dev_io e c dev) = chunk_command dev"
  by (simp add: chunk_command_def namespace_ptr_def fun_eq_iff Let_def)

lemma transfer_chunks_served:
  assumes "io_service hw dev I" and "I cs (io_sq dev) (io_cq dev) w"
    and "\<forall>c\<in>set chs. 0 < blocks_of (chunk_len c) \<and> blocks_of (chunk_len c) \<le> 0x10000"
  shows "\<exists>dev' w' cmds l. mfold (transfer_chunk hw write) chs lba (dev, w) = Some (Ret l, (dev', w'))
    \<and> I (cs @ cmds) (io_sq dev') (io_cq dev') w'
    \<and> list_all2 (chunk_command dev write) (chunk_lbas chs lba) cmds
    \<and> submissions (stats dev') = submissions (stats dev) + of_nat (length cmds)
    \<and> completions (stats dev') = completions (stats dev) + of_nat (length cmds)"
  using assms
proof (induction chs arbitrary: dev w cs lba)
  case Nil
  then show ?case by (intro exI [of _ dev] exI [of _ w] exI [of _ "[]"]) simp
next
  case (Cons ch chs)
  let ?b = "blocks_of (chunk_len ch)"
  let ?e = "namespace_entry dev 1 ?b lba (phys_addr ch) write"
  obtain c w1 where r: "namespace_io hw 1 ?b lba (phys_addr ch) write (dev, w) = Some (Ret (), (dev_io ?e c dev, w1))"
      "I (cs @ [?e]) (io_sq (dev_io ?e c dev)) (io_cq (dev_io ?e c dev)) w1"
    using namespace_io_served [OF Cons.prems(1,2) _ _ refl] Cons.prems(3) by fastforce
  have "io_service hw (dev_io ?e c dev) I" using Cons.prems(1) by simp
  from Cons.IH [OF this r(2), of "lba + ?b"] Cons.prems(3)
  obtain dev' w' cmds l where t:
      "mfold (transfer_chunk hw write) chs (lba + ?b) (dev_io ?e c dev, w1) = Some (Ret l, (dev', w'))"
      "I ((cs @ [?e]) @ cmds) (io_sq dev') (io_cq dev') w'"
      "list_all2 (chunk_command dev write) (chunk_lbas chs (lba + ?b)) cmds"
      "submissions (stats dev') = submissions (stats dev) + 1 + of_nat (length cmds)"
      "completions (stats dev') = completions (stats dev) + 1 + of_nat (length cmds)"
    by auto
  have "chunk_command dev write (ch, lba) ?e" by (auto simp: chunk_command_def namespace_entry_def)
  moreover have "mfold (transfer_chunk hw write) (ch # chs) lba (dev, w) = Some (Ret l, (dev', w'))"
    using t(1) by (simp add: transfer_chunk_def run_simps r(1) Let_def)
  ultimately show ?case
    using t(2-5) by (intro exI [of _ dev'] exI [of _ w'] exI [of _ "?e # cmds"] exI [of _ l]) simp
qed

lemma blocks_of_chunk:
  assumes "i < chunk_count 8192 (unat (dsize data))"
  shows "0 < blocks_of (chunk_len (nth_chunk data 8192 i))" "blocks_of (chunk_len (nth_chunk data 8192 i)) \<le> 16"
proof -
  let ?n = "min 8192 (unat (dsize data) - i * 8192)"
  have "i * 8192 < unat (dsize data)" using assms by (simp add: chunk_count_less)
  then have "0 < ?n" "?n \<le> 8192" by simp_all
  moreover have "unat (blocks_of (chunk_len (nth_chunk data 8192 i))) = (?n + 511) div 512"
    by (subst unat_blocks_of) (simp_all add: nth_chunk_len)
  ultimately show "0 < blocks_of (chunk_len (nth_chunk data 8192 i))"
      "blocks_of (chunk_len (nth_chunk data 8192 i)) \<le> 16"
    by (auto simp: word_less_nat_alt word_le_nat_alt)
qed

lemma covers_chunk_cid [simp]: "covers_chunk write data lba i (c\<lparr>c_id := x\<rparr>) = covers_chunk write data lba i c"
  by (simp add: covers_chunk_def io_lba_def io_blocks_def)

lemma chunk_command_covers:
  assumes "i < chunk_count 8192 (unat (dsize data))"
    and "chunk_command dev write (nth_chunk data 8192 i, lba + of_nat (16 * i)) e"
  shows "covers_chunk write data lba i e"
proof -
  let ?c = "nth_chunk data 8192 i" and ?l = "lba + of_nat (16 * i) :: u64"
  let ?b = "blocks_of (chunk_len ?c)"
  have "unat ?b \<le> 16" using blocks_of_chunk(2) [OF assms(1)] by (simp add: word_le_nat_alt)
  then have "unat (?b * 512) = unat ?b * 512" by (subst unat_mult_no_wrap) simp_all
  then have "?b * 512 \<le> 8192" using \<open>unat ?b \<le> 16\<close> by (simp add: word_le_nat_alt)
  then have "e = (qp_entry write 0 0 ?c ?l)\<lparr>c_id := c_id e\<rparr>"
    using assms(2) by (auto simp: chunk_command_def namespace_ptr_def qp_entry_def io_entry_def Let_def
        cmd_io_read_def cmd_io_write_def)
  then show ?thesis using qp_entry_covers [OF assms(1)] by (metis covers_chunk_cid)
qed


text \<open>
  C27. Writing and reading a region. With a controller that answers, the call returns; the
  controller has then been given exactly one command per chunk of two pages, in order, each for
  the blocks of its chunk and with the chunk's one or two pages, and both counters have gone up by
  their number.
\<close>

theorem transfer_issues_commands:
  assumes "io_service hw dev I" and "I cs (io_sq dev) (io_cq dev) w"
  shows "\<exists>dev' w' cmds.
      (if write then nvme_write hw data lba else nvme_read hw data lba) (dev, w) = Some (Ret (), (dev', w'))
    \<and> I (cs @ cmds) (io_sq dev') (io_cq dev') w'
    \<and> length cmds = chunk_count 8192 (unat (dsize data))
    \<and> (\<forall>i < length cmds. covers_chunk write data lba i (cmds ! i))
    \<and> submissions (stats dev') = submissions (stats dev) + of_nat (length cmds)
    \<and> completions (stats dev') = completions (stats dev) + of_nat (length cmds)"
proof -
  let ?n = "chunk_count 8192 (unat (dsize data))"
  let ?cs = "map (nth_chunk data 8192) [0..<?n]"
  have cs: "dma_chunks_collect (chunks data (2 * 4096)) = Some ?cs"
    using dma_chunks_collect_at [of 8192 0 data] by (simp add: chunks_def)
  have "\<forall>c\<in>set ?cs. 0 < blocks_of (chunk_len c) \<and> blocks_of (chunk_len c) \<le> 0x10000"
  proof -
    have "(b :: u64) \<le> 16 \<Longrightarrow> b \<le> 0x10000" for b by (simp add: word_le_nat_alt)
    then show ?thesis using blocks_of_chunk by auto
  qed
  from transfer_chunks_served [OF assms this, of "write" lba] obtain dev' w' cmds l where t:
      "mfold (transfer_chunk hw write) ?cs lba (dev, w) = Some (Ret l, (dev', w'))"
      "I (cs @ cmds) (io_sq dev') (io_cq dev') w'"
      "list_all2 (chunk_command dev write) (chunk_lbas ?cs lba) cmds"
      "submissions (stats dev') = submissions (stats dev) + of_nat (length cmds)"
      "completions (stats dev') = completions (stats dev) + of_nat (length cmds)"
    by auto
  have len: "length cmds = ?n" using list_all2_lengthD [OF t(3)] by simp
  have "covers_chunk write data lba i (cmds ! i)" if i: "i < ?n" for i
  proof -
    have "chunk_command dev write (chunk_lbas ?cs lba ! i) (cmds ! i)"
      using t(3) i by (intro list_all2_nthD [OF t(3)]) simp
    then show ?thesis using chunk_command_covers [OF i] by (simp add: chunk_lbas_region [OF i])
  qed
  moreover have "(if write then nvme_write hw data lba else nvme_read hw data lba) (dev, w) = Some (Ret (), (dev', w'))"
    using t(1) cs by (cases "write") (simp_all add: nvme_write_def nvme_read_def for_chunks_def run_simps)
  ultimately show ?thesis
    using t(2,4,5) len by (intro exI [of _ dev'] exI [of _ w'] exI [of _ cmds]) simp
qed

theorem transfer_issues_commands_witness:
  "\<exists>dev' w' cmds. nvme_write demo_io_hw \<lparr>virt = 0, phys = 65536, dsize = 20000\<rparr> 100 (demo_dev, blank_world [])
      = Some (Ret (), (dev', w'))
    \<and> wdev w' = cmds \<and> length cmds = 3 \<and> io_lba (cmds ! 2) = 132 \<and> io_blocks (cmds ! 2) = 8
    \<and> submissions (stats dev') = 3"
proof -
  let ?d = "\<lparr>virt = 0, phys = 65536, dsize = 20000\<rparr>"
  have n: "chunk_count 8192 20000 = 3" by (simp add: chunk_count_def)
  have "submissions (stats demo_dev) = 0" by (simp add: demo_dev_def)
  moreover from transfer_issues_commands [OF demo_io_serves demo_dev_state(2), of True ?d 100]
  obtain dev' w' cmds where "nvme_write demo_io_hw ?d 100 (demo_dev, blank_world []) = Some (Ret (), (dev', w'))"
      "wdev w' = cmds" "length cmds = 3" "\<forall>i < length cmds. covers_chunk True ?d 100 i (cmds ! i)"
      "submissions (stats dev') = submissions (stats demo_dev) + of_nat (length cmds)"
    by (auto simp: n sync_state_def)
  ultimately show ?thesis by (auto simp: covers_chunk_def Let_def)
qed

end
