(* ===== verification/Page_Lists.thy ===== *)
theory Page_Lists
  imports Device_Io
begin

text \<open>
  Which pages a transfer of more than two pages reaches (\<^verbatim>\<open>src/src/nvme.rs\<close>). A command names
  its first page; for two pages its second pointer names the other one, for more it points into
  the page list in memory. \<open>transfer_pages\<close> is the list of pages the controller finds there.
\<close>

unbundle bit_operations_syntax

definition transfer_pages :: "'m nvme_device \<Rightarrow> memory \<Rightarrow> nvme_command \<Rightarrow> nat \<Rightarrow> u64 list" where
  "transfer_pages dev m e n =
     (let (p1, p2) = d_ptr e; at = virt (prp_list dev) + (p2 - phys (prp_list dev))
      in p1 # (if n \<le> 1 then [] else if n = 2 then [p2]
               else map (\<lambda>j. le_word (mem_read m (cell at 8 j) 8)) [0..<n - 1]))"

definition page_count :: "nat \<Rightarrow> nat" where
  "page_count len = (len + 4095) div 4096"

lemma io_entry_ptrs [simp]: "d_ptr (io_entry write cid nsid lba blocks addr ptr1) = (addr, ptr1)"
  by (simp add: io_entry_def cmd_io_read_def cmd_io_write_def)

lemma io_entry_fields:
  assumes "0 < blocks" and "blocks \<le> 0x10000"
  shows "opcode (io_entry write cid nsid lba blocks addr ptr1) = (if write then 1 else 2)"
    "io_lba (io_entry write cid nsid lba blocks addr ptr1) = lba"
    "io_blocks (io_entry write cid nsid lba blocks addr ptr1) = unat blocks"
  using unat_blocks_minus_1 [OF assms] by (simp_all add: io_entry_def)

text \<open>A list that the second pointer enters at entry \<open>k\<close>.\<close>

lemma transfer_pages_list:
  assumes "d_ptr e = (p1, phys (prp_list dev) + of_nat (8 * k))" and "2 < n"
  shows "transfer_pages dev m e n = p1 # map (\<lambda>j. prp_entry dev m (k + j)) [0..<n - 1]"
  using assms by (simp add: transfer_pages_def prp_entry_def cell_def Let_def algebra_simps)

lemma page_count_eq:
  "page_count l = (if l mod 4096 = 0 then l div 4096 else Suc (l div 4096))"
proof -
  have l: "4096 * (l div 4096) + l mod 4096 = l" "l mod 4096 < 4096" by simp_all
  show ?thesis
  proof (cases "l mod 4096 = 0")
    case True
    have "l + 4095 < 4096 * Suc (l div 4096)" using l True unfolding mult_Suc_right by linarith
    then have "(l + 4095) div 4096 = l div 4096" using l by (intro div_nat_eqI) linarith+
    then show ?thesis using True by (simp add: page_count_def)
  next
    case False
    have "4096 * Suc (l div 4096) \<le> l + 4095" "l + 4095 < 4096 * Suc (Suc (l div 4096))"
      using l False unfolding mult_Suc_right by linarith+
    then have "(l + 4095) div 4096 = Suc (l div 4096)" by (rule div_nat_eqI)
    then show ?thesis using False by (simp add: page_count_def)
  qed
qed

lemma div_le_iff: "0 < q \<Longrightarrow> m div q \<le> c \<longleftrightarrow> m < Suc c * q" for m :: nat
  by (simp add: less_Suc_eq_le [symmetric] div_less_iff_less_mult del: mult_Suc)

lemma blocks_of_bytes:
  assumes "unat len \<le> 524288"
  shows "blocks_of len * 512 \<le> 4096 \<longleftrightarrow> page_count (unat len) \<le> 1"
    and "blocks_of len * 512 \<le> 8192 \<longleftrightarrow> page_count (unat len) \<le> 2"
proof -
  let ?b = "(unat len + 511) div 512"
  have "unat (blocks_of len * 512) = ?b * 512"
    using assms by (subst unat_mult_no_wrap) (simp_all add: unat_blocks_of)
  then show "blocks_of len * 512 \<le> 4096 \<longleftrightarrow> page_count (unat len) \<le> 1"
      "blocks_of len * 512 \<le> 8192 \<longleftrightarrow> page_count (unat len) \<le> 2"
    using div_le_iff [of 512 "unat len + 511" 8] div_le_iff [of 512 "unat len + 511" 16]
      div_le_iff [of 4096 "unat len + 4095" 1] div_le_iff [of 4096 "unat len + 4095" 2]
    by (auto simp: word_le_nat_alt page_count_def)
qed

lemma store_pages_run:
  assumes "unat k \<le> 512"
  shows "\<exists>w'. store_pages addr k (dev, w) = Some (Ret (), (dev, w')) \<and> wdev w' = wdev w
    \<and> (\<forall>i < unat k. prp_entry dev (wmem w') i = addr + of_nat i * 4096)
    \<and> (\<forall>j<512. unat k \<le> j \<longrightarrow> prp_entry dev (wmem w') j = prp_entry dev (wmem w) j)"
proof -
  have "\<exists>w'. store_pages addr k (dev, w) = Some (Ret (), (dev, w')) \<and> wdev w' = wdev w
    \<and> (\<forall>i\<in>set [0..<unat k]. prp_entry dev (wmem w') (id i) = addr + of_nat i * 4096)
    \<and> (\<forall>j<512. j \<notin> id ` set [0..<unat k] \<longrightarrow> prp_entry dev (wmem w') j = prp_entry dev (wmem w) j)"
    unfolding store_pages_def using assms by (intro prp_store_loop) auto
  then show ?thesis by fastforce
qed

text \<open>The page list and the submission ring are different memory.\<close>

definition list_apart :: "'m nvme_device \<Rightarrow> bool" where
  "list_apart dev \<longleftrightarrow> 4096 \<le> unat (dsize (prp_list dev)) \<and> 64 * 16384 \<le> unat (dsize (sq_commands (io_sq dev)))
     \<and> region (prp_list dev) \<inter> region (sq_commands (io_sq dev)) = {}"

lemma prp_entry_stored:
  assumes "sq_inv (io_sq dev)" and "list_apart dev" and "j < 512"
  shows "prp_entry dev (sq_stored e (io_sq dev) m) j = prp_entry dev m j"
proof -
  let ?sq = "io_sq dev" and ?l = "prp_list dev"
  have "sq_stored e ?sq m (cell (virt ?l) 8 j + of_nat i) = m (cell (virt ?l) 8 j + of_nat i)" if "i < 8" for i
  proof -
    have "virt ?l + of_nat (8 * j + i) \<in> region ?l" using that assms(2,3) by (intro region_offset) (simp add: list_apart_def)
    then have "cell (virt ?l) 8 j + of_nat i \<notin> region (sq_commands ?sq)"
      using assms(2) by (auto simp: list_apart_def cell_def add.assoc)
    moreover have "64 * unat (sq_tail ?sq) + length (encode_command e) \<le> unat (dsize (sq_commands ?sq))"
      using sq_invD(2,4) [OF assms(1)] assms(2) by (simp add: list_apart_def)
    ultimately show ?thesis unfolding sq_stored_def cell_def by (intro mem_write_range) (simp_all add: region_def)
  qed
  then have "mem_read (sq_stored e ?sq m) (cell (virt ?l) 8 j) 8 = mem_read m (cell (virt ?l) 8 j) 8" by (rule mem_read_cong)
  then show ?thesis by (simp only: prp_entry_def)
qed

lemma transfer_pages_stored:
  assumes "sq_inv (io_sq dev)" and "list_apart dev" and "n \<le> 2 \<or> d_ptr e = (p1, phys (prp_list dev) + of_nat (8 * k)) \<and> k + n \<le> 513"
  shows "transfer_pages dev (sq_stored e' (io_sq dev) m) e n = transfer_pages dev m e n"
proof (cases "n \<le> 2")
  case True
  then show ?thesis by (auto simp: transfer_pages_def Let_def split: prod.splits)
next
  case False
  then have "d_ptr e = (p1, phys (prp_list dev) + of_nat (8 * k))" "2 < n" "k + n \<le> 513" using assms(3) by auto
  then show ?thesis using transfer_pages_list [of e p1 dev k n] prp_entry_stored [OF assms(1,2)] by simp
qed

text \<open>What the loop over the pages of a chunk stores, as the command of the chunk finds it.\<close>

lemma stored_pages:
  assumes "0 < len" and "len \<le> 524288" and "n = page_count (unat len)"
  shows "\<exists>w'. store_pages addr (len div PAGESIZE_4KIB) (dev, w) = Some (Ret (), (dev, w')) \<and> wdev w' = wdev w
    \<and> transfer_pages dev (wmem w') (namespace_entry dev 1 (blocks_of len) lba addr write) n
      = (if n \<le> 2 \<or> unat len mod 4096 = 0 then map (\<lambda>i. addr + of_nat i * 4096) [0..<n]
         else map (\<lambda>i. addr + of_nat i * 4096) [0..<n - 1] @ [prp_entry dev (wmem w) (n - 1)])"
proof -
  let ?k = "len div PAGESIZE_4KIB" and ?e = "namespace_entry dev 1 (blocks_of len) lba addr write"
  have len: "0 < unat len" "unat len \<le> 524288" using assms(1,2) by (simp_all add: word_less_nat_alt word_le_nat_alt)
  have k: "unat ?k = unat len div 4096" by (simp add: unat_div)
  then have "unat ?k \<le> 512" using len(2) by simp
  then obtain w' where w': "store_pages addr ?k (dev, w) = Some (Ret (), (dev, w'))" "wdev w' = wdev w"
      "\<forall>i < unat ?k. prp_entry dev (wmem w') i = addr + of_nat i * 4096"
      "\<forall>j<512. unat ?k \<le> j \<longrightarrow> prp_entry dev (wmem w') j = prp_entry dev (wmem w) j"
    using store_pages_run [of ?k addr dev w] by blast
  have n: "0 < n" "n \<le> 128" "unat ?k = (if unat len mod 4096 = 0 then n else n - 1)"
  proof -
    have "unat len div 4096 \<le> 128" using len(2) div_le_mono [of "unat len" 524288 4096] by simp
    moreover have "unat len div 4096 \<le> 127" if "unat len mod 4096 \<noteq> 0"
      using len(2) that mult_div_mod_eq [of 4096 "unat len"] by linarith
    moreover have "0 < unat len div 4096" if "unat len mod 4096 = 0"
      using len(1) that mult_div_mod_eq [of 4096 "unat len"] by (metis add.right_neutral mult_0_right neq0_conv)
    ultimately show "0 < n" "n \<le> 128" "unat ?k = (if unat len mod 4096 = 0 then n else n - 1)"
      using k by (auto simp: assms(3) page_count_eq)
  qed
  have ptr: "d_ptr ?e = (addr, if n \<le> 1 then 0 else if n \<le> 2 then addr + 4096 else phys (prp_list dev) + of_nat (8 * 1))"
    using blocks_of_bytes [OF len(2)] by (simp add: namespace_entry_def namespace_ptr_def Let_def assms(3))
  have "transfer_pages dev (wmem w') ?e n
      = (if n \<le> 2 \<or> unat len mod 4096 = 0 then map (\<lambda>i. addr + of_nat i * 4096) [0..<n]
         else map (\<lambda>i. addr + of_nat i * 4096) [0..<n - 1] @ [prp_entry dev (wmem w) (n - 1)])"
  proof (cases "n \<le> 2")
    case True
    then show ?thesis using ptr n(1) by (cases "n = 1") (auto simp: transfer_pages_def Let_def le_Suc_eq numeral_2_eq_2)
  next
    case False
    then have "transfer_pages dev (wmem w') ?e n = addr # map (\<lambda>j. prp_entry dev (wmem w') (1 + j)) [0..<n - 1]"
      using ptr by (intro transfer_pages_list) simp_all
    moreover have "prp_entry dev (wmem w') (1 + j) = addr + of_nat (1 + j) * 4096" if "1 + j < unat ?k" for j
      using w'(3) that by blast
    moreover have "prp_entry dev (wmem w') i = prp_entry dev (wmem w) (n - 1)"
      if "unat ?k = n - 1" "i < n" "\<not> i < n - 1" for i
    proof -
      have "i = n - 1" using that by simp
      then show ?thesis using w'(4) that n(2) by simp
    qed
    ultimately show ?thesis
      using n False by (intro nth_equalityI) (auto simp: nth_Cons nth_append split: nat.splits)
  qed
  then show ?thesis using w'(1,2) by blast
qed


text \<open>
  C28. The page list of \<^verbatim>\<open>write_prp\<close>. For each chunk of up to 128 pages the driver stores the addresses of its
  pages in the list, puts one command for the blocks of the chunk in the slot at the tail, rings the
  doorbell, and takes the answer. At the moment the doorbell is rung the command reaches the chunk's
  pages, all of them and in order, if the chunk is a whole number of pages or has at most two. A longer
  chunk that ends within a page is one entry short: for its last page the controller reads the entry
  that was in the list before. A chunk shorter than a page is transferred, and then the driver panics.
\<close>

theorem write_prp_pages:
  assumes "sq_inv (io_sq dev)" and "cq_inv (io_cq dev)" and "list_apart dev" and "\<forall>w. wmem (snd (hw_now hw w)) = wmem w"
    and "0 < chunk_len ch" and "chunk_len ch \<le> 524288" and "n = page_count (unat (chunk_len ch))"
  shows "\<exists>e w0 m0. w0 = snd (hw_now hw (w\<lparr>wmem := m0\<rparr>))
    \<and> opcode e = (if write then 1 else 2) \<and> io_lba e = lba \<and> io_blocks e = (unat (chunk_len ch) + 511) div 512
    \<and> transfer_pages dev (sq_stored e (io_sq dev) (wmem w0)) e n
        = (if n \<le> 2 \<or> unat (chunk_len ch) mod 4096 = 0 then map (\<lambda>i. phys_addr ch + of_nat i * 4096) [0..<n]
           else map (\<lambda>i. phys_addr ch + of_nat i * 4096) [0..<n - 1] @ [prp_entry dev (wmem w) (n - 1)])
    \<and> (\<forall>c T w1 w2. w1 = sq_rung hw (doorbell dev SQyTDBL 1) e (io_sq dev) w0 \<longrightarrow> answered hw (io_cq dev) w1 c T \<longrightarrow>
         w2 = cq_rung hw (doorbell dev CQyHDBL 1) (io_cq dev) T w1 \<longrightarrow>
         (\<exists>t dev'. write_prp_chunk hw write ch (lba, spent) (dev, w)
            = (if status_code c \<noteq> 0 then Some (Panic Unwrap_failed, (dev', w2))
               else if chunk_len ch < 4096 then Some (Panic Division_by_zero, (dev', snd (hw_now hw w2)))
               else Some (Ret (lba + blocks_of (chunk_len ch), spent + t), (dev', snd (hw_now hw w2))))))"
proof -
  let ?len = "chunk_len ch" and ?addr = "phys_addr ch"
  define e where "e = namespace_entry dev 1 (blocks_of ?len) lba ?addr write"
  have len: "0 < unat ?len" "unat ?len \<le> 524288" using assms(5,6) by (simp_all add: word_less_nat_alt word_le_nat_alt)
  obtain wa where a: "store_pages ?addr (?len div PAGESIZE_4KIB) (dev, w) = Some (Ret (), (dev, wa))"
      "wdev wa = wdev w" "transfer_pages dev (wmem wa) e n
        = (if n \<le> 2 \<or> unat ?len mod 4096 = 0 then map (\<lambda>i. ?addr + of_nat i * 4096) [0..<n]
           else map (\<lambda>i. ?addr + of_nat i * 4096) [0..<n - 1] @ [prp_entry dev (wmem w) (n - 1)])"
    using stored_pages [OF assms(5-7)] unfolding e_def by blast
  obtain start wb where now: "hw_now hw wa = (start, wb)" by fastforce
  have b: "wmem wb = wmem wa" using assms(4) now by (metis snd_conv)
  have blocks: "0 < blocks_of ?len" "blocks_of ?len \<le> 0x10000" "unat (blocks_of ?len) = (unat ?len + 511) div 512"
    using len by (simp_all add: word_less_nat_alt word_le_nat_alt unat_blocks_of)
  have n: "n \<le> 128" using len(2) div_le_iff [of 4096 "unat ?len + 4095" 128] by (simp add: assms(7) page_count_def)
  have "n \<le> 2 \<or> d_ptr e = (?addr, phys (prp_list dev) + of_nat (8 * 1)) \<and> 1 + n \<le> 513"
    using blocks_of_bytes [OF len(2)] n by (auto simp: e_def namespace_entry_def namespace_ptr_def Let_def assms(7))
  from transfer_pages_stored [OF assms(1,3) this, of e "wmem wa"]
  have pages: "transfer_pages dev (sq_stored e (io_sq dev) (wmem wb)) e n = transfer_pages dev (wmem wa) e n" by (simp add: b)
  have fields: "opcode e = (if write then 1 else 2)" "io_lba e = lba" "io_blocks e = (unat ?len + 511) div 512"
    using blocks by (simp_all add: e_def namespace_entry_def io_entry_fields)
  have run: "\<exists>t dev'. write_prp_chunk hw write ch (lba, spent) (dev, w)
      = (if status_code c \<noteq> 0 then Some (Panic Unwrap_failed, (dev', w2))
         else if ?len < 4096 then Some (Panic Division_by_zero, (dev', snd (hw_now hw w2)))
         else Some (Ret (lba + blocks_of ?len, spent + t), (dev', snd (hw_now hw w2))))"
    if ans: "answered hw (io_cq dev) (sq_rung hw (doorbell dev SQyTDBL 1) e (io_sq dev) wb) c T"
      and w2: "w2 = cq_rung hw (doorbell dev CQyHDBL 1) (io_cq dev) T (sq_rung hw (doorbell dev SQyTDBL 1) e (io_sq dev) wb)" for c T w2
  proof -
    obtain stop wc where now2: "hw_now hw w2 = (stop, wc)" by fastforce
    have k: "?len div PAGESIZE_4KIB = 0 \<longleftrightarrow> ?len < 4096"
      by (simp add: word_less_nat_alt unat_div flip: unat_eq_0) (simp add: div_eq_0_iff)
    have io: "namespace_io hw 1 (blocks_of ?len) lba ?addr write (dev, wb)
        = (if status_code c = 0 then Some (Ret (), (dev_io e c dev, w2)) else Some (Panic Unwrap_failed, (dev_io_failed e dev, w2)))"
      using namespace_io_run [OF assms(1,2) e_def refl ans blocks(1,2)] w2 by (simp add: Let_def)
    show ?thesis
    proof (cases "status_code c = 0")
      case True
      then show ?thesis using a(1) now now2 io k
        by (intro exI [of _ "stop - start"] exI [of _ "dev_io e c dev"])
          (simp add: write_prp_chunk_def Let_def mbind_run instant_now_def)
    next
      case False
      then show ?thesis using a(1) now io
        by (intro exI [of _ 0] exI [of _ "dev_io_failed e dev"]) (simp add: write_prp_chunk_def Let_def mbind_run instant_now_def)
    qed
  qed
  have "wa = w\<lparr>wmem := wmem wa\<rparr>" using a(2) by (cases w; cases wa) simp
  then have "wb = snd (hw_now hw (w\<lparr>wmem := wmem wa\<rparr>))" using now by (metis snd_conv)
  then show ?thesis
    by (intro exI [of _ e] exI [of _ wb] exI [of _ "wmem wa"] conjI allI impI) (use fields pages a(3) run in simp_all)
qed

lemma demo_answered:
  "answered demo_io_hw (io_cq demo_dev) (sq_rung demo_io_hw (doorbell demo_dev SQyTDBL 1) e (io_sq demo_dev) ((blank_world [])\<lparr>wmem := m\<rparr>))
     (sync_answer 4 4 0) 0"
proof -
  have st: "sync_state (io_sq demo_dev) (io_cq demo_dev) [] (io_sq demo_dev) (io_cq demo_dev) ((blank_world [])\<lparr>wmem := m\<rparr>)"
    using demo_dev_state(2) by (simp add: sync_state_def blank_world_def)
  have "sq_len (io_sq demo_dev) = 4" "cq_len (io_cq demo_dev) = 4" by (simp_all add: demo_dev_def demo_ring_def demo_cring_def)
  then show ?thesis
    using sync_rung(2) [OF st refl refl, of "doorbell demo_dev SQyTDBL 1" e] sync_rung(3) [OF st refl refl] by (simp add: answered_def demo_io_hw_def)
qed

theorem write_prp_pages_witness:
  "\<exists>e m t dev' w'. transfer_pages demo_dev m e 3 = [0x20000, 0x21000, 0x22000] \<and> io_blocks e = 24
    \<and> write_prp_chunk demo_io_hw True \<lparr>phys_addr = 0x20000, chunk_slice = (0x20000, 12288)\<rparr> (100, 0) (demo_dev, blank_world [])
      = Some (Ret (124, t), (dev', w'))"
proof -
  let ?ch = "\<lparr>phys_addr = 0x20000, chunk_slice = (0x20000, 12288)\<rparr>" and ?w = "blank_world [] :: nvme_command list world"
  have inv: "sq_inv (io_sq demo_dev)" "cq_inv (io_cq demo_dev)" using demo_dev_state(2) by (simp_all add: sync_state_def cq_consumed_def)
  have apart: "list_apart demo_dev" by (auto simp: list_apart_def demo_dev_def demo_ring_def region_def in_addr_range)
  have now: "hw_now demo_io_hw = (\<lambda>w. (0, w))" by (simp add: demo_io_hw_def sync_hw_def)
  have n: "(3 :: nat) = page_count (unat (chunk_len ?ch))" by (simp add: page_count_def)
  have ok: "status_code (sync_answer 4 4 0) = 0" "blocks_of 12288 = 24"
    by (simp_all add: status_code_def sync_answer_def phase_of_def drop_bit_Suc blocks_of_def)
  have clock: "\<forall>w. wmem (snd (hw_now demo_io_hw w)) = wmem w" by (simp add: now)
  from write_prp_pages [OF inv apart clock _ _ n, of ?w True 100 0]
  show ?thesis
    apply (simp add: now ok)
    apply (elim exE conjE)
    apply (drule spec [of _ "sync_answer 4 4 0"], drule spec [of _ 0], simp add: demo_answered ok)
    by (auto simp: upt_conv_Cons)
qed

text \<open>
  C29. Transfers through the driver's buffer. The list that initialisation stores starts with the
  buffer's second page, and the command for a transfer points at its second entry. A transfer of
  three or more pages therefore reaches the buffer's first page, then its third, its fourth and so
  on: the second page is left out and the last one lies behind the data.
\<close>

theorem copied_transfer_skips_page:
  assumes "8192 < len" and "len \<le> 524288" and "n = page_count (unat len)"
  shows "\<exists>w'. init_prp_list (dev, w) = Some (Ret (), (dev, w'))
    \<and> transfer_pages dev (wmem w') (namespace_entry dev 1 (blocks_of len) lba (phys (buffer dev)) write) n
      = phys (buffer dev) # map (\<lambda>i. phys (buffer dev) + of_nat i * 4096) [2..<n + 1]"
proof -
  let ?e = "namespace_entry dev 1 (blocks_of len) lba (phys (buffer dev)) write"
  obtain w' where w': "init_prp_list (dev, w) = Some (Ret (), (dev, w'))"
      "\<forall>j<511. prp_entry dev (wmem w') j = phys (buffer dev) + of_nat (Suc j) * 4096"
    using init_prp_list_run [of dev w] by blast
  have len: "8192 < unat len" "unat len \<le> 524288" using assms(1,2) by (simp_all add: word_less_nat_alt word_le_nat_alt)
  have n: "2 < n" "n \<le> 129"
    using len div_le_iff [of 4096 "unat len + 4095" 2] div_le_iff [of 4096 "unat len + 4095" 129]
    by (auto simp: assms(3) page_count_def)
  have ptr: "d_ptr ?e = (phys (buffer dev), phys (prp_list dev) + of_nat (8 * 1))"
    using blocks_of_bytes [OF len(2)] n(1) by (simp add: namespace_entry_def namespace_ptr_def Let_def assms(3))
  have "transfer_pages dev (wmem w') ?e n
      = phys (buffer dev) # map (\<lambda>j. prp_entry dev (wmem w') (1 + j)) [0..<n - 1]"
    by (rule transfer_pages_list [OF ptr n(1)])
  moreover have "map (\<lambda>j. prp_entry dev (wmem w') (1 + j)) [0..<n - 1]
      = map (\<lambda>i. phys (buffer dev) + of_nat i * 4096) [2..<n + 1]"
    using w'(2) n by (intro nth_equalityI) (simp_all del: upt_Suc)
  ultimately show ?thesis using w'(1) by auto
qed

theorem copied_transfer_skips_page_witness:
  "\<exists>w'. init_prp_list (demo_dev, blank_world ()) = Some (Ret (), (demo_dev, w'))
    \<and> transfer_pages demo_dev (wmem w') (namespace_entry demo_dev 1 (blocks_of 12288) 0 (phys (buffer demo_dev)) True) 3
      = [0xC00000, 0xC02000, 0xC03000]"
proof -
  have n: "(3 :: nat) = page_count (unat (12288 :: usize))" by (simp add: page_count_def)
  have b: "phys (buffer demo_dev) = 0xC00000" by (simp add: demo_dev_def)
  have "\<exists>w'. init_prp_list (demo_dev, blank_world ()) = Some (Ret (), (demo_dev, w'))
    \<and> transfer_pages demo_dev (wmem w') (namespace_entry demo_dev 1 (blocks_of 12288) 0 (phys (buffer demo_dev)) True) 3
      = phys (buffer demo_dev) # map (\<lambda>i. phys (buffer demo_dev) + of_nat i * 4096) [2..<3 + 1]"
    by (rule copied_transfer_skips_page [OF _ _ n]) simp_all
  then show ?thesis by (auto simp: b upt_conv_Cons)
qed

text \<open>The list for a batch at page \<open>p\<close> of the buffer, as initialisation has stored it.\<close>

lemma batch_pages:
  assumes "2 < n" and "64 * p + n \<le> 512" and "blocks * ns_block_size ns > 8192"
    and "addr = phys (buffer dev) + of_nat p * 4096"
    and "e = io_entry write cid (ns_ident ns) lba blocks addr (batch_ptr dev ns blocks addr)"
  shows "d_ptr e = (addr, phys (prp_list dev) + of_nat (8 * (64 * p)))"
    and "\<exists>w'. init_prp_list (dev, w) = Some (Ret (), (dev, w'))
    \<and> transfer_pages dev (wmem w') e n
      = addr # map (\<lambda>i. phys (buffer dev) + of_nat (64 * p + i) * 4096) [1..<n]
    \<and> (transfer_pages dev (wmem w') e n = map (\<lambda>i. addr + of_nat i * 4096) [0..<n] \<longleftrightarrow> p = 0)"
proof -
  let ?b = "phys (buffer dev)"
  obtain w' where w': "init_prp_list (dev, w) = Some (Ret (), (dev, w'))"
      "\<forall>j<511. prp_entry dev (wmem w') j = ?b + of_nat (Suc j) * 4096"
    using init_prp_list_run [of dev w] by blast
  have p: "p < 8" using assms(1,2) by simp
  have big: "\<not> blocks * ns_block_size ns \<le> 4096" "\<not> blocks * ns_block_size ns \<le> 8192"
    using assms(3) by (auto simp: word_less_nat_alt word_le_nat_alt)
  have "unat (of_nat (p * 4096) :: u64) = p * 4096" using p by (intro unat_of_nat_u64) simp
  then have "unat ((of_nat (p * 4096) :: u64) div 8) = p * 512" by (simp only: unat_div) simp
  then have "(addr - ?b) div 8 = of_nat (8 * (64 * p))"
    unfolding assms(4) by (intro word_of_unat) simp
  then show ptr: "d_ptr e = (addr, phys (prp_list dev) + of_nat (8 * (64 * p)))"
    using big by (simp add: assms(5) batch_ptr_def Let_def)
  have "transfer_pages dev (wmem w') e n = addr # map (\<lambda>j. prp_entry dev (wmem w') (64 * p + j)) [0..<n - 1]"
    by (rule transfer_pages_list [OF ptr assms(1)])
  moreover have "map (\<lambda>j. prp_entry dev (wmem w') (64 * p + j)) [0..<n - 1]
      = map (\<lambda>i. ?b + of_nat (64 * p + i) * 4096) [1..<n]"
    using w'(2) assms(1,2) by (intro nth_equalityI) simp_all
  ultimately have pages: "transfer_pages dev (wmem w') e n
      = addr # map (\<lambda>i. ?b + of_nat (64 * p + i) * 4096) [1..<n]" by simp
  have "transfer_pages dev (wmem w') e n = map (\<lambda>i. addr + of_nat i * 4096) [0..<n] \<longleftrightarrow> p = 0"
  proof
    assume "transfer_pages dev (wmem w') e n = map (\<lambda>i. addr + of_nat i * 4096) [0..<n]"
    then have "transfer_pages dev (wmem w') e n ! 1 = map (\<lambda>i. addr + of_nat i * 4096) [0..<n] ! 1" by simp
    then have "(of_nat ((64 * p + 1) * 4096) :: u64) = of_nat ((p + 1) * 4096)"
      using assms(1) by (simp add: pages assms(4) algebra_simps)
    then have "unat (of_nat ((64 * p + 1) * 4096) :: u64) = unat (of_nat ((p + 1) * 4096) :: u64)" by (rule arg_cong)
    moreover have "(64 * p + 1) * 4096 < 2 ^ 64" "(p + 1) * 4096 < 2 ^ 64" using p by simp_all
    ultimately have "(64 * p + 1) * 4096 = (p + 1) * 4096" by (simp only: unat_of_nat_u64)
    then show "p = 0" by simp
  next
    assume "p = 0"
    then show "transfer_pages dev (wmem w') e n = map (\<lambda>i. addr + of_nat i * 4096) [0..<n]"
      using assms(1) by (intro nth_equalityI) (auto simp: pages assms(4) nth_Cons split: nat.splits)
  qed
  then show "\<exists>w'. init_prp_list (dev, w) = Some (Ret (), (dev, w'))
    \<and> transfer_pages dev (wmem w') e n
      = addr # map (\<lambda>i. phys (buffer dev) + of_nat (64 * p + i) * 4096) [1..<n]
    \<and> (transfer_pages dev (wmem w') e n = map (\<lambda>i. addr + of_nat i * 4096) [0..<n] \<longleftrightarrow> p = 0)"
    using w'(1) pages by blast
qed

text \<open>
  C30. Batched transfers. Initialisation stores 511 entries, one per page of the buffer from the second
  on. When there is room in the ring, the command that \<^verbatim>\<open>submit_io\<close> then puts there for a batch of three
  or more pages that starts at page \<open>p\<close> of the buffer enters the list at entry \<open>64 * p\<close>, because the
  offset into the buffer is divided by 8 where it should be divided by 512. As long as the entries it
  reaches are among those 511, they are the pages from \<open>64 * p + 1\<close> on, which are the batch's own only
  if \<open>p = 0\<close>.
\<close>

theorem batched_transfer_pages:
  assumes "sq_inv (io_sq dev)" and "list_apart dev" and "sq_count (io_sq dev) \<noteq> unat (sq_len (io_sq dev)) - 1"
    and "blocks \<le> 0x10000" and "unat blocks * unat (ns_block_size ns) < 2 ^ 64" and "n = page_count (unat blocks * unat (ns_block_size ns))"
    and "2 < n" and "64 * p + n \<le> 512" and "addr = phys (buffer dev) + of_nat p * 4096"
  shows "\<exists>e w1 w2. init_prp_list (dev, w) = Some (Ret (), (dev, w1))
    \<and> dev_submit_io ns addr blocks lba write (dev, w1)
        = Some (Ret (Some (sq_tail (sq_after e (io_sq dev)))), (dev\<lparr>io_sq := sq_after e (io_sq dev)\<rparr>, w2))
    \<and> sq_slot (io_sq dev) (wmem w2) (unat (sq_tail (io_sq dev))) = e
    \<and> opcode e = (if write then 1 else 2) \<and> ns_id e = ns_ident ns \<and> io_lba e = lba \<and> io_blocks e = unat blocks
    \<and> transfer_pages dev (wmem w2) e n = addr # map (\<lambda>i. phys (buffer dev) + of_nat (64 * p + i) * 4096) [1..<n]
    \<and> (transfer_pages dev (wmem w2) e n = map (\<lambda>i. addr + of_nat i * 4096) [0..<n] \<longleftrightarrow> p = 0)"
proof -
  let ?sq = "io_sq dev"
  define e where "e = io_entry write (ucast (sq_tail ?sq)) (ns_ident ns) lba blocks addr (batch_ptr dev ns blocks addr)"
  have "8192 < unat blocks * unat (ns_block_size ns)"
    using assms(6,7) div_le_iff [of 4096 "unat blocks * unat (ns_block_size ns) + 4095" 2] by (simp add: page_count_def)
  then have big: "blocks * ns_block_size ns > 8192"
    using assms(5) unat_mult_no_wrap [of blocks "ns_block_size ns"] by (simp add: word_less_nat_alt)
  then have pos: "0 < blocks" by (auto simp: word_gt_0)
  note e = batch_pages [OF assms(7,8) big assms(9) e_def]
  obtain w1 where 1: "init_prp_list (dev, w) = Some (Ret (), (dev, w1))"
      "transfer_pages dev (wmem w1) e n = addr # map (\<lambda>i. phys (buffer dev) + of_nat (64 * p + i) * 4096) [1..<n]"
      "transfer_pages dev (wmem w1) e n = map (\<lambda>i. addr + of_nat i * 4096) [0..<n] \<longleftrightarrow> p = 0"
    using e(2) by blast
  let ?w2 = "w1\<lparr>wmem := sq_stored e ?sq (wmem w1)\<rparr>"
  have "dev_submit_io ns addr blocks lba write (dev, w1)
      = Some (Ret (Some (sq_tail (sq_after e ?sq))), (dev\<lparr>io_sq := sq_after e ?sq\<rparr>, ?w2))"
    using pos assms(3,4) sq_submit_checked_run [OF assms(1), of e w1]
    by (simp add: dev_submit_io_def run_simps e_def [symmetric])
  moreover have "sq_slot ?sq (wmem ?w2) (unat (sq_tail ?sq)) = e"
    using sq_slot_stored [OF _ assms(1)] sq_invD(2,4) [OF assms(1)] by simp
  moreover have "transfer_pages dev (wmem ?w2) e n = transfer_pages dev (wmem w1) e n"
    using transfer_pages_stored [OF assms(1,2), of n e addr "64 * p"] e(1) assms(8) by simp
  moreover have "opcode e = (if write then 1 else 2)" "io_lba e = lba" "io_blocks e = unat blocks" "ns_id e = ns_ident ns"
    unfolding e_def using io_entry_fields [OF pos assms(4)] by (simp_all add: io_entry_def)
  ultimately show ?thesis using 1 by (intro exI [of _ e] exI [of _ w1] exI [of _ ?w2]) simp
qed

theorem batched_transfer_pages_witness:
  "\<exists>e w1 w2. init_prp_list (demo_dev, blank_world ()) = Some (Ret (), (demo_dev, w1))
    \<and> dev_submit_io \<lparr>ns_ident = 1, ns_blocks = 1000, ns_block_size = 512\<rparr> 0xC03000 24 7 True (demo_dev, w1)
        = Some (Ret (Some 1), (demo_dev\<lparr>io_sq := sq_after e (io_sq demo_dev)\<rparr>, w2))
    \<and> transfer_pages demo_dev (wmem w2) e 3 = [0xC03000, 0xCC1000, 0xCC2000]"
proof -
  let ?ns = "\<lparr>ns_ident = 1, ns_blocks = 1000, ns_block_size = 512\<rparr>" and ?w = "blank_world () :: unit world"
  have b: "phys (buffer demo_dev) = 0xC00000" by (simp add: demo_dev_def)
  have q: "sq_inv (io_sq demo_dev)" "sq_count (io_sq demo_dev) \<noteq> unat (sq_len (io_sq demo_dev)) - 1" "sq_tail (sq_after e (io_sq demo_dev)) = 1" for e
    by (simp_all add: demo_dev_def demo_ring_def sq_inv_def sq_count_def ring_dist_def sq_after_def)
  have apart: "list_apart demo_dev" by (auto simp: list_apart_def demo_dev_def demo_ring_def region_def in_addr_range)
  have n: "(3 :: nat) = page_count (unat (24 :: u64) * unat (ns_block_size ?ns))" by (simp add: page_count_def)
  have addr: "0xC03000 = phys (buffer demo_dev) + of_nat 3 * 4096" by (simp add: b)
  have small: "(24 :: u64) \<le> 0x10000" "unat (24 :: u64) * unat (ns_block_size ?ns) < 2 ^ 64" "2 < (3 :: nat)" "64 * 3 + 3 \<le> (512 :: nat)" by simp_all
  obtain e w1 w2 where "init_prp_list (demo_dev, ?w) = Some (Ret (), (demo_dev, w1))"
      "dev_submit_io ?ns 0xC03000 24 7 True (demo_dev, w1)
        = Some (Ret (Some (sq_tail (sq_after e (io_sq demo_dev)))), (demo_dev\<lparr>io_sq := sq_after e (io_sq demo_dev)\<rparr>, w2))"
      "transfer_pages demo_dev (wmem w2) e 3 = 0xC03000 # map (\<lambda>i. phys (buffer demo_dev) + of_nat (64 * 3 + i) * 4096) [1..<3]"
    using batched_transfer_pages [OF q(1) apart q(2) small(1,2) n small(3,4) addr, of ?w 7 True] by blast
  then show ?thesis
    by (intro exI [of _ e] exI [of _ w1] exI [of _ w2]) (simp only: q(3) b, simp add: upt_conv_Cons)
qed

end
