(* ===== verification/Comp_Logic.thy ===== *)
theory Comp_Logic
  imports Prelude
begin

text \<open>
  Reasoning about computations without running them. \<open>yields m s Q\<close>: from state \<open>s\<close> the computation
  \<open>m\<close> returns, with an outcome and a state that satisfy \<open>Q\<close>. \<open>returns m\<close>: \<open>m\<close> returns from every
  state. \<open>keeps P m\<close>: whenever \<open>m\<close> returns from a state with \<open>P\<close>, with a value, an error or a panic,
  the new state has \<open>P\<close> too. \<open>ends R m s Q\<close>: if \<open>m\<close> returns from \<open>s\<close>, the new state satisfies \<open>R\<close> however
  the call ended, and \<open>Q\<close> with the value if there is one. Each has a rule per combinator, so that the
  properties of an operation follow its text.
\<close>

named_theorems returns_intros \<open>computations that always return\<close>
named_theorems keeps_intros \<open>computations that keep a property of the state\<close>

subsection \<open>Outcomes\<close>

definition yields :: "('s, 'a) comp \<Rightarrow> 's \<Rightarrow> ('a outcome \<Rightarrow> 's \<Rightarrow> bool) \<Rightarrow> bool" where
  "yields m s Q \<longleftrightarrow> (\<exists>r t. m s = Some (r, t) \<and> Q r t)"

lemma yieldsI: "m s = Some (r, t) \<Longrightarrow> Q r t \<Longrightarrow> yields m s Q"
  by (auto simp: yields_def)

lemma yieldsD: "yields m s Q \<Longrightarrow> m s = Some (r, t) \<Longrightarrow> Q r t"
  by (auto simp: yields_def)

lemma yieldsE:
  assumes "yields m s Q"
  obtains r t where "m s = Some (r, t)" "Q r t"
  using assms by (auto simp: yields_def)

lemma yields_mono: "yields m s Q \<Longrightarrow> (\<And>r t. m s = Some (r, t) \<Longrightarrow> Q r t \<Longrightarrow> Q' r t) \<Longrightarrow> yields m s Q'"
  by (auto simp: yields_def)

lemma yields_bind:
  assumes "yields m s (\<lambda>r t. case r of
      Ret x \<Rightarrow> yields (f x) t Q | Err e \<Rightarrow> Q (Err e) t | Panic p \<Rightarrow> Q (Panic p) t)"
  shows "yields (mbind m f) s Q"
proof -
  obtain r t where "m s = Some (r, t)"
      "case r of Ret x \<Rightarrow> yields (f x) t Q | Err e \<Rightarrow> Q (Err e) t | Panic p \<Rightarrow> Q (Panic p) t"
    using assms by (rule yieldsE)
  then show ?thesis by (cases r) (auto simp: yields_def mbind_run)
qed

lemma yields_simps [simp]:
  "yields (mret x) s Q \<longleftrightarrow> Q (Ret x) s" "yields (merr e) s Q \<longleftrightarrow> Q (Err e) s"
  "yields (mpanic p) s Q \<longleftrightarrow> Q (Panic p) s" "yields (mget g) s Q \<longleftrightarrow> Q (Ret (g s)) s"
  "yields (mmodify h) s Q \<longleftrightarrow> Q (Ret ()) (h s)"
  by (simp_all add: yields_def)

text \<open>A sequence ends with a value only if its first part does.\<close>

lemma mbind_Ret: "m s = Some (Ret x, t) \<Longrightarrow> mbind m f s = f x t"
  by (simp add: mbind_run)

lemma mbind_RetE:
  assumes "mbind m f s = Some (Ret y, t)"
  obtains x s' where "m s = Some (Ret x, s')" "f x s' = Some (Ret y, t)"
  using assms by (auto simp: mbind_run split: option.splits outcome.splits)

subsection \<open>Computations that always return\<close>

definition returns :: "('s, 'a) comp \<Rightarrow> bool" where
  "returns m \<longleftrightarrow> (\<forall>s. \<exists>r t. m s = Some (r, t))"

lemma returnsE:
  assumes "returns m"
  obtains r t where "m s = Some (r, t)"
  using assms unfolding returns_def by blast

lemma returns_basic [returns_intros]:
  "returns (mret x)" "returns (merr e)" "returns (mpanic p)" "returns (mget g)" "returns (mmodify h)"
  "returns (massert b)"
  by (simp_all add: returns_def)

lemma returns_bind [returns_intros]:
  assumes "returns m" and "\<And>x. returns (f x)"
  shows "returns (mbind m f)"
  unfolding returns_def
proof
  fix s
  obtain r t where "m s = Some (r, t)" using assms(1) by (rule returnsE)
  then show "\<exists>r t. mbind m f s = Some (r, t)"
    using assms(2) by (cases r) (auto simp: mbind_run returns_def)
qed

lemma returns_if [returns_intros]: "returns m \<Longrightarrow> returns m' \<Longrightarrow> returns (if b then m else m')"
  by simp

lemma returns_prod [returns_intros]: "(\<And>a b. returns (f a b)) \<Longrightarrow> returns (case p of (a, b) \<Rightarrow> f a b)"
  by (cases p) simp

lemma returns_option [returns_intros]:
  "returns m \<Longrightarrow> (\<And>x. returns (f x)) \<Longrightarrow> returns (case p of None \<Rightarrow> m | Some x \<Rightarrow> f x)"
  by (cases p) simp_all

lemma returns_sum [returns_intros]:
  "(\<And>x. returns (f x)) \<Longrightarrow> (\<And>y. returns (g y)) \<Longrightarrow> returns (case p of Inl x \<Rightarrow> f x | Inr y \<Rightarrow> g y)"
  by (cases p) simp_all

lemma returns_let [returns_intros]: "(\<And>x. returns (f x)) \<Longrightarrow> returns (let x = y in f x)"
  by (simp add: Let_def)

subsection \<open>Properties of the state that are kept\<close>

definition keeps :: "('s \<Rightarrow> bool) \<Rightarrow> ('s, 'a) comp \<Rightarrow> bool" where
  "keeps P m \<longleftrightarrow> (\<forall>s r t. P s \<longrightarrow> m s = Some (r, t) \<longrightarrow> P t)"

lemma keepsI: "(\<And>s r t. P s \<Longrightarrow> m s = Some (r, t) \<Longrightarrow> P t) \<Longrightarrow> keeps P m"
  by (simp add: keeps_def)

lemma keepsD: "keeps P m \<Longrightarrow> m s = Some (r, t) \<Longrightarrow> P s \<Longrightarrow> P t"
  by (simp add: keeps_def)

lemma keeps_basic [keeps_intros]:
  "keeps P (mret x)" "keeps P (merr e)" "keeps P (mpanic p)" "keeps P (mget g)" "keeps P (massert b)"
  "keeps P (mlift v)"
  by (auto simp: keeps_def split: if_splits) (cases v; auto)

lemma keeps_modify: "(\<And>s. P s \<Longrightarrow> P (h s)) \<Longrightarrow> keeps P (mmodify h)"
  by (auto simp: keeps_def)

lemma keeps_bind [keeps_intros]:
  assumes "keeps P m" and "\<And>x. keeps P (f x)"
  shows "keeps P (mbind m f)"
proof (rule keepsI)
  fix s r t assume s: "P s" and run: "mbind m f s = Some (r, t)"
  then obtain r' t' where m: "m s = Some (r', t')" by (cases "m s") (auto simp: mbind_run)
  then have "P t'" using assms(1) s by (simp add: keeps_def)
  then show "P t" using run m assms(2) by (cases r') (auto simp: mbind_run keeps_def)
qed

text \<open>A computation that starts by reading the state may use what is known of it.\<close>

lemma keeps_get_bind:
  assumes "\<And>s0. P s0 \<Longrightarrow> keeps P (f (g s0))"
  shows "keeps P (mbind (mget g) f)"
proof (rule keepsI)
  fix s r t assume s: "P s" and "mbind (mget g) f s = Some (r, t)"
  then have "f (g s) s = Some (r, t)" by (simp add: mbind_run)
  with assms [OF s] s show "P t" by (simp add: keeps_def)
qed

lemma keeps_ignore [keeps_intros]: "keeps P m \<Longrightarrow> keeps P (mignore m)"
  by (fastforce simp: keeps_def mignore_def split: option.splits outcome.splits)

lemma keeps_if [keeps_intros]: "keeps P m \<Longrightarrow> keeps P m' \<Longrightarrow> keeps P (if b then m else m')"
  by simp

lemma keeps_prod [keeps_intros]: "(\<And>a b. keeps P (f a b)) \<Longrightarrow> keeps P (case p of (a, b) \<Rightarrow> f a b)"
  by (cases p) simp

lemma keeps_option [keeps_intros]:
  "keeps P m \<Longrightarrow> (\<And>x. keeps P (f x)) \<Longrightarrow> keeps P (case p of None \<Rightarrow> m | Some x \<Rightarrow> f x)"
  by (cases p) simp_all

lemma keeps_let [keeps_intros]: "(\<And>x. keeps P (f x)) \<Longrightarrow> keeps P (let x = y in f x)"
  by (simp add: Let_def)

lemma keeps_fold [keeps_intros]:
  "(\<And>x acc. x \<in> set xs \<Longrightarrow> keeps P (body x acc)) \<Longrightarrow> keeps P (mfold body xs acc)"
  by (induction xs arbitrary: acc) (auto intro: keeps_intros)

lemma keeps_zoom:
  assumes "keeps P' m" and "\<And>s. P s \<Longrightarrow> P' (get s)" and "\<And>s t. P s \<Longrightarrow> P' t \<Longrightarrow> P (put t s)"
  shows "keeps P (mzoom get put m)"
proof (rule keepsI)
  fix s r t assume "P s" and "mzoom get put m s = Some (r, t)"
  then obtain t' where "m (get s) = Some (r, t')" "t = put t' s"
    by (auto simp: mzoom_run split: option.splits)
  then show "P t" using assms \<open>P s\<close> by (auto dest: keepsD)
qed

subsection \<open>States and values at the end\<close>

named_theorems ends_intros \<open>what a computation ends with\<close>

definition ends :: "('s \<Rightarrow> bool) \<Rightarrow> ('s, 'a) comp \<Rightarrow> 's \<Rightarrow> ('a \<Rightarrow> 's \<Rightarrow> bool) \<Rightarrow> bool" where
  "ends R m s Q \<longleftrightarrow> (\<forall>r t. m s = Some (r, t) \<longrightarrow> R t \<and> (\<forall>x. r = Ret x \<longrightarrow> Q x t))"

lemma endsI: "(\<And>r t. m s = Some (r, t) \<Longrightarrow> R t) \<Longrightarrow> (\<And>x t. m s = Some (Ret x, t) \<Longrightarrow> Q x t) \<Longrightarrow> ends R m s Q"
  by (auto simp: ends_def)

lemma endsD: "ends R m s Q \<Longrightarrow> m s = Some (r, t) \<Longrightarrow> R t" "ends R m s Q \<Longrightarrow> m s = Some (Ret x, t) \<Longrightarrow> Q x t"
  by (auto simp: ends_def)

lemma ends_mono: "ends R m s Q \<Longrightarrow> (\<And>x t. R t \<Longrightarrow> Q x t \<Longrightarrow> Q' x t) \<Longrightarrow> ends R m s Q'"
  by (auto simp: ends_def)

lemma ends_bind [ends_intros]:
  assumes "ends R m s (\<lambda>x t. ends R (f x) t Q)"
  shows "ends R (mbind m f) s Q"
  using assms by (auto simp: ends_def mbind_run split: option.splits outcome.splits)

lemma ends_seq:
  assumes "ends R m s P" and "\<And>x t. R t \<Longrightarrow> P x t \<Longrightarrow> ends R (f x) t Q"
  shows "ends R (mbind m f) s Q"
  by (rule ends_bind, rule ends_mono [OF assms(1)], rule assms(2))

lemma ends_get: "ends R (f (g s)) s Q \<Longrightarrow> ends R (mbind (mget g) f) s Q"
  by (simp add: ends_def mbind_run)

lemma ends_value [simp]:
  "ends R (mret x) s Q \<longleftrightarrow> R s \<and> Q x s" "ends R (merr e) s Q \<longleftrightarrow> R s" "ends R (mpanic p) s Q \<longleftrightarrow> R s"
  "ends R (mget g) s Q \<longleftrightarrow> R s \<and> Q (g s) s"
  by (auto simp: ends_def)

lemma ends_unit [simp]:
  "ends R (mmodify h) s Q \<longleftrightarrow> R (h s) \<and> Q () (h s)" "ends R (massert b) s Q \<longleftrightarrow> R s \<and> (b \<longrightarrow> Q () s)"
  by (auto simp: ends_def)

lemma ends_lift: "R s \<Longrightarrow> (\<And>x. v = Inr x \<Longrightarrow> Q x s) \<Longrightarrow> ends R (mlift v) s Q"
  by (cases v) (auto simp: ends_def)

lemma ends_keeps: "keeps P m \<Longrightarrow> P s \<Longrightarrow> (\<And>t. P t \<Longrightarrow> R t) \<Longrightarrow> (\<And>x t. P t \<Longrightarrow> Q x t) \<Longrightarrow> ends R m s Q"
  by (auto simp: ends_def dest: keepsD)

lemma ends_any: "(\<And>x t. ends (\<lambda>_. True) (f x) t Q) \<Longrightarrow> ends (\<lambda>_. True) (mbind m f) s Q"
  by (rule ends_seq [where P = "\<lambda>_ _. True"]) (simp_all add: ends_def)

end
