(* ===== verification/Device_Inv.thy ===== *)
theory Device_Inv
  imports Page_Lists Comp_Logic
begin

text \<open>
  What the device keeps through every operation, whatever the controller does: its rings stay
  inside their memory, its regions stay where they are, and the driver writes to no memory but its
  own regions. \<open>dev_step\<close> is one operation of \<^verbatim>\<open>NvmeDevice\<close> (\<^verbatim>\<open>src/src/nvme.rs\<close>), however it ends,
  or a step the controller takes by itself; \<open>dev_reaches\<close> is a sequence of them.
\<close>

unbundle bit_operations_syntax

subsection \<open>The invariant\<close>

definition sq_within :: "submission_queue \<Rightarrow> bool" where
  "sq_within sq \<longleftrightarrow> 0 < sq_len sq \<and> sq_len sq \<le> QUEUE_LENGTH \<and> sq_tail sq < sq_len sq
     \<and> 64 * 16384 \<le> unat (dsize (sq_commands sq))"

definition cq_within :: "completion_queue \<Rightarrow> bool" where
  "cq_within cq \<longleftrightarrow> 0 < cq_len cq \<and> cq_len cq \<le> QUEUE_LENGTH \<and> cq_head cq < cq_len cq
     \<and> 16 * 16384 \<le> unat (dsize (cq_commands cq))"

definition dev_ok :: "'m nvme_device \<Rightarrow> bool" where
  "dev_ok dev \<longleftrightarrow> sq_within (admin_sq dev) \<and> cq_within (admin_cq dev) \<and> sq_within (io_sq dev)
     \<and> cq_within (io_cq dev) \<and> 4096 \<le> unat (dsize (buffer dev)) \<and> 4096 \<le> unat (dsize (prp_list dev))"

text \<open>What is fixed once a device has been built.\<close>

definition sq_frame :: "submission_queue \<Rightarrow> dma \<times> usize \<times> usize" where
  "sq_frame sq = (sq_commands sq, sq_len sq, sq_doorbell sq)"

definition cq_frame :: "completion_queue \<Rightarrow> dma \<times> usize \<times> usize" where
  "cq_frame cq = (cq_commands cq, cq_len cq, cq_doorbell cq)"

definition same_layout :: "'m nvme_device \<Rightarrow> 'm nvme_device \<Rightarrow> bool" where
  "same_layout dev0 dev \<longleftrightarrow> dev_addr dev = dev_addr dev0 \<and> dev_len dev = dev_len dev0 \<and> dstrd dev = dstrd dev0
     \<and> sq_frame (admin_sq dev) = sq_frame (admin_sq dev0) \<and> cq_frame (admin_cq dev) = cq_frame (admin_cq dev0)
     \<and> sq_frame (io_sq dev) = sq_frame (io_sq dev0) \<and> cq_frame (io_cq dev) = cq_frame (io_cq dev0)
     \<and> buffer dev = buffer dev0 \<and> prp_list dev = prp_list dev0 \<and> pci_addr dev = pci_addr dev0"

text \<open>The memory the driver itself writes to.\<close>

definition dev_memory :: "'m nvme_device \<Rightarrow> usize set" where
  "dev_memory dev = region (sq_commands (admin_sq dev)) \<union> region (sq_commands (io_sq dev))
     \<union> region (buffer dev) \<union> region (prp_list dev)"

definition mem_frame :: "usize set \<Rightarrow> memory \<Rightarrow> 'd world \<Rightarrow> bool" where
  "mem_frame S m0 w \<longleftrightarrow> (\<forall>x. x \<notin> S \<longrightarrow> wmem w x = m0 x)"

text \<open>
  A named assumption on what lies outside the driver: controller and allocator change memory only
  inside \<open>S\<close>, as an IOMMU enforces for the controller.
\<close>

definition confined :: "'d hw \<Rightarrow> usize set \<Rightarrow> bool" where
  "confined hw S \<longleftrightarrow> (\<forall>w x. x \<notin> S \<longrightarrow>
     wmem (hw_tick hw w) x = wmem w x
   \<and> (\<forall>a v. wmem (hw_write32 hw a v w) x = wmem w x) \<and> (\<forall>a v. wmem (hw_write64 hw a v w) x = wmem w x)
   \<and> (\<forall>a. wmem (snd (hw_read32 hw a w)) x = wmem w x) \<and> (\<forall>a. wmem (snd (hw_read64 hw a w)) x = wmem w x)
   \<and> wmem (snd (hw_now hw w)) x = wmem w x)"

definition confined_ops :: "('m, 'd) mapping_ops \<Rightarrow> usize set \<Rightarrow> bool" where
  "confined_ops ops S \<longleftrightarrow> (\<forall>mem m0.
     (\<forall>n. keeps (mem_frame S m0) (op_allocate ops mem n)) \<and> (\<forall>d. keeps (mem_frame S m0) (op_deallocate ops mem d))
   \<and> keeps (mem_frame S m0) (op_map_resource ops mem))"

lemma word_mod_less: "0 < (n :: usize) \<Longrightarrow> x mod n < n"
  by (simp add: word_less_nat_alt unat_mod_word)

lemma mem_frame_write:
  assumes "mem_frame S m0 w" and "T \<subseteq> S" and "\<And>x. x \<notin> T \<Longrightarrow> m' x = wmem w x"
  shows "mem_frame S m0 (w\<lparr>wmem := m'\<rparr>)"
  using assms(1,3) contra_subsetD [OF assms(2)] by (simp add: mem_frame_def)

lemma confined_keeps:
  assumes "confined hw S" and "mem_frame S m0 w"
  shows "mem_frame S m0 (hw_tick hw w)" "mem_frame S m0 (hw_write32 hw a v w)" "mem_frame S m0 (hw_write64 hw a v' w)"
    "mem_frame S m0 (snd (hw_read32 hw a w))" "mem_frame S m0 (snd (hw_read64 hw a w))" "mem_frame S m0 (snd (hw_now hw w))"
  using assms by (simp_all add: confined_def mem_frame_def)

subsection \<open>Rings\<close>

lemma sq_submit_keeps:
  assumes "region (sq_commands q) \<subseteq> S"
  shows "keeps (\<lambda>(sq, w). sq_within sq \<and> sq_frame sq = sq_frame q \<and> mem_frame S m0 w) (sq_submit e)"
proof (rule keepsI, clarify)
  fix sq w r sq' w'
  assume ok: "sq_within sq" and f: "sq_frame sq = sq_frame q" and m: "mem_frame S m0 w"
    and run: "sq_submit e (sq, w) = Some (r, (sq', w'))"
  let ?t = "(sq_tail sq + 1) mod sq_len sq"
  have L: "0 < unat (sq_len sq)" "sq_len sq \<noteq> 0" using ok by (auto simp: sq_within_def word_less_nat_alt)
  have "sq_tail sq < 16384" using ok unfolding sq_within_def by (auto intro: less_le_trans)
  then have t: "unat (sq_tail sq) < 16384" "sq_tail sq < QUEUE_LENGTH" by (simp_all add: word_less_nat_alt)
  have "sq_commands sq = sq_commands q" using f by (simp add: sq_frame_def)
  have slot: "virt (sq_commands q) + 64 * sq_tail sq = virt (sq_commands q) + of_nat (64 * unat (sq_tail sq))" by simp
  have "mem_write (wmem w) (virt (sq_commands q) + 64 * sq_tail sq) (encode_command e) x = wmem w x"
    if "x \<notin> region (sq_commands q)" for x
    unfolding slot using that ok t(1) \<open>sq_commands sq = sq_commands q\<close>
    by (intro mem_write_range [of _ _ "dsize (sq_commands q)"]) (auto simp: region_def sq_within_def)
  then have "mem_frame S m0 (w\<lparr>wmem := mem_write (wmem w) (virt (sq_commands q) + 64 * sq_tail sq) (encode_command e)\<rparr>)"
    by (rule mem_frame_write [OF m assms])
  moreover have "?t < sq_len sq" using L by (simp add: word_less_nat_alt unat_mod_word)
  ultimately show "sq_within sq' \<and> sq_frame sq' = sq_frame q \<and> mem_frame S m0 w'"
    using run ok f t(2) L(2) \<open>sq_commands sq = sq_commands q\<close>
    by (auto simp: sq_submit_def Let_def sq_within_def sq_frame_def)
qed

lemma sq_submit_checked_keeps:
  assumes "region (sq_commands q) \<subseteq> S"
  shows "keeps (\<lambda>(sq, w). sq_within sq \<and> sq_frame sq = sq_frame q \<and> mem_frame S m0 w) (sq_submit_checked e)"
  unfolding sq_submit_checked_def by (intro keeps_intros sq_submit_keeps assms)

abbreviation cq_state :: "completion_queue \<Rightarrow> usize set \<Rightarrow> memory \<Rightarrow> completion_queue \<times> 'd world \<Rightarrow> bool" where
  "cq_state q S m0 \<equiv> (\<lambda>(cq, w). cq_within cq \<and> cq_frame cq = cq_frame q \<and> mem_frame S m0 w)"

lemma cq_complete_keeps: "keeps (cq_state q S m0) cq_complete"
  by (rule keepsI) (auto simp: cq_complete_def Let_def cq_within_def cq_frame_def word_mod_less split: if_splits prod.splits)

lemma cq_complete_spin_keeps:
  fixes hw :: "'d hw"
  assumes "confined hw S"
  shows "keeps (cq_state q S m0) (cq_complete_spin hw)"
proof (rule keepsI)
  fix s r t
  assume s: "cq_state q S m0 s" and "cq_complete_spin hw s = Some (r, t)"
  moreover have "confined hw S \<longrightarrow> cq_state q S m0 s \<longrightarrow> cq_state q S m0 (snd y)"
    if "cq_complete_spin hw s = Some y" for s y and hw :: "'d hw"
    using that
  proof (rule cq_complete_spin.raw_induct [rotated])
    fix spin s y and hw :: "'d hw"
    assume IH: "\<And>hw s y. spin hw s = Some y \<Longrightarrow> confined hw S \<longrightarrow> cq_state q S m0 s \<longrightarrow> cq_state q S m0 (snd y)"
      and step: "(case cq_complete s of None \<Rightarrow> None | Some (r, t) \<Rightarrow> (case r of
            Ret v \<Rightarrow> (case v of Some val \<Rightarrow> Some (Ret val, t) | None \<Rightarrow> spin hw (fst t, hw_tick hw (snd t)))
          | Err e \<Rightarrow> Some (Err e, t) | Panic p \<Rightarrow> Some (Panic p, t))) = Some y"
    show "confined hw S \<longrightarrow> cq_state q S m0 s \<longrightarrow> cq_state q S m0 (snd y)"
    proof (intro impI)
      assume hw: "confined hw S" and s: "cq_state q S m0 s"
      obtain r t where c: "cq_complete s = Some (r, t)" using step by (auto split: option.splits)
      then have t: "cq_state q S m0 t" using keepsD [OF cq_complete_keeps] s by blast
      show "cq_state q S m0 (snd y)"
      proof (cases "r = Ret None")
        case True
        then have "spin hw (fst t, hw_tick hw (snd t)) = Some y" using step c by simp
        from IH [OF this] hw have "cq_state q S m0 (fst t, hw_tick hw (snd t)) \<longrightarrow> cq_state q S m0 (snd y)" by (rule mp)
        moreover have "cq_state q S m0 (fst t, hw_tick hw (snd t))"
          using t confined_keeps(1) [OF hw] by auto
        ultimately show ?thesis by (rule mp)
      next
        case False
        then have "snd y = t" using step c by (auto split: outcome.splits option.splits)
        then show ?thesis using t by simp
      qed
    qed
  qed
  ultimately show "cq_state q S m0 t" using assms by fastforce
qed

lemma cq_complete_n_keeps:
  assumes "confined hw S"
  shows "keeps (cq_state q S m0) (cq_complete_n hw n)"
proof -
  have spin: "keeps (cq_state q S m0) (mbind (cq_complete_spin hw) (\<lambda>(head, entry, _). mret (head, entry, prev)))" for prev
    by (intro keeps_intros cq_complete_spin_keeps [OF assms])
  show ?thesis
  proof (rule keepsI, clarify)
    fix cq w r cq' w'
    assume ok: "cq_within cq" and f: "cq_frame cq = cq_frame q" and m: "mem_frame S m0 w"
      and run: "cq_complete_n hw n (cq, w) = Some (r, (cq', w'))"
    let ?cq = "cq\<lparr>cq_head := (cq_head cq + (n - 1)) mod cq_len cq,
      cq_phase := if cq_len cq \<le> cq_head cq + (n - 1) then \<not> cq_phase cq else cq_phase cq\<rparr>"
    have "cq_len cq \<noteq> 0" using ok by (auto simp: cq_within_def)
    then have "mbind (cq_complete_spin hw) (\<lambda>(head, entry, _). mret (head, entry, cq_head cq)) (?cq, w) = Some (r, (cq', w'))"
      using run by (simp add: cq_complete_n_def Let_def)
    moreover have "cq_state q S m0 (?cq, w)"
      using ok f m by (auto simp: cq_within_def cq_frame_def word_mod_less)
    ultimately show "cq_within cq' \<and> cq_frame cq' = cq_frame q \<and> mem_frame S m0 w'"
      using keepsD [OF spin] by fastforce
  qed
qed

subsection \<open>Operations of the device\<close>

definition dev_inv :: "'m nvme_device \<Rightarrow> usize set \<Rightarrow> memory \<Rightarrow> ('m, 'd) dev_state \<Rightarrow> bool" where
  "dev_inv dev0 S m0 = (\<lambda>(dev, w). dev_ok dev \<and> same_layout dev0 dev \<and> mem_frame S m0 w)"

definition guarded :: "'d hw \<Rightarrow> usize set \<Rightarrow> 'm nvme_device \<Rightarrow> bool" where
  "guarded hw S dev0 \<longleftrightarrow> confined hw S \<and> dev_memory dev0 \<subseteq> S"

named_theorems dev_keeps \<open>operations that keep the invariant of the device\<close>

lemma keeps_on_sq:
  assumes "\<And>q. region (sq_commands q) \<subseteq> S \<Longrightarrow>
      keeps (\<lambda>(sq, w). sq_within sq \<and> sq_frame sq = sq_frame q \<and> mem_frame S m0 w) m"
    and "dev_memory dev0 \<subseteq> S"
  shows "keeps (dev_inv dev0 S m0) (on_admin_sq m)" "keeps (dev_inv dev0 S m0) (on_io_sq m)"
proof -
  have r: "region (sq_commands (admin_sq dev0)) \<subseteq> S" "region (sq_commands (io_sq dev0)) \<subseteq> S"
    using assms(2) by (auto simp: dev_memory_def)
  show "keeps (dev_inv dev0 S m0) (on_admin_sq m)"
    unfolding on_admin_sq_def
    by (rule keeps_zoom [OF assms(1) [OF r(1)]]) (auto simp: dev_inv_def same_layout_def dev_ok_def)
  show "keeps (dev_inv dev0 S m0) (on_io_sq m)"
    unfolding on_io_sq_def
    by (rule keeps_zoom [OF assms(1) [OF r(2)]]) (auto simp: dev_inv_def same_layout_def dev_ok_def)
qed

lemma keeps_on_cq:
  assumes "\<And>q. keeps (cq_state q S m0) m"
  shows "keeps (dev_inv dev0 S m0) (on_admin_cq m)" "keeps (dev_inv dev0 S m0) (on_io_cq m)"
proof -
  show "keeps (dev_inv dev0 S m0) (on_admin_cq m)"
    unfolding on_admin_cq_def
    by (rule keeps_zoom [OF assms(1) [of "admin_cq dev0"]]) (auto simp: dev_inv_def same_layout_def dev_ok_def)
  show "keeps (dev_inv dev0 S m0) (on_io_cq m)"
    unfolding on_io_cq_def
    by (rule keeps_zoom [OF assms(1) [of "io_cq dev0"]]) (auto simp: dev_inv_def same_layout_def dev_ok_def)
qed

lemma keeps_queues [dev_keeps]:
  assumes "guarded hw S dev0"
  shows "keeps (dev_inv dev0 S m0) (on_admin_sq (sq_submit e))" "keeps (dev_inv dev0 S m0) (on_io_sq (sq_submit e))"
    "keeps (dev_inv dev0 S m0) (on_io_sq (sq_submit_checked e))"
    "keeps (dev_inv dev0 S m0) (on_admin_cq (cq_complete_spin hw))" "keeps (dev_inv dev0 S m0) (on_io_cq (cq_complete_n hw n))"
  using assms
  by (auto simp: guarded_def intro: keeps_on_sq sq_submit_keeps sq_submit_checked_keeps keeps_on_cq
      cq_complete_spin_keeps cq_complete_n_keeps)

lemma keeps_registers [dev_keeps]:
  assumes "guarded hw S dev0"
  shows "keeps (dev_inv dev0 S m0) (write_volatile32 hw a v)" "keeps (dev_inv dev0 S m0) (write_volatile64 hw a v')"
    "keeps (dev_inv dev0 S m0) (read_volatile32 hw a)" "keeps (dev_inv dev0 S m0) (read_volatile64 hw a)"
    "keeps (dev_inv dev0 S m0) (instant_now hw)"
  using assms confined_keeps(2-6) [of hw S m0]
  by (auto simp: guarded_def dev_inv_def keeps_def write_volatile32_def write_volatile64_def read_volatile32_def
      read_volatile64_def instant_now_def split: prod.splits) (metis snd_conv)+

lemma keeps_register_access [dev_keeps]:
  assumes "guarded hw S dev0"
  shows "keeps (dev_inv dev0 S m0) (write_reg_idx hw reg qid v)" "keeps (dev_inv dev0 S m0) (set_reg32 hw r x)"
    "keeps (dev_inv dev0 S m0) (get_reg32 hw r)" "keeps (dev_inv dev0 S m0) (set_reg64 hw r y)"
    "keeps (dev_inv dev0 S m0) (get_reg64 hw z)"
  unfolding write_reg_idx_def set_reg32_def get_reg32_def set_reg64_def get_reg64_def
  by (cases reg; intro keeps_intros; simp; intro keeps_intros dev_keeps [OF assms])
    (intro keeps_intros dev_keeps [OF assms])+

lemma keeps_admin [dev_keeps]:
  assumes "guarded hw S dev0"
  shows "keeps (dev_inv dev0 S m0) (submit_and_complete_admin hw cmd)"
  unfolding submit_and_complete_admin_def by (intro keeps_intros dev_keeps [OF assms])

lemma keeps_dev_update:
  assumes "\<And>dev. dev_ok dev \<Longrightarrow> dev_ok (f dev)" and "\<And>dev. same_layout dev0 dev \<Longrightarrow> same_layout dev0 (f dev)"
  shows "keeps (dev_inv dev0 S m0) (mmodify (\<lambda>(dev, w). (f dev, w)))"
  using assms by (auto simp: dev_inv_def intro!: keeps_modify)

lemma keeps_device_fields [dev_keeps]:
  assumes "guarded hw S dev0"
  shows "keeps (dev_inv dev0 S m0) (mmodify (\<lambda>(dev, w). (dev\<lparr>namespaces := f dev\<rparr>, w)))"
    "keeps (dev_inv dev0 S m0) (mmodify (\<lambda>(dev, w). (dev\<lparr>stats := g dev\<rparr>, w)))"
    "keeps (dev_inv dev0 S m0) (mmodify (\<lambda>(dev, w). (dev\<lparr>dev_q_id := h dev\<rparr>, w)))"
    "keeps (dev_inv dev0 S m0) (mmodify (\<lambda>(dev, w). (dev\<lparr>allocator := k dev\<rparr>, w)))"
    "keeps (dev_inv dev0 S m0) (mmodify (\<lambda>(dev, w). (dev\<lparr>io_sq := (io_sq dev)\<lparr>sq_head := j\<rparr>\<rparr>, w)))"
  by (rule keeps_dev_update; simp add: dev_ok_def same_layout_def sq_within_def sq_frame_def)+

lemma keeps_store_prp [dev_keeps]:
  assumes "guarded hw S dev0"
  shows "keeps (dev_inv dev0 S m0) (store_prp i v)"
proof (rule keepsI, clarify)
  fix dev w r dev' w'
  assume inv: "dev_inv dev0 S m0 (dev, w)" and run: "store_prp i v (dev, w) = Some (r, (dev', w'))"
  have "prp_list dev = prp_list dev0" "4096 \<le> unat (dsize (prp_list dev0))" "mem_frame S m0 w"
    using inv by (auto simp: dev_inv_def same_layout_def dev_ok_def)
  moreover have "region (prp_list dev0) \<subseteq> S" using assms by (auto simp: guarded_def dev_memory_def)
  ultimately have "mem_frame S m0 (w\<lparr>wmem := mem_write (wmem w) (cell (virt (prp_list dev)) 8 i) (le_bytes 8 v)\<rparr>)" if "i < 512"
    using that by (intro mem_frame_write) (auto simp: cell_def region_def simp del: of_nat_mult intro!: mem_write_range)
  then show "dev_inv dev0 S m0 (dev', w')" using inv run by (auto simp: store_prp_def dev_inv_def split: if_splits)
qed

lemma keeps_buffer_store:
  assumes "guarded hw S dev0" and "length bs < 2 ^ 64"
  shows "keeps (dev_inv dev0 S m0) (buffer_store bs)"
proof (rule keepsI, clarify)
  fix dev w r dev' w'
  assume inv: "dev_inv dev0 S m0 (dev, w)" and run: "buffer_store bs (dev, w) = Some (r, (dev', w'))"
  have b: "buffer dev = buffer dev0" "mem_frame S m0 w"
    using inv by (auto simp: dev_inv_def same_layout_def dev_ok_def)
  have "region (buffer dev0) \<subseteq> S" using assms by (auto simp: guarded_def dev_memory_def)
  with b(2) have "mem_frame S m0 (w\<lparr>wmem := mem_write (wmem w) (virt (buffer dev)) bs\<rparr>)" if "len_u64 bs \<le> dsize (buffer dev)"
  proof (rule mem_frame_write)
    fix x assume x: "x \<notin> region (buffer dev0)"
    have "length bs \<le> unat (dsize (buffer dev0))"
      using that b(1) assms(2) by (simp add: word_le_nat_alt len_u64_def unat_of_nat_u64)
    then show "mem_write (wmem w) (virt (buffer dev)) bs x = wmem w x"
      using mem_write_range [of 0 bs "dsize (buffer dev0)" x] x b(1) by (simp add: region_def)
  qed
  then show "dev_inv dev0 S m0 (dev', w')" using inv run
    by (auto simp: buffer_store_def dev_inv_def dma_index_to_def dma_index_range_def run_simps split: if_splits)
qed

lemma length_slice_chunks: "c \<in> set (slice_chunks n xs) \<Longrightarrow> length c \<le> n"
proof (induction n xs rule: slice_chunks.induct)
  case (1 n xs)
  then show ?case by (subst (asm) slice_chunks.simps) (auto split: if_splits)
qed

lemma keeps_loads [dev_keeps]:
  assumes "guarded hw S dev0"
  shows "keeps (dev_inv dev0 S m0) (buffer_load n)" "keeps (dev_inv dev0 S m0) (lookup_namespace i)"
    "keeps (dev_inv dev0 S m0) (checked_div a b)" "keeps (dev_inv dev0 S m0) (buffer_string start stop)"
  unfolding buffer_load_def lookup_namespace_def checked_div_def buffer_string_def by (intro keeps_intros)+

lemma keeps_for_chunks: "(\<And>c acc. keeps P (body c acc)) \<Longrightarrow> keeps P (for_chunks data n body acc)"
  by (cases "dma_chunks_collect (chunks data n)") (simp_all add: for_chunks_def keeps_fold, simp add: keeps_def)

lemma keeps_identify [dev_keeps]:
  assumes "guarded hw S dev0"
  shows "keeps (dev_inv dev0 S m0) (format_namespace hw i)" "keeps (dev_inv dev0 S m0) (identify_controller_print hw)"
    "keeps (dev_inv dev0 S m0) (identify_controller hw)"
    "keeps (dev_inv dev0 S m0) (identify_namespace_list hw base)" "keeps (dev_inv dev0 S m0) (identify_namespace hw n)"
  unfolding format_namespace_def identify_controller_print_def identify_controller_def identify_namespace_list_def identify_namespace_def
  by (intro keeps_intros dev_keeps [OF assms])+

lemma keeps_io [dev_keeps]:
  assumes "guarded hw S dev0"
  shows "keeps (dev_inv dev0 S m0) count_submission"
    "keeps (dev_inv dev0 S m0) (dev_complete_io hw step)" "keeps (dev_inv dev0 S m0) (take_completions hw step)"
    "keeps (dev_inv dev0 S m0) (namespace_io hw nsid blocks lba addr wr)" "keeps (dev_inv dev0 S m0) (dev_submit_io ns addr blocks lba wr)"
  unfolding namespace_io_def take_completions_def dev_complete_io_def dev_submit_io_def count_submission_def
  by (intro keeps_intros dev_keeps [OF assms])+

lemma keeps_transfers [dev_keeps]:
  assumes "guarded hw S dev0"
  shows "keeps (dev_inv dev0 S m0) (nvme_write hw data lba)" "keeps (dev_inv dev0 S m0) (nvme_read hw data lba)"
    "keeps (dev_inv dev0 S m0) (write_prp hw data lba wr)"
  unfolding nvme_write_def nvme_read_def write_prp_def transfer_chunk_def write_prp_chunk_def store_pages_def
  by (intro keeps_intros keeps_for_chunks dev_keeps [OF assms])+

lemma keeps_chunk_store:
  assumes "guarded hw S dev0" and "chunk \<in> set (slice_chunks n data)" and "n < 2 ^ 64"
  shows "keeps (dev_inv dev0 S m0) (buffer_store chunk)"
  using length_slice_chunks [OF assms(2)] assms(3) by (intro keeps_buffer_store [OF assms(1)]) simp

lemma keeps_copies [dev_keeps]:
  assumes "guarded hw S dev0"
  shows "keeps (dev_inv dev0 S m0) (write_copied hw data lba)" "keeps (dev_inv dev0 S m0) (read_copied hw data lba)"
  unfolding write_copied_def read_copied_def
  by (intro keeps_intros dev_keeps [OF assms] keeps_chunk_store [OF assms], assumption?, simp?)+

lemma keeps_batches [dev_keeps]:
  assumes "guarded hw S dev0"
  shows "keeps (dev_inv dev0 S m0) (batch_chunk hw ns wr len batch_len lba)"
  unfolding batch_chunk_def submit_batch_def by (intro keeps_intros dev_keeps [OF assms])

lemma keeps_batched [dev_keeps]:
  assumes "guarded hw S dev0"
  shows "keeps (dev_inv dev0 S m0) (batched_write hw nsid data lba batch_len)"
    "keeps (dev_inv dev0 S m0) (batched_read hw nsid data lba batch_len)"
  unfolding batched_write_def batched_read_def
  by (intro keeps_intros dev_keeps [OF assms] keeps_chunk_store [OF assms], assumption?, simp?)+

lemma keeps_on_world:
  assumes "keeps (mem_frame S m0) m"
  shows "keeps (dev_inv dev0 S m0) (on_world m)"
  unfolding on_world_def by (rule keeps_zoom [OF assms]) (auto simp: dev_inv_def)

lemma keeps_allocator:
  assumes "confined_ops ops S"
  shows "keeps (dev_inv dev0 S m0) (on_world (op_allocate ops mem n))" "keeps (dev_inv dev0 S m0) (on_world (op_deallocate ops mem d))"
    "keeps (dev_inv dev0 S m0) (on_world (op_map_resource ops mem))"
    "keeps (dev_inv dev0 S m0) (on_world (cq_new (op_allocate ops mem) len db))" "keeps (dev_inv dev0 S m0) (on_world (sq_new (op_allocate ops mem) len db))"
  using assms by (auto simp: confined_ops_def cq_new_def sq_new_def intro!: keeps_on_world keeps_intros)

lemma keeps_pairs:
  assumes "guarded hw S dev0" and "confined_ops ops S"
  shows "keeps (dev_inv dev0 S m0) (create_io_queue_pair hw ops len)" "keeps (dev_inv dev0 S m0) (delete_io_queue_pair hw ops qpair)"
    "keeps (dev_inv dev0 S m0) (dev_allocate ops n)" "keeps (dev_inv dev0 S m0) (dev_deallocate ops d)"
    "keeps (dev_inv dev0 S m0) (dev_map_resource ops)" "keeps (dev_inv dev0 S m0) (set_page_size ops p)"
  unfolding create_io_queue_pair_def delete_io_queue_pair_def dev_allocate_def dev_deallocate_def dev_map_resource_def set_page_size_def
  by (intro keeps_intros dev_keeps [OF assms(1)] keeps_allocator [OF assms(2)])+

subsection \<open>Sequences of operations\<close>

text \<open>One operation, with whatever outcome, or a step of the controller.\<close>

inductive dev_step :: "'d hw \<Rightarrow> ('m, 'd) mapping_ops \<Rightarrow> ('m, 'd) dev_state \<Rightarrow> ('m, 'd) dev_state \<Rightarrow> bool"
  for hw :: "'d hw" and ops :: "('m, 'd) mapping_ops" where
  controller: "dev_step hw ops (dev, w) (dev, hw_tick hw w)"
| identify_controller: "identify_controller hw s = Some (r', t) \<Longrightarrow> dev_step hw ops s t"
| identify_controller_print: "identify_controller_print hw s = Some (r, t) \<Longrightarrow> dev_step hw ops s t"
| identify_namespace_list: "identify_namespace_list hw base s = Some (r, t) \<Longrightarrow> dev_step hw ops s t"
| identify_namespace: "identify_namespace hw i s = Some (r, t) \<Longrightarrow> dev_step hw ops s t"
| format_namespace: "format_namespace hw ns s = Some (r, t) \<Longrightarrow> dev_step hw ops s t"
| create_pair: "create_io_queue_pair hw ops len s = Some (r, t) \<Longrightarrow> dev_step hw ops s t"
| delete_pair: "delete_io_queue_pair hw ops qpair s = Some (r, t) \<Longrightarrow> dev_step hw ops s t"
| "write": "nvme_write hw data lba s = Some (r, t) \<Longrightarrow> dev_step hw ops s t"
| "read": "nvme_read hw data lba s = Some (r, t) \<Longrightarrow> dev_step hw ops s t"
| write_prp: "write_prp hw data lba wr s = Some (r, t) \<Longrightarrow> dev_step hw ops s t"
| write_copied: "write_copied hw bytes lba s = Some (r, t) \<Longrightarrow> dev_step hw ops s t"
| read_copied: "read_copied hw bytes lba s = Some (r, t) \<Longrightarrow> dev_step hw ops s t"
| batched_write: "batched_write hw nsid bytes lba batch s = Some (r, t) \<Longrightarrow> dev_step hw ops s t"
| batched_read: "batched_read hw nsid bytes lba batch s = Some (r, t) \<Longrightarrow> dev_step hw ops s t"
| set_page_size: "set_page_size ops p s = Some (r, t) \<Longrightarrow> dev_step hw ops s t"
| allocate: "dev_allocate ops n s = Some (r, t) \<Longrightarrow> dev_step hw ops s t"
| deallocate: "dev_deallocate ops d s = Some (r, t) \<Longrightarrow> dev_step hw ops s t"
| map_resource: "dev_map_resource ops s = Some (r, t) \<Longrightarrow> dev_step hw ops s t"

inductive dev_reaches :: "'d hw \<Rightarrow> ('m, 'd) mapping_ops \<Rightarrow> ('m, 'd) dev_state \<Rightarrow> ('m, 'd) dev_state \<Rightarrow> bool"
  for hw :: "'d hw" and ops :: "('m, 'd) mapping_ops" and s0 :: "('m, 'd) dev_state" where
  start: "dev_reaches hw ops s0 s0"
| step: "dev_reaches hw ops s0 s \<Longrightarrow> dev_step hw ops s t \<Longrightarrow> dev_reaches hw ops s0 t"

lemma dev_step_inv:
  assumes "guarded hw S dev0" and "confined_ops ops S" and "dev_step hw ops s t" and "dev_inv dev0 S m0 s"
  shows "dev_inv dev0 S m0 t"
  using assms(3,4)
proof (cases rule: dev_step.cases)
  case (controller dev w)
  then show ?thesis
    using assms(1,4) confined_keeps(1) [of hw S m0 w] by (auto simp: dev_inv_def guarded_def)
qed (auto intro: keepsD dev_keeps [OF assms(1)] keeps_pairs [OF assms(1,2)])

lemma dev_reaches_inv:
  assumes "guarded hw S dev0" and "confined_ops ops S" and "dev_reaches hw ops s t" and "dev_inv dev0 S m0 s"
  shows "dev_inv dev0 S m0 t"
  using assms(3,4) by (induction rule: dev_reaches.induct) (auto intro: dev_step_inv [OF assms(1,2)])

text \<open>
  C37. The invariant of the device. Whatever sequence of its operations an application calls, with
  whatever arguments and outcomes, and whatever the controller answers, reports as heads or does in
  between: the indices of all four rings stay below their lengths and the rings inside their memory,
  and registers, ring memory, buffer and page list stay where they are. If controller and allocator
  write only inside \<open>S\<close>, and \<open>S\<close> contains the two submission rings, the buffer and the page list, no
  byte outside \<open>S\<close> ever changes: the driver itself writes nowhere else.
\<close>

theorem device_invariant:
  assumes "dev_ok dev" and "confined hw S" and "confined_ops ops S" and "dev_memory dev \<subseteq> S"
    and "dev_reaches hw ops (dev, w) (dev', w')"
  shows "dev_ok dev' \<and> same_layout dev dev' \<and> (\<forall>x. x \<notin> S \<longrightarrow> wmem w' x = wmem w x)"
proof -
  have "dev_inv dev S (wmem w) (dev, w)"
    using assms(1) by (simp add: dev_inv_def same_layout_def mem_frame_def)
  moreover have "guarded hw S dev" using assms(2,4) by (simp add: guarded_def)
  ultimately have "dev_inv dev S (wmem w) (dev', w')"
    using dev_reaches_inv [OF _ assms(3,5)] by blast
  then show ?thesis by (simp add: dev_inv_def mem_frame_def)
qed

text \<open>The controller for concrete runs writes completions only.\<close>

lemma sync_hw_confined:
  assumes "0 < unat (cq_len cq)" and "16 * unat (cq_len cq) \<le> unat (dsize (cq_commands cq))"
    and "region (cq_commands cq) \<subseteq> S"
  shows "confined (sync_hw sqdb sq cq) S"
proof -
  have "mem_write m (cell (virt (cq_commands cq)) 16 (k mod unat (cq_len cq))) (encode_completion c) x = m x"
    if "x \<notin> S" for m k c x
  proof -
    have "k mod unat (cq_len cq) < unat (cq_len cq)" using assms(1) by simp
    then have "16 * (k mod unat (cq_len cq)) + length (encode_completion c) \<le> unat (dsize (cq_commands cq))"
      using assms(2) by simp
    then show ?thesis
      unfolding cell_def using that assms(3) by (intro mem_write_range) (auto simp: region_def)
  qed
  then show ?thesis by (simp add: confined_def sync_hw_def Let_def)
qed

lemma demo_ops_confined: "confined_ops demo_ops S"
  by (simp add: confined_ops_def demo_ops_def keeps_intros)

theorem device_invariant_witness:
  "\<exists>dev' w'. format_namespace demo_admin_hw None (demo_dev, blank_world []) = Some (Ret (), (dev', w'))
    \<and> dev_ok dev' \<and> same_layout demo_dev dev'
    \<and> (\<forall>x. x \<notin> dev_memory demo_dev \<union> region (cq_commands (admin_cq demo_dev)) \<longrightarrow> wmem w' x = 0)"
proof -
  let ?S = "dev_memory demo_dev \<union> region (cq_commands (admin_cq demo_dev))"
  let ?cmd = "\<lambda>cid (_ :: usize). cmd_format_nvm cid 0xFFFFFFFF"
  obtain c dev' w' where "submit_and_complete_admin demo_admin_hw ?cmd (demo_dev, blank_world []) = Some (Ret c, (dev', w'))"
    using admin_served [where cmd = ?cmd, OF demo_admin_serves demo_dev_state(1) refl] by blast
  then have run: "format_namespace demo_admin_hw None (demo_dev, blank_world []) = Some (Ret (), (dev', w'))"
    by (simp add: format_namespace_def run_simps mignore_def)
  then have "dev_step demo_admin_hw demo_ops (demo_dev, blank_world []) (dev', w')" by (rule dev_step.format_namespace)
  then have "dev_reaches demo_admin_hw demo_ops (demo_dev, blank_world []) (dev', w')"
    using dev_reaches.start dev_reaches.step by blast
  moreover have "dev_ok demo_dev"
    by (simp add: dev_ok_def demo_dev_def demo_ring_def demo_cring_def sq_within_def cq_within_def)
  moreover have "confined demo_admin_hw ?S"
    unfolding demo_admin_hw_def by (rule sync_hw_confined) (auto simp: demo_dev_def demo_cring_def)
  ultimately have "dev_ok dev' \<and> same_layout demo_dev dev' \<and> (\<forall>x. x \<notin> ?S \<longrightarrow> wmem w' x = wmem (blank_world [] :: nvme_command list world) x)"
    using device_invariant [OF _ _ demo_ops_confined [of ?S]] by blast
  then show ?thesis using run by (auto simp: blank_world_def)
qed

end
