(* ===== verification/Mapping_Spec.thy ===== *)
theory Mapping_Spec
  imports Device_Inv
begin

text \<open>
  The contract of trait \<^verbatim>\<open>Mapping\<close> (\<^verbatim>\<open>src/src/mapping.rs\<close>), as the device relies on it: the operations
  return, and an allocation has the requested size rounded up to whole pages. The locale
  \<open>mapping_provider\<close> states it; what follows for a device built on any provider is proved in it
  once. \<open>mapping_resizable\<close> adds the change of the page size. The providers interpret both.
\<close>

unbundle bit_operations_syntax

lemma wait_csts_keeps:
  fixes hw :: "'d hw"
  assumes "guarded hw S dev0"
  shows "keeps (dev_inv dev0 S m0) (wait_csts hw ready)"
proof (rule keepsI)
  fix s r t
  assume s: "dev_inv dev0 S m0 s" and "wait_csts hw ready s = Some (r, t)"
  moreover have "guarded hw S dev0 \<longrightarrow> dev_inv dev0 S m0 s \<longrightarrow> dev_inv dev0 S m0 (snd y)"
    if "wait_csts hw ready s = Some y" for s y and hw :: "'d hw" and ready
    using that
  proof (rule wait_csts.raw_induct [rotated])
    fix wait s y ready and hw :: "'d hw"
    assume IH: "\<And>hw ready s y. wait hw ready s = Some y \<Longrightarrow>
        guarded hw S dev0 \<longrightarrow> dev_inv dev0 S m0 s \<longrightarrow> dev_inv dev0 S m0 (snd y)"
      and step: "(case get_reg32 hw (reg32 CSTS) s of None \<Rightarrow> None
        | Some (r, t) \<Rightarrow> (case r of
             Ret csts \<Rightarrow> if (csts AND 1 = 1) = ready then Some (Ret (), t)
               else wait hw ready (fst t, hw_tick hw (snd t))
           | Err e \<Rightarrow> Some (Err e, t) | Panic p \<Rightarrow> Some (Panic p, t))) = Some y"
    show "guarded hw S dev0 \<longrightarrow> dev_inv dev0 S m0 s \<longrightarrow> dev_inv dev0 S m0 (snd y)"
    proof (intro impI)
      assume hw: "guarded hw S dev0" and s: "dev_inv dev0 S m0 s"
      obtain r t where c: "get_reg32 hw (reg32 CSTS) s = Some (r, t)" using step by (auto split: option.splits)
      then have t: "dev_inv dev0 S m0 t" using keepsD [OF keeps_register_access(3) [OF hw]] s by blast
      then have tick: "dev_inv dev0 S m0 (fst t, hw_tick hw (snd t))"
        using confined_keeps(1) [of hw S m0] hw by (auto simp: dev_inv_def guarded_def)
      show "dev_inv dev0 S m0 (snd y)"
        using step c t IH [of hw ready "(fst t, hw_tick hw (snd t))" y] hw tick
        by (auto split: outcome.splits if_splits)
    qed
  qed
  ultimately have "guarded hw S dev0 \<longrightarrow> dev_inv dev0 S m0 s \<longrightarrow> dev_inv dev0 S m0 (snd (r, t))" by blast
  then show "dev_inv dev0 S m0 t" using assms s by simp
qed

lemma init_controller_keeps:
  assumes "guarded hw S dev0"
  shows "keeps (dev_inv dev0 S m0) (init_controller hw)"
  unfolding init_controller_def init_prp_list_def
  by (intro keeps_intros dev_keeps [OF assms] wait_csts_keeps [OF assms])

lemma confined_UNIV [simp]: "confined hw UNIV"
  by (simp add: confined_def)

lemma sq_new_RetE:
  assumes "sq_new alloc len db w = Some (Ret sq, w')"
  obtains d where "alloc (64 * 16384) w = Some (Ret d, w')"
    "sq = \<lparr>sq_commands = d, sq_head = 0, sq_tail = 0, sq_len = min len 16384, sq_doorbell = db\<rparr>"
  using assms unfolding sq_new_def by (auto elim!: mbind_RetE)

lemma cq_new_RetE:
  assumes "cq_new alloc len db w = Some (Ret cq, w')"
  obtains d where "alloc (16 * 16384) w = Some (Ret d, w')"
    "cq = \<lparr>cq_commands = d, cq_head = 0, cq_phase = True, cq_len = min len 16384, cq_doorbell = db\<rparr>"
  using assms unfolding cq_new_def by (auto elim!: mbind_RetE)

lemma build_device_RetE:
  assumes "build_device hw ops addr mem w = Some (Ret dev, w')"
  obtains a len buf prps asq acq isq icq w1 w2 w3 w4 w5 w6 w7 ds where
    "op_map_resource ops mem w = Some (Ret (a, len), w1)"
    "op_allocate ops mem BUFFER_SIZE w1 = Some (Ret buf, w2)" "op_allocate ops mem PRP_LIST_SIZE w2 = Some (Ret prps, w3)"
    "sq_new (op_allocate ops mem) QUEUE_LENGTH 0 w4 = Some (Ret asq, w5)" "cq_new (op_allocate ops mem) QUEUE_LENGTH 0 w5 = Some (Ret acq, w6)"
    "sq_new (op_allocate ops mem) QUEUE_LENGTH 0 w6 = Some (Ret isq, w7)" "cq_new (op_allocate ops mem) QUEUE_LENGTH 0 w7 = Some (Ret icq, w')"
    "dev = \<lparr>pci_addr = addr, dev_addr = a, dev_len = len, dstrd = ds,
         admin_sq = asq, admin_cq = acq, io_sq = isq, io_cq = icq, buffer = buf, prp_list = prps, namespaces = Map.empty,
         stats = \<lparr>completions = 0, submissions = 0\<rparr>, dev_q_id = 1, allocator = mem\<rparr>"
  using assms unfolding build_device_def by (auto elim!: mbind_RetE)

lemma nvme_init_RetE:
  assumes "nvme_init hw ops addr mem w = Some (Ret dev, w')"
  obtains dev0 w0 where "build_device hw ops addr mem w = Some (Ret dev0, w0)"
    "init_controller hw (dev0, w0) = Some (Ret (), (dev, w'))"
proof -
  from assms obtain dev0 w0 where b: "build_device hw ops addr mem w = Some (Ret dev0, w0)"
      "(case init_controller hw (dev0, w0) of None \<Rightarrow> None
        | Some (Ret (), (dev', w')) \<Rightarrow> Some (Ret dev', w') | Some (Err e, (dev', w')) \<Rightarrow> Some (Err e, w')
        | Some (Panic p, (dev', w')) \<Rightarrow> Some (Panic p, w')) = Some (Ret dev, w')"
    unfolding nvme_init_def by (rule mbind_RetE)
  from b(2) have "init_controller hw (dev0, w0) = Some (Ret (), (dev, w'))"
  proof (cases "init_controller hw (dev0, w0)")
    case (Some y)
    obtain r d v where "y = (r, (d, v))" by (metis prod.exhaust)
    then show ?thesis using b(2) Some by (cases r) (simp_all split: unit.splits)
  qed simp
  with b(1) show thesis by (rule that)
qed

subsection \<open>The contract\<close>

locale mapping_provider =
  fixes allocate :: "'m \<Rightarrow> usize \<Rightarrow> ('d world, dma) comp"
    and deallocate :: "'m \<Rightarrow> dma \<Rightarrow> ('d world, unit) comp"
    and map_resource :: "'m \<Rightarrow> ('d world, usize \<times> usize) comp"
    and page :: "'m \<Rightarrow> pagesize"
  assumes allocate_returns: "returns (allocate mem n)"
    and deallocate_returns: "returns (deallocate mem d)"
    and map_resource_returns: "returns (map_resource mem)"
    and allocate_size: "allocate mem n w = Some (Ret d, w') \<Longrightarrow> dsize d = shift_up (page mem) n"
begin

lemma allocate_covers:
  assumes "unat n \<le> 2 ^ 63" and "allocate mem n w = Some (Ret d, w')"
  shows "unat n \<le> unat (dsize d)" "unat (pagesize_size (page mem)) dvd unat (dsize d)"
proof -
  have "unat (pagesize_size p) \<le> 2 ^ 30" for p by (cases p) simp_all
  from this [of "page mem"] have "unat n + unat (pagesize_size (page mem)) \<le> 2 ^ 64" using assms(1) by simp
  from shift_up_bounds [OF this] allocate_size [OF assms(2)]
  show "unat n \<le> unat (dsize d)" "unat (pagesize_size (page mem)) dvd unat (dsize d)" by simp_all
qed

lemma sq_new_within:
  assumes "0 < len" and "sq_new (allocate mem) len db w = Some (Ret sq, w')"
  shows "sq_within sq \<and> sq_is_empty sq \<and> unat (pagesize_size (page mem)) dvd unat (dsize (sq_commands sq))"
proof -
  obtain d where d: "allocate mem (64 * 16384) w = Some (Ret d, w')"
      "sq = \<lparr>sq_commands = d, sq_head = 0, sq_tail = 0, sq_len = min len 16384, sq_doorbell = db\<rparr>"
    using assms(2) by (rule sq_new_RetE)
  then show ?thesis using allocate_covers [OF _ d(1)] assms(1) by (simp add: sq_within_def sq_is_empty_def min_def)
qed

lemma cq_new_within:
  assumes "0 < len" and "cq_new (allocate mem) len db w = Some (Ret cq, w')"
  shows "cq_within cq \<and> cq_consumed cq 0 \<and> unat (pagesize_size (page mem)) dvd unat (dsize (cq_commands cq))"
proof -
  obtain d where d: "allocate mem (16 * 16384) w = Some (Ret d, w')"
      "cq = \<lparr>cq_commands = d, cq_head = 0, cq_phase = True, cq_len = min len 16384, cq_doorbell = db\<rparr>"
    using assms(2) by (rule cq_new_RetE)
  then show ?thesis
    using allocate_covers [OF _ d(1)] assms(1) by (simp add: cq_within_def cq_consumed_def cq_inv_def phase_of_def min_def)
qed

end

text \<open>The regions of a device, and that all of them are whole pages.\<close>

definition dev_regions :: "'m nvme_device \<Rightarrow> dma list" where
  "dev_regions dev = [buffer dev, prp_list dev, sq_commands (admin_sq dev), cq_commands (admin_cq dev),
     sq_commands (io_sq dev), cq_commands (io_cq dev)]"

definition whole_pages :: "pagesize \<Rightarrow> 'm nvme_device \<Rightarrow> bool" where
  "whole_pages p dev \<longleftrightarrow> (\<forall>d\<in>set (dev_regions dev). unat (pagesize_size p) dvd unat (dsize d))"

lemma whole_pages_layout: "same_layout dev0 dev \<Longrightarrow> whole_pages p dev = whole_pages p dev0"
  by (simp add: whole_pages_def dev_regions_def same_layout_def sq_frame_def cq_frame_def)

context mapping_provider
begin

lemma build_device_ok:
  assumes "op_allocate ops = allocate" and "build_device hw ops addr mem w = Some (Ret dev, w')"
  shows "dev_ok dev \<and> whole_pages (page mem) dev \<and> allocator dev = mem \<and> pci_addr dev = addr"
proof -
  from assms(2) obtain a len buf prps asq acq isq icq w1 w2 w3 w4 w5 w6 w7 ds where
      b: "allocate mem BUFFER_SIZE w1 = Some (Ret buf, w2)" "allocate mem PRP_LIST_SIZE w2 = Some (Ret prps, w3)"
      "sq_new (allocate mem) QUEUE_LENGTH 0 w4 = Some (Ret asq, w5)" "cq_new (allocate mem) QUEUE_LENGTH 0 w5 = Some (Ret acq, w6)"
      "sq_new (allocate mem) QUEUE_LENGTH 0 w6 = Some (Ret isq, w7)" "cq_new (allocate mem) QUEUE_LENGTH 0 w7 = Some (Ret icq, w')"
      "dev = \<lparr>pci_addr = addr, dev_addr = a, dev_len = len, dstrd = ds,
           admin_sq = asq, admin_cq = acq, io_sq = isq, io_cq = icq, buffer = buf, prp_list = prps, namespaces = Map.empty,
           stats = \<lparr>completions = 0, submissions = 0\<rparr>, dev_q_id = 1, allocator = mem\<rparr>"
    by (rule build_device_RetE) (simp only: assms(1))
  note q = sq_new_within [OF _ b(3)] cq_new_within [OF _ b(4)] sq_new_within [OF _ b(5)] cq_new_within [OF _ b(6)]
  note m = allocate_covers [OF _ b(1)] allocate_covers [OF _ b(2)]
  show ?thesis
    using q m by (simp add: b(7) dev_ok_def whole_pages_def dev_regions_def BUFFER_SIZE_def PRP_LIST_SIZE_def)
qed

lemma build_device_returns:
  assumes "op_allocate ops = allocate" and "op_map_resource ops = map_resource"
  shows "returns (build_device hw ops addr mem)"
proof -
  have "returns (\<lambda>w. case hw_read64 hw x w of (cap, w') \<Rightarrow> Some (Ret cap, w'))" for x
    by (simp add: returns_def split: prod.split)
  then show ?thesis
    unfolding build_device_def assms sq_new_def cq_new_def
    by (intro returns_intros allocate_returns map_resource_returns)
qed

lemma nvme_init_ok:
  assumes "op_allocate ops = allocate" and "nvme_init hw ops addr mem w = Some (Ret dev, w')"
  shows "dev_ok dev \<and> whole_pages (page mem) dev \<and> pci_addr dev = addr"
proof -
  obtain dev0 w0 where b: "build_device hw ops addr mem w = Some (Ret dev0, w0)" "init_controller hw (dev0, w0) = Some (Ret (), (dev, w'))"
    by (rule nvme_init_RetE [OF assms(2)])
  note ok = build_device_ok [OF assms(1) b(1)]
  then have "dev_inv dev0 UNIV (wmem w) (dev0, w0)" by (simp add: dev_inv_def same_layout_def mem_frame_def)
  moreover have "guarded hw UNIV dev0" by (simp add: guarded_def)
  ultimately have "dev_inv dev0 UNIV (wmem w) (dev, w')"
    using keepsD [OF init_controller_keeps b(2)] by blast
  then have "dev_ok dev" "same_layout dev0 dev" by (simp_all add: dev_inv_def)
  then show ?thesis using ok whole_pages_layout [of dev0 dev] by (simp add: same_layout_def)
qed

end

locale mapping_resizable = mapping_provider +
  fixes resize :: "pagesize \<Rightarrow> 'm \<Rightarrow> 'm"
  assumes resize_page: "page (resize p mem) = p \<or> resize p mem = mem"
begin

text \<open>After a change of the page size, an allocation is made of pages of the new or of the old size.\<close>

lemma resized_pages:
  assumes "unat n \<le> 2 ^ 63" and "allocate (resize p mem) n w = Some (Ret d, w')"
  shows "unat (pagesize_size p) dvd unat (dsize d) \<or> unat (pagesize_size (page mem)) dvd unat (dsize d)"
  using allocate_covers(2) [OF assms] resize_page [of p mem] by auto

end

end
