(* ===== verification/Device_Init.thy ===== *)
theory Device_Init
  imports Mapping_Spec
begin

text \<open>
  Initialisation of the controller (\<^verbatim>\<open>NvmeDevice::init\<close> in \<^verbatim>\<open>src/src/nvme.rs\<close>). What the driver relies
  on is stated by name over the values of the controller's registers: \<open>register_file\<close> says that they
  read back what was written and that the ready bit follows the enable bit at some poll; \<open>starts\<close>
  says what they must hold when the controller is enabled, for it to serve the admin queue.
\<close>

unbundle bit_operations_syntax

record regs =
  r_cc :: u32
  r_aqa :: u32
  r_asq :: u64
  r_acq :: u64

text \<open>
  \<open>R s w\<close>: in world \<open>w\<close> the registers of the controller at address \<open>a\<close> hold \<open>s\<close>. \<open>P\<close> is memory the
  controller does not look at during initialisation.
\<close>

definition register_file :: "'d hw \<Rightarrow> usize \<Rightarrow> usize set \<Rightarrow> (regs \<Rightarrow> 'd world \<Rightarrow> bool) \<Rightarrow> bool" where
  "register_file hw a P R \<longleftrightarrow> (\<forall>s w. R s w \<longrightarrow>
     (\<forall>x. R s (snd (hw_read32 hw x w))) \<and> (\<forall>x. R s (snd (hw_read64 hw x w))) \<and> R s (hw_tick hw w)
   \<and> (\<forall>m. (\<forall>x. x \<notin> P \<longrightarrow> m x = wmem w x) \<longrightarrow> R s (w\<lparr>wmem := m\<rparr>))
   \<and> fst (hw_read32 hw (a + 0x14) w) = r_cc s
   \<and> (\<forall>v. R (s\<lparr>r_cc := v\<rparr>) (hw_write32 hw (a + 0x14) v w)) \<and> (\<forall>v. R (s\<lparr>r_aqa := v\<rparr>) (hw_write32 hw (a + 0x24) v w))
   \<and> (\<forall>v. R (s\<lparr>r_asq := v\<rparr>) (hw_write64 hw (a + 0x28) v w)) \<and> (\<forall>v. R (s\<lparr>r_acq := v\<rparr>) (hw_write64 hw (a + 0x30) v w))
   \<and> (\<exists>t. (fst (hw_read32 hw (a + 0x1C) (poll_world hw (a + 0x1C) t w)) AND 1 = 1) = bit (r_cc s) 0))"

text \<open>
  An enabled controller with entries of 64 and 16 bytes, pages of 4 KiB and the NVM command set
  serves the admin queues whose addresses and sizes are in its registers. Either size is a field of 12
  bits, and one less than the number of entries; \<open>I N\<close> is the service of queues of \<open>N\<close> entries. The
  driver's rings may be longer: until the controller's wrap, the two sides agree.
\<close>

definition starts ::
    "(regs \<Rightarrow> 'd world \<Rightarrow> bool) \<Rightarrow> submission_queue \<Rightarrow> completion_queue \<Rightarrow> (nat \<Rightarrow> 'd service) \<Rightarrow> bool" where
  "starts R sq cq I \<longleftrightarrow> (\<forall>s w. R s w \<longrightarrow> bit (r_cc s) 0
     \<longrightarrow> take_bit 4 (drop_bit 16 (r_cc s)) = 6 \<longrightarrow> take_bit 4 (drop_bit 20 (r_cc s)) = 4
     \<longrightarrow> take_bit 4 (drop_bit 7 (r_cc s)) = 0 \<longrightarrow> take_bit 3 (drop_bit 4 (r_cc s)) = 0
     \<longrightarrow> r_asq s = sq_get_addr sq \<longrightarrow> r_acq s = cq_get_addr cq
     \<longrightarrow> unat (take_bit 12 (r_aqa s)) + 1 \<le> unat (sq_len sq) \<longrightarrow> unat (take_bit 12 (drop_bit 16 (r_aqa s))) + 1 \<le> unat (cq_len cq)
     \<longrightarrow> I (min (unat (take_bit 12 (r_aqa s)) + 1) (unat (take_bit 12 (drop_bit 16 (r_aqa s))) + 1)) [] sq cq w)"

subsection \<open>Register accesses\<close>

lemma reg_access:
  assumes "0x1000 \<le> dev_len dev"
  shows "unat r \<le> 0xF00 \<Longrightarrow> get_reg32 hw r (dev, w) = (case hw_read32 hw (dev_addr dev + ucast r) w of (v, w') \<Rightarrow> Some (Ret v, (dev, w')))"
    and "unat r \<le> 0xF00 \<Longrightarrow> set_reg32 hw r x (dev, w) = Some (Ret (), (dev, hw_write32 hw (dev_addr dev + ucast r) x w))"
    and "unat q \<le> 0xF00 \<Longrightarrow> get_reg64 hw q (dev, w) = (case hw_read64 hw (dev_addr dev + q) w of (v, w') \<Rightarrow> Some (Ret v, (dev, w')))"
    and "unat r \<le> 0xF00 \<Longrightarrow> set_reg64 hw r y (dev, w) = Some (Ret (), (dev, hw_write64 hw (dev_addr dev + ucast r) y w))"
proof -
  have l: "0x1000 \<le> unat (dev_len dev)" using assms by (simp add: word_le_nat_alt)
  have le: "4 \<le> dev_len dev" "8 \<le> dev_len dev" using l by (simp_all add: word_le_nat_alt)
  note b = reg_in_bounds [OF le(1)] reg_in_bounds [OF le(2)]
  have u: "unat (ucast r :: usize) = unat r" by (rule unat_ucast_up) simp
  show "unat r \<le> 0xF00 \<Longrightarrow> get_reg32 hw r (dev, w) = (case hw_read32 hw (dev_addr dev + ucast r) w of (v, w') \<Rightarrow> Some (Ret v, (dev, w')))"
    using l by (simp add: get_reg32_def run_simps b u read_volatile32_def)
  show "unat r \<le> 0xF00 \<Longrightarrow> set_reg32 hw r x (dev, w) = Some (Ret (), (dev, hw_write32 hw (dev_addr dev + ucast r) x w))"
    using l by (simp add: set_reg32_def run_simps b u write_volatile32_def)
  show "unat q \<le> 0xF00 \<Longrightarrow> get_reg64 hw q (dev, w) = (case hw_read64 hw (dev_addr dev + q) w of (v, w') \<Rightarrow> Some (Ret v, (dev, w')))"
    using l by (simp add: get_reg64_def run_simps b read_volatile64_def)
  show "unat r \<le> 0xF00 \<Longrightarrow> set_reg64 hw r y (dev, w) = Some (Ret (), (dev, hw_write64 hw (dev_addr dev + ucast r) y w))"
    using l by (simp add: set_reg64_def run_simps b u write_volatile64_def)
qed

lemma wait_ready:
  assumes "register_file hw (dev_addr dev) P R" and "R s w" and "0x1000 \<le> dev_len dev" and "ready = bit (r_cc s) 0"
  shows "\<exists>w'. wait_csts hw ready (dev, w) = Some (Ret (), (dev, w')) \<and> R s w'"
proof -
  let ?a = "dev_addr dev + 0x1C"
  let ?rdy = "\<lambda>t. csts_ready hw dev (poll_world hw ?a t w) = ready"
  have len: "0x20 \<le> dev_len dev" using assms(3) by (rule order_trans [rotated]) simp
  have R: "R s (poll_world hw ?a t w)" for t
    using assms(1,2) by (induction t) (auto simp: poll_world_def register_file_def)
  have "\<exists>t. ?rdy t" using assms(1,2,4) by (auto simp: register_file_def csts_ready_def)
  then obtain t where t: "?rdy t" "\<forall>t'<t. \<not> ?rdy t'"
    using LeastI_ex [of ?rdy] not_less_Least [of _ ?rdy] by blast
  have "wait_csts hw ready (dev, w) = Some (Ret (), (dev, snd (hw_read32 hw ?a (poll_world hw ?a t w))))"
    using t by (intro wait_csts_returns [OF len]) auto
  moreover have "R s (snd (hw_read32 hw ?a (poll_world hw ?a t w)))"
    using R assms(1) by (auto simp: register_file_def)
  ultimately show ?thesis by blast
qed

lemma init_prp_list_registers:
  assumes "register_file hw (dev_addr dev) (region (prp_list dev)) R" and "R s w" and "4096 \<le> unat (dsize (prp_list dev))"
  shows "\<exists>w'. init_prp_list (dev, w) = Some (Ret (), (dev, w')) \<and> R s w'"
proof -
  have "keeps (\<lambda>(d, w). d = dev \<and> R s w) (store_prp i v)" for i v
  proof (rule keepsI, clarify)
    fix w r d w'
    assume R: "R s w" and run: "store_prp i v (dev, w) = Some (r, (d, w'))"
    have "R s (w\<lparr>wmem := mem_write (wmem w) (cell (virt (prp_list dev)) 8 i) (le_bytes 8 v)\<rparr>)" if "i < 512"
    proof -
      have "\<forall>x. x \<notin> region (prp_list dev) \<longrightarrow> mem_write (wmem w) (cell (virt (prp_list dev)) 8 i) (le_bytes 8 v) x = wmem w x"
        using that assms(3) unfolding cell_def by (intro allI impI mem_write_range) (auto simp: region_def)
      then show ?thesis using assms(1) R unfolding register_file_def by blast
    qed
    then show "d = dev \<and> R s w'" using run R by (auto simp: store_prp_def split: if_splits)
  qed
  then have "keeps (\<lambda>(d, w). d = dev \<and> R s w) init_prp_list"
    unfolding init_prp_list_def by (intro keeps_intros)
  moreover obtain w' where "init_prp_list (dev, w) = Some (Ret (), (dev, w'))" using init_prp_list_run by blast
  ultimately show ?thesis using assms(2) by (auto dest: keepsD)
qed

text \<open>The configuration the driver writes, read as the controller reads it.\<close>

lemma configuration_fields:
  fixes cc :: u32
  defines "v \<equiv> (cc AND 0xFF00000F) OR 0x460000 OR 1"
  shows "bit v 0" "take_bit 4 (drop_bit 16 v) = 6" "take_bit 4 (drop_bit 20 v) = 4" "take_bit 4 (drop_bit 7 v) = 0"
    "take_bit 3 (drop_bit 4 v) = 0"
proof -
  have f: "take_bit k (drop_bit n v) = (take_bit k (drop_bit n cc) AND take_bit k (drop_bit n 0xFF00000F))
      OR take_bit k (drop_bit n 0x460001)" for k n
  proof -
    have "v = (cc AND 0xFF00000F) OR 0x460001" by (simp add: v_def or.assoc)
    then show ?thesis by (simp only: drop_bit_or drop_bit_and take_bit_or take_bit_and)
  qed
  have c: "take_bit k (drop_bit n (x :: u32)) = x div 2 ^ n mod 2 ^ k" for k n x
    by (simp add: drop_bit_eq_div take_bit_eq_mod)
  show "take_bit 4 (drop_bit 16 v) = 6" "take_bit 4 (drop_bit 20 v) = 4" "take_bit 4 (drop_bit 7 v) = 0"
      "take_bit 3 (drop_bit 4 v) = 0"
    unfolding f by (simp_all add: c [of _ _ "0xFF00000F"] c [of _ _ "0x460001"])
  show "bit v 0" by (simp add: v_def bit_simps)
qed

subsection \<open>Programming the controller\<close>

text \<open>\<open>drives R dev m s s' Q\<close>: with the registers at \<open>s\<close>, \<open>m\<close> returns a value with \<open>Q\<close>, leaves the device
  alone and the registers at \<open>s'\<close>.\<close>

definition drives ::
    "(regs \<Rightarrow> 'd world \<Rightarrow> bool) \<Rightarrow> 'm nvme_device \<Rightarrow> (('m, 'd) dev_state, 'a) comp \<Rightarrow> regs \<Rightarrow> regs \<Rightarrow> ('a \<Rightarrow> bool) \<Rightarrow> bool" where
  "drives R dev m s s' Q \<longleftrightarrow>
     (\<forall>w. R s w \<longrightarrow> (\<exists>x w'. m (dev, w) = Some (Ret x, (dev, w')) \<and> R s' w' \<and> Q x))"

lemma yields_drive:
  assumes "drives R dev m s s' Q" and "R s w" and "\<And>x w'. Q x \<Longrightarrow> R s' w' \<Longrightarrow> yields (f x) (dev, w') Q'"
  shows "yields (mbind m f) (dev, w) Q'"
proof -
  obtain x w' where "m (dev, w) = Some (Ret x, (dev, w'))" "R s' w'" "Q x"
    using assms(1,2) unfolding drives_def by blast
  then show ?thesis using assms(3) by (auto intro!: yields_bind intro: yieldsI)
qed

lemma drives_access:
  assumes "register_file hw (dev_addr dev) P R" and "0x1000 \<le> dev_len dev"
  shows "drives R dev (get_reg64 hw (ucast (reg64 CAP))) s s (\<lambda>_. True)"
    "drives R dev (get_reg32 hw (reg32 VS)) s s (\<lambda>_. True)"
    "drives R dev (get_reg32 hw (reg32 CC)) s s (\<lambda>v. v = r_cc s)"
    "drives R dev (set_reg32 hw (reg32 CC) v) s (s\<lparr>r_cc := v\<rparr>) (\<lambda>_. True)"
    "drives R dev (set_reg32 hw (reg32 AQA) v) s (s\<lparr>r_aqa := v\<rparr>) (\<lambda>_. True)"
    "drives R dev (set_reg64 hw (reg64 ASQ) x) s (s\<lparr>r_asq := x\<rparr>) (\<lambda>_. True)"
    "drives R dev (set_reg64 hw (reg64 ACQ) x) s (s\<lparr>r_acq := x\<rparr>) (\<lambda>_. True)"
  using assms(1) unfolding drives_def register_file_def
  by (auto simp: reg_access [OF assms(2)] split: prod.split) (metis fst_conv snd_conv)+

text \<open>The device that has been given both queue creation commands.\<close>

definition create_queue_commands :: "'m nvme_device \<Rightarrow> nvme_command list" where
  "create_queue_commands dev =
     [cmd_create_io_completion_queue 0 1 (cq_get_addr (io_cq dev)) 16383,
      cmd_create_io_submission_queue 1 1 (sq_get_addr (io_sq dev)) 16383 1]"

definition fresh_device :: "'m nvme_device \<Rightarrow> bool" where
  "fresh_device dev \<longleftrightarrow> 0x1000 \<le> dev_len dev \<and> 4096 \<le> unat (dsize (prp_list dev)) \<and> dev_q_id dev = 1
     \<and> sq_inv (admin_sq dev) \<and> sq_len (admin_sq dev) = QUEUE_LENGTH \<and> sq_head (admin_sq dev) = 0 \<and> sq_tail (admin_sq dev) = 0
     \<and> cq_consumed (admin_cq dev) 0 \<and> cq_len (admin_cq dev) = QUEUE_LENGTH"

text \<open>The driver writes 16383 to both size fields, of which the controller sees 4095.\<close>

lemma queue_size_fields:
  "take_bit 12 (0x3FFF3FFF :: u32) = 0xFFF" "take_bit 12 (drop_bit 16 (0x3FFF3FFF :: u32)) = 0xFFF"
  by (simp_all add: drop_bit_eq_div take_bit_eq_mod)

lemma create_queues_served:
  assumes dev: "fresh_device dev" and "I [] (admin_sq dev) (admin_cq dev) w" and N: "2 < N"
    and sv: "serves_first N hw (doorbell dev SQyTDBL 0) (doorbell dev CQyHDBL 0) (\<lambda>c q. q) I"
  shows "yields
    (mbind (submit_and_complete_admin hw (\<lambda>cid _.
              cmd_create_io_completion_queue cid (dev_q_id dev) (cq_get_addr (io_cq dev)) (ucast (QUEUE_LENGTH - 1)))) (\<lambda>_.
     mbind (submit_and_complete_admin hw (\<lambda>cid _.
              cmd_create_io_submission_queue cid (dev_q_id dev) (sq_get_addr (io_sq dev)) (ucast (QUEUE_LENGTH - 1)) (dev_q_id dev))) (\<lambda>_.
     mmodify (\<lambda>(dev, w). (dev\<lparr>dev_q_id := dev_q_id dev + 1\<rparr>, w)))))
    (dev, w) (\<lambda>r (dev', w'). r = Ret () \<and> dev_q_id dev' = 2
    \<and> same_layout dev dev' \<and> io_sq dev' = io_sq dev \<and> io_cq dev' = io_cq dev
    \<and> I (create_queue_commands dev) (admin_sq dev') (admin_cq dev') w')"
proof -
  let ?c1 = "\<lambda>cid (_ :: usize). cmd_create_io_completion_queue cid (dev_q_id dev) (cq_get_addr (io_cq dev)) (ucast (QUEUE_LENGTH - 1))"
  let ?c2 = "\<lambda>cid (_ :: usize). cmd_create_io_submission_queue cid (dev_q_id dev) (sq_get_addr (io_sq dev)) (ucast (QUEUE_LENGTH - 1)) (dev_q_id dev)"
  have q: "sq_tail (admin_sq dev) = 0" "sq_len (admin_sq dev) = 16384" "dev_q_id dev = 1" using dev by (simp_all add: fresh_device_def)
  obtain c w1 where 1: "submit_and_complete_admin hw ?c1 (dev, w) = Some (Ret c, (dev_admin (?c1 0 0) dev, w1))"
      "I [?c1 0 0] (admin_sq (dev_admin (?c1 0 0) dev)) (admin_cq (dev_admin (?c1 0 0) dev)) w1"
    using admin_served_first [where cmd = ?c1, OF sv assms(2) _ refl] q N by auto
  let ?d1 = "dev_admin (?c1 0 0) dev"
  have t1: "sq_tail (admin_sq ?d1) = 1" using q by (simp add: dev_admin_def)
  have "serves_first N hw (doorbell ?d1 SQyTDBL 0) (doorbell ?d1 CQyHDBL 0) (\<lambda>c q. q) I" using sv by simp
  from admin_served_first [where cmd = ?c2, OF this 1(2) _ refl] t1 N obtain c' w2 where
      2: "submit_and_complete_admin hw ?c2 (?d1, w1) = Some (Ret c', (dev_admin (?c2 1 0) ?d1, w2))"
      "I [?c1 0 0, ?c2 1 0] (admin_sq (dev_admin (?c2 1 0) ?d1)) (admin_cq (dev_admin (?c2 1 0) ?d1)) w2"
    by auto
  have "same_layout dev ((dev_admin (?c2 1 0) ?d1)\<lparr>dev_q_id := 2\<rparr>)"
    by (simp add: same_layout_def dev_admin_def sq_frame_def cq_frame_def sq_after_def cq_after_def Let_def)
  then show ?thesis
    using 1(1) 2 q by (auto simp: yields_def run_simps create_queue_commands_def)
qed

lemma init_controller_boots:
  assumes rf: "register_file hw (dev_addr dev) (region (prp_list dev)) R" and "R s w" and dev: "fresh_device dev"
    and b: "starts R (admin_sq dev) (admin_cq dev) I"
    and sv: "serves_first 4096 hw (doorbell dev SQyTDBL 0) (doorbell dev CQyHDBL 0) (\<lambda>c q. q) (I 4096)"
  shows "yields (init_controller hw) (dev, w) (\<lambda>r (dev', w'). r = Ret () \<and> dev_q_id dev' = 2
    \<and> same_layout dev dev' \<and> io_sq dev' = io_sq dev \<and> io_cq dev' = io_cq dev
    \<and> I 4096 (create_queue_commands dev) (admin_sq dev') (admin_cq dev') w')"
proof -
  have len: "0x1000 \<le> dev_len dev" and prp: "4096 \<le> unat (dsize (prp_list dev))" using dev by (simp_all add: fresh_device_def)
  note acc = drives_access [OF rf len]
  have d_prp: "drives R dev init_prp_list s s (\<lambda>_. True)" for s
    using init_prp_list_registers [OF rf _ prp] by (auto simp: drives_def)
  have d_wait: "drives R dev (wait_csts hw ready) s s (\<lambda>_. True)" if "ready = bit (r_cc s) 0" for ready s
    using wait_ready [OF rf _ len that] by (auto simp: drives_def)
  have d_dev: "drives R dev (mget fst) s s (\<lambda>d. d = dev)" for s by (simp add: drives_def)
  note steps = acc [THEN yields_drive] d_dev [THEN yields_drive]
  have start: "I 4096 [] (admin_sq dev) (admin_cq dev) w'"
    if "R s' w'" "r_cc s' = ((cc AND 0xFF00000F) OR (push_bit 20 4 OR push_bit 16 6)) OR 1"
      "r_aqa s' = push_bit 16 (ucast QUEUE_LENGTH - 1) OR (ucast QUEUE_LENGTH - 1)"
      "r_asq s' = sq_get_addr (admin_sq dev)" "r_acq s' = cq_get_addr (admin_cq dev)" for s' w' cc
  proof -
    have cc: "r_cc s' = (cc AND 0xFF00000F) OR 0x460000 OR 1" using that(2) by (simp add: push_bit_eq_mult or.assoc)
    have aqa: "r_aqa s' = 0x3FFF3FFF" using that(3) by (simp add: push_bit_eq_mult)
    show ?thesis
      using b that(1,4,5) dev configuration_fields [of cc] queue_size_fields
      unfolding starts_def fresh_device_def cc [symmetric] by (fastforce simp: aqa)
  qed
  have wait: "yields (mbind (wait_csts hw ready) f) (dev, w) Q'"
    if "R s w" "ready = bit (r_cc s) 0" "\<And>w'. R s w' \<Longrightarrow> yields (f ()) (dev, w') Q'" for ready s w f Q'
    by (rule yields_drive [OF d_wait [OF that(2)] that(1)]) (simp add: that(3))
  show ?thesis
    unfolding init_controller_def
    apply (rule yields_drive [OF d_prp assms(2)])
    apply (rule steps, assumption)+
    apply (rule wait, assumption, simp add: bit_simps)
    apply (rule steps, assumption)+
    apply (rule wait, assumption, simp add: bit_simps)
    apply hypsubst
    apply (rule create_queues_served [OF dev _ _ sv], rule start, assumption)
    by simp_all
qed

lemma build_device_fresh:
  assumes "build_device hw ops addr mem w = Some (Ret dev, w')"
  shows "sq_inv (admin_sq dev)" "sq_len (admin_sq dev) = QUEUE_LENGTH" "sq_head (admin_sq dev) = 0" "sq_tail (admin_sq dev) = 0"
    "cq_consumed (admin_cq dev) 0" "cq_len (admin_cq dev) = QUEUE_LENGTH" "dev_q_id dev = 1" "namespaces dev = Map.empty"
proof -
  obtain a len buf prps asq acq isq icq w1 w2 w3 w4 w5 w6 w7 ds where
      b: "sq_new (op_allocate ops mem) QUEUE_LENGTH 0 w4 = Some (Ret asq, w5)" "cq_new (op_allocate ops mem) QUEUE_LENGTH 0 w5 = Some (Ret acq, w6)"
      "dev = \<lparr>pci_addr = addr, dev_addr = a, dev_len = len, dstrd = ds,
         admin_sq = asq, admin_cq = acq, io_sq = isq, io_cq = icq, buffer = buf, prp_list = prps, namespaces = Map.empty,
         stats = \<lparr>completions = 0, submissions = 0\<rparr>, dev_q_id = 1, allocator = mem\<rparr>"
    using assms by (rule build_device_RetE)
  obtain d where "asq = \<lparr>sq_commands = d, sq_head = 0, sq_tail = 0, sq_len = 16384, sq_doorbell = 0\<rparr>"
    by (rule sq_new_RetE [OF b(1)]) simp
  moreover obtain d' where "acq = \<lparr>cq_commands = d', cq_head = 0, cq_phase = True, cq_len = 16384, cq_doorbell = 0\<rparr>"
    by (rule cq_new_RetE [OF b(2)]) simp
  ultimately show "sq_inv (admin_sq dev)" "sq_len (admin_sq dev) = QUEUE_LENGTH" "sq_head (admin_sq dev) = 0" "sq_tail (admin_sq dev) = 0"
    "cq_consumed (admin_cq dev) 0" "cq_len (admin_cq dev) = QUEUE_LENGTH" "dev_q_id dev = 1" "namespaces dev = Map.empty"
    by (simp_all add: b(3) sq_inv_def cq_consumed_def cq_inv_def phase_of_def)
qed

lemma nvme_init_boots:
  assumes "build_device hw ops addr mem w = Some (Ret dev, w0)"
    and "0x1000 \<le> dev_len dev" and "4096 \<le> unat (dsize (prp_list dev))"
    and "register_file hw (dev_addr dev) (region (prp_list dev)) R" and "R s w0"
    and "starts R (admin_sq dev) (admin_cq dev) I"
    and "serves_first 4096 hw (doorbell dev SQyTDBL 0) (doorbell dev CQyHDBL 0) (\<lambda>c q. q) (I 4096)"
  shows "\<exists>dev' w'. nvme_init hw ops addr mem w = Some (Ret dev', w') \<and> dev_q_id dev' = 2 \<and> same_layout dev dev'
    \<and> I 4096 (create_queue_commands dev) (admin_sq dev') (admin_cq dev') w'"
proof -
  have "fresh_device dev" using assms(2,3) build_device_fresh [OF assms(1)] by (simp add: fresh_device_def)
  from init_controller_boots [OF assms(4,5) this assms(6,7)]
  obtain dev' w' where "init_controller hw (dev, w0) = Some (Ret (), (dev', w'))" "dev_q_id dev' = 2" "same_layout dev dev'"
      "I 4096 (create_queue_commands dev) (admin_sq dev') (admin_cq dev') w'"
    by (rule yieldsE) (clarsimp split: prod.splits)
  moreover from this have "nvme_init hw ops addr mem w = Some (Ret dev', w')"
    using assms(1) by (simp add: nvme_init_def run_simps split: unit.split)
  ultimately show ?thesis by blast
qed

end
