(* ===== verification/Os.thy ===== *)
theory Os
  imports Hardware Memory Fmt Comp_Logic
begin

text \<open>
  The operating system as the driver uses it. The record \<open>os\<close> holds the calls of \<^verbatim>\<open>libc\<close>, of
  the standard library's file interface and of the package \<^verbatim>\<open>byteorder\<close>, which reads and writes
  integers on files, on a kernel state \<open>'k\<close>; they are parameters of every definition that makes
  such a call. All mappings are for reading and writing, so \<^verbatim>\<open>mmap\<close> has no protection argument.
  The state of a process is a world whose controller state is paired with the driver's own global
  variables, the record \<open>statics\<close>. The checked calls are the macros of \<^verbatim>\<open>src/src/macros.rs\<close>.
\<close>

unbundle bit_operations_syntax

type_synonym i32 = "32 word"
type_synonym fd = i32

text \<open>The driver's global variables: \<^verbatim>\<open>HUGEPAGE_ID\<close> (\<^verbatim>\<open>physical.rs\<close>), \<^verbatim>\<open>IOVA_WIDTH\<close> and
  \<^verbatim>\<open>VFIO_GROUP_FILE_DESCRIPTORS\<close> (\<^verbatim>\<open>vfio.rs\<close>).\<close>

record statics =
  hugepage_id :: usize
  iova_width :: u8
  vfio_group_fds :: "int \<rightharpoonup> fd"

text \<open>The last argument of an \<^verbatim>\<open>ioctl\<close>: nothing, a number, or a pointer to bytes, which the kernel
  may change.\<close>

datatype ioctl_arg = No_arg | Number u64 | Pointer "u8 list"

text \<open>A directory entry: a symbolic link or not, and its name if that is valid text.\<close>

record dir_entry =
  is_symlink :: bool
  file_name :: "string option"

record open_mode =
  mode_read :: bool
  mode_write :: bool
  mode_create :: bool

record 'k os =
  os_open :: "string \<Rightarrow> open_mode \<Rightarrow> 'k \<Rightarrow> (io_error + fd) \<times> 'k"
  os_exists :: "string \<Rightarrow> 'k \<Rightarrow> bool"
  os_read_dir :: "string \<Rightarrow> 'k \<Rightarrow> io_error + (io_error + dir_entry) list"
  os_read_link :: "string \<Rightarrow> 'k \<Rightarrow> io_error + string"
  os_metadata_len :: "string \<Rightarrow> 'k \<Rightarrow> io_error + u64"
  os_seek :: "fd \<Rightarrow> u64 \<Rightarrow> 'k \<Rightarrow> (io_error + unit) \<times> 'k"
  os_read_exact :: "fd \<Rightarrow> nat \<Rightarrow> 'k \<Rightarrow> (io_error + u8 list) \<times> 'k"
  os_read_to_string :: "fd \<Rightarrow> 'k \<Rightarrow> (io_error + string) \<times> 'k"
  bo_read_u8 :: "fd \<Rightarrow> 'k \<Rightarrow> (io_error + u8) \<times> 'k"
  bo_read_u16 :: "fd \<Rightarrow> 'k \<Rightarrow> (io_error + u16) \<times> 'k"
  bo_read_u32 :: "fd \<Rightarrow> 'k \<Rightarrow> (io_error + u32) \<times> 'k"
  bo_read_u64 :: "fd \<Rightarrow> 'k \<Rightarrow> (io_error + u64) \<times> 'k"
  bo_write_u8 :: "fd \<Rightarrow> u8 \<Rightarrow> 'k \<Rightarrow> (io_error + unit) \<times> 'k"
  bo_write_u16 :: "fd \<Rightarrow> u16 \<Rightarrow> 'k \<Rightarrow> (io_error + unit) \<times> 'k"
  bo_write_u32 :: "fd \<Rightarrow> u32 \<Rightarrow> 'k \<Rightarrow> (io_error + unit) \<times> 'k"
  bo_write_u64 :: "fd \<Rightarrow> u64 \<Rightarrow> 'k \<Rightarrow> (io_error + unit) \<times> 'k"
  c_ioctl :: "fd \<Rightarrow> u64 \<Rightarrow> ioctl_arg \<Rightarrow> 'k \<Rightarrow> (i32 \<times> ioctl_arg) \<times> 'k"
  c_mmap :: "usize \<Rightarrow> usize \<Rightarrow> mmap_flag set \<Rightarrow> fd \<Rightarrow> u64 \<Rightarrow> memory \<times> 'k \<Rightarrow> usize \<times> (memory \<times> 'k)"
  c_munmap :: "usize \<Rightarrow> usize \<Rightarrow> memory \<times> 'k \<Rightarrow> i32 \<times> (memory \<times> 'k)"
  c_mlock :: "usize \<Rightarrow> usize \<Rightarrow> 'k \<Rightarrow> i32 \<times> 'k"
  c_munlock :: "usize \<Rightarrow> usize \<Rightarrow> 'k \<Rightarrow> i32 \<times> 'k"
  c_pread :: "fd \<Rightarrow> u8 list \<Rightarrow> u64 \<Rightarrow> 'k \<Rightarrow> (u64 \<times> u8 list) \<times> 'k"
  c_pwrite :: "fd \<Rightarrow> u8 list \<Rightarrow> u64 \<Rightarrow> 'k \<Rightarrow> u64 \<times> 'k"
  last_os_error :: "'k \<Rightarrow> io_error"
  page_size_of :: usize
  process_id :: nat

type_synonym 'k sys = "(statics \<times> 'k) world"

text \<open>Calls on the kernel alone, and on the kernel and memory.\<close>

definition kcall :: "('k \<Rightarrow> 'a \<times> 'k) \<Rightarrow> ('k sys, 'a) comp" where
  "kcall f = (\<lambda>w. case wdev w of (st, k) \<Rightarrow>
     case f k of (x, k') \<Rightarrow> Some (Ret x, w\<lparr>wdev := (st, k')\<rparr>))"

definition kmcall :: "(memory \<times> 'k \<Rightarrow> 'a \<times> (memory \<times> 'k)) \<Rightarrow> ('k sys, 'a) comp" where
  "kmcall f = (\<lambda>w. case wdev w of (st, k) \<Rightarrow>
     case f (wmem w, k) of (x, (m', k')) \<Rightarrow> Some (Ret x, \<lparr>wmem = m', wdev = (st, k')\<rparr>))"

definition kquery :: "('k \<Rightarrow> 'a) \<Rightarrow> ('k sys, 'a) comp" where
  "kquery f = mget (\<lambda>w. f (snd (wdev w)))"

definition get_static :: "(statics \<Rightarrow> 'a) \<Rightarrow> ('k sys, 'a) comp" where
  "get_static f = mget (\<lambda>w. f (fst (wdev w)))"

definition set_static :: "(statics \<Rightarrow> statics) \<Rightarrow> ('k sys, unit) comp" where
  "set_static f = mmodify (\<lambda>w. w\<lparr>wdev := (f (fst (wdev w)), snd (wdev w))\<rparr>)"

text \<open>The operator \<^verbatim>\<open>?\<close> on an \<^verbatim>\<open>io::Result\<close>.\<close>

definition try_io :: "io_error + 'a \<Rightarrow> ('s, 'a) comp" where
  "try_io r = (case r of Inl e \<Rightarrow> merr (error_from_io e) | Inr x \<Rightarrow> mret x)"

definition kcall_io :: "('k \<Rightarrow> (io_error + 'a) \<times> 'k) \<Rightarrow> ('k sys, 'a) comp" where
  "kcall_io f = mbind (kcall f) try_io"

subsection \<open>Checked calls\<close>

definition ioctl_unsafe ::
    "'k os \<Rightarrow> fd \<Rightarrow> u64 \<Rightarrow> string \<Rightarrow> ioctl_arg \<Rightarrow> ('k sys, i32 \<times> ioctl_arg) comp" where
  "ioctl_unsafe k fd0 op name arg =
     mbind (kcall (c_ioctl k fd0 op arg)) (\<lambda>(result, arg').
     mbind (kquery (last_os_error k)) (\<lambda>e.
     if result = -1 then merr (Ioctl name e) else mret (result, arg')))"

definition mmap_unsafe ::
    "'k os \<Rightarrow> usize \<Rightarrow> usize \<Rightarrow> mmap_flag set \<Rightarrow> fd \<Rightarrow> u64 \<Rightarrow> ('k sys, usize) comp" where
  "mmap_unsafe k addr len flags fd0 offset =
     mbind (kmcall (c_mmap k addr len flags fd0 offset)) (\<lambda>ptr.
     mbind (kquery (last_os_error k)) (\<lambda>e.
     if ptr = -1 then merr (Mmap (''mmap with len '' @ fmt_dec (unat len) @ '' failed'') e) else mret ptr))"

definition munmap_unsafe :: "'k os \<Rightarrow> usize \<Rightarrow> usize \<Rightarrow> ('k sys, i32) comp" where
  "munmap_unsafe k addr len =
     mbind (kmcall (c_munmap k addr len)) (\<lambda>result.
     mbind (kquery (last_os_error k)) (\<lambda>e.
     if result = -1 then merr (Mmap (''munmap with len '' @ fmt_dec (unat len) @ '' failed'') e)
     else mret result))"

definition mmap_anonymous_unsafe :: "'k os \<Rightarrow> usize \<Rightarrow> mmap_flag set \<Rightarrow> ('k sys, usize) comp" where
  "mmap_anonymous_unsafe k len flags =
     mmap_unsafe k 0 len (flags \<union> {MAP_SHARED, MAP_ANONYMOUS, MAP_POPULATE}) (-1) 0"

definition mmap_fd_unsafe :: "'k os \<Rightarrow> usize \<Rightarrow> mmap_flag set \<Rightarrow> fd \<Rightarrow> ('k sys, usize) comp" where
  "mmap_fd_unsafe k len flags fd0 = mmap_unsafe k 0 len (flags \<union> {MAP_SHARED}) fd0 0"

definition mlock_unsafe :: "'k os \<Rightarrow> usize \<Rightarrow> usize \<Rightarrow> ('k sys, i32) comp" where
  "mlock_unsafe k addr len =
     mbind (kcall (c_mlock k addr len)) (\<lambda>result.
     mbind (kquery (last_os_error k)) (\<lambda>e.
     if result = -1 then merr (error_from_io e) else mret result))"

definition munlock_unsafe :: "'k os \<Rightarrow> usize \<Rightarrow> usize \<Rightarrow> ('k sys, i32) comp" where
  "munlock_unsafe k addr len =
     mbind (kcall (c_munlock k addr len)) (\<lambda>result.
     mbind (kquery (last_os_error k)) (\<lambda>e.
     if result = -1 then merr (error_from_io e) else mret result))"

definition pread_unsafe :: "'k os \<Rightarrow> fd \<Rightarrow> u8 list \<Rightarrow> u64 \<Rightarrow> ('k sys, u8 list) comp" where
  "pread_unsafe k fd0 buf offset =
     mbind (kcall (c_pread k fd0 buf offset)) (\<lambda>(n, buf').
     mbind (kquery (last_os_error k)) (\<lambda>e.
     if n = -1 then merr (Io \<lparr>kind = kind e, message = ''pread failed '' @ message e\<rparr>) else mret buf'))"

definition pwrite_unsafe :: "'k os \<Rightarrow> fd \<Rightarrow> u8 list \<Rightarrow> u64 \<Rightarrow> ('k sys, unit) comp" where
  "pwrite_unsafe k fd0 buf offset =
     mbind (kcall (c_pwrite k fd0 buf offset)) (\<lambda>n.
     mbind (kquery (last_os_error k)) (\<lambda>e.
     if n = -1 then merr (Io \<lparr>kind = kind e, message = ''pwrite failed '' @ message e\<rparr>) else mret ()))"

subsection \<open>Running system calls\<close>

lemma kcall_run [run_simps]:
  "kcall f w = (case f (snd (wdev w)) of (x, k') \<Rightarrow> Some (Ret x, w\<lparr>wdev := (fst (wdev w), k')\<rparr>))"
  by (simp add: kcall_def split: prod.split)

lemma kquery_run [run_simps]: "kquery f w = Some (Ret (f (snd (wdev w))), w)"
  by (simp add: kquery_def)

lemma try_io_run [run_simps]: "try_io (Inr x) w = Some (Ret x, w)" "try_io (Inl e) w = Some (Err (Io e), w)"
  by (simp_all add: try_io_def error_from_io_def)

lemma kcall_io_run [run_simps]:
  "kcall_io f w = (case f (snd (wdev w)) of
     (Inr x, k') \<Rightarrow> Some (Ret x, w\<lparr>wdev := (fst (wdev w), k')\<rparr>)
   | (Inl e, k') \<Rightarrow> Some (Err (Io e), w\<lparr>wdev := (fst (wdev w), k')\<rparr>))"
  by (simp add: kcall_io_def run_simps split: prod.split sum.split)

lemma kmcall_run [run_simps]:
  "kmcall f w = (case f (wmem w, snd (wdev w)) of (x, (m', k')) \<Rightarrow>
     Some (Ret x, \<lparr>wmem = m', wdev = (fst (wdev w), k')\<rparr>))"
  by (simp add: kmcall_def split: prod.split)

lemma static_run [run_simps]:
  "get_static g w = Some (Ret (g (fst (wdev w))), w)"
  "set_static h w = Some (Ret (), w\<lparr>wdev := (h (fst (wdev w)), snd (wdev w))\<rparr>)"
  by (simp_all add: get_static_def set_static_def)

text \<open>Every call to the system returns.\<close>

lemma returns_calls [returns_intros]:
  "returns (kcall f)" "returns (kmcall h)" "returns (kquery g)" "returns (get_static i)" "returns (set_static j)"
  "returns (try_io x)" "returns (kcall_io l)"
  by (auto simp: returns_def run_simps try_io_def split: prod.split sum.split)

lemmas call_defs = ioctl_unsafe_def mmap_unsafe_def munmap_unsafe_def mmap_anonymous_unsafe_def
  mmap_fd_unsafe_def mlock_unsafe_def munlock_unsafe_def pread_unsafe_def pwrite_unsafe_def

lemma returns_unsafe [returns_intros]:
  "returns (ioctl_unsafe k f op name arg)" "returns (mmap_unsafe k a n fl f off)" "returns (munmap_unsafe k a n)"
  "returns (mmap_anonymous_unsafe k n fl)" "returns (mmap_fd_unsafe k n fl f)" "returns (mlock_unsafe k a n)"
  "returns (munlock_unsafe k a n)" "returns (pread_unsafe k f buf off)" "returns (pwrite_unsafe k f buf off)"
  by (simp_all add: call_defs) (intro returns_intros)+

subsection \<open>A concrete system\<close>

text \<open>A system on which every call succeeds and does nothing, for building concrete ones.\<close>

definition null_os :: "'k os" where
  "null_os = \<lparr>os_open = (\<lambda>_ _ k. (Inr 3, k)), os_exists = (\<lambda>_ _. True), os_read_dir = (\<lambda>_ _. Inr []),
     os_read_link = (\<lambda>_ _. Inr ''../1''), os_metadata_len = (\<lambda>_ _. Inr 16384), os_seek = (\<lambda>_ _ k. (Inr (), k)),
     os_read_exact = (\<lambda>_ n k. (Inr (replicate n 0), k)), os_read_to_string = (\<lambda>_ k. (Inr [], k)),
     bo_read_u8 = (\<lambda>_ k. (Inr 0, k)), bo_read_u16 = (\<lambda>_ k. (Inr 0, k)), bo_read_u32 = (\<lambda>_ k. (Inr 0, k)),
     bo_read_u64 = (\<lambda>_ k. (Inr 0, k)), bo_write_u8 = (\<lambda>_ _ k. (Inr (), k)),
     bo_write_u16 = (\<lambda>_ _ k. (Inr (), k)), bo_write_u32 = (\<lambda>_ _ k. (Inr (), k)),
     bo_write_u64 = (\<lambda>_ _ k. (Inr (), k)), c_ioctl = (\<lambda>_ _ a k. ((0, a), k)),
     c_mmap = (\<lambda>a _ _ _ _ s. (a, s)), c_munmap = (\<lambda>_ _ s. (0, s)), c_mlock = (\<lambda>_ _ k. (0, k)),
     c_munlock = (\<lambda>_ _ k. (0, k)), c_pread = (\<lambda>_ buf _ k. ((of_nat (length buf), buf), k)),
     c_pwrite = (\<lambda>_ buf _ k. (of_nat (length buf), k)),
     last_os_error = (\<lambda>_. \<lparr>kind = OtherKind 0, message = []\<rparr>), page_size_of = 4096, process_id = 1\<rparr>"

definition initial_statics :: statics where
  "initial_statics = \<lparr>hugepage_id = 0, iova_width = 47, vfio_group_fds = Map.empty\<rparr>"

definition sys0 :: "unit sys" where
  "sys0 = \<lparr>wmem = (\<lambda>_. 0), wdev = (initial_statics, ())\<rparr>"

lemma sys0_dev [simp]: "wdev sys0 = (initial_statics, ())"
  by (simp add: sys0_def)

end
