(* ===== verification/Pci.thy ===== *)
theory Pci
  imports Os
begin

text \<open>
  Files of the PCI configuration space (\<^verbatim>\<open>src/src/pci.rs\<close>): opening them, reading and writing
  integers at an offset, and parsing a hexadecimal number. Files hold plain ASCII text, so strings
  are lists of 8-bit characters.
\<close>

unbundle bit_operations_syntax

definition COMMAND_REGISTER_OFFSET :: u64 where "COMMAND_REGISTER_OFFSET = 4"
definition BUS_MASTER_ENABLE_BIT :: u64 where "BUS_MASTER_ENABLE_BIT = 2"
definition INTERRUPT_DISABLE :: u64 where "INTERRUPT_DISABLE = 10"

definition resource_path :: "string \<Rightarrow> string \<Rightarrow> string" where
  "resource_path addr resource = ''/sys/bus/pci/devices/'' @ addr @ ''/'' @ resource"

definition pci_open_resource :: "'k os \<Rightarrow> string \<Rightarrow> string \<Rightarrow> ('k sys, fd) comp" where
  "pci_open_resource k addr resource =
     kcall_io (os_open k (resource_path addr resource) \<lparr>mode_read = True, mode_write = True, mode_create = False\<rparr>)"

definition pci_open_resource_ro :: "'k os \<Rightarrow> string \<Rightarrow> string \<Rightarrow> ('k sys, fd) comp" where
  "pci_open_resource_ro k addr resource =
     kcall_io (os_open k (resource_path addr resource) \<lparr>mode_read = True, mode_write = False, mode_create = False\<rparr>)"

definition read_io8 :: "'k os \<Rightarrow> fd \<Rightarrow> u64 \<Rightarrow> ('k sys, u8) comp" where
  "read_io8 k file offset = mbind (kcall_io (os_seek k file offset)) (\<lambda>_. kcall_io (bo_read_u8 k file))"

definition read_io16 :: "'k os \<Rightarrow> fd \<Rightarrow> u64 \<Rightarrow> ('k sys, u16) comp" where
  "read_io16 k file offset = mbind (kcall_io (os_seek k file offset)) (\<lambda>_. kcall_io (bo_read_u16 k file))"

definition read_io32 :: "'k os \<Rightarrow> fd \<Rightarrow> u64 \<Rightarrow> ('k sys, u32) comp" where
  "read_io32 k file offset = mbind (kcall_io (os_seek k file offset)) (\<lambda>_. kcall_io (bo_read_u32 k file))"

definition read_io64 :: "'k os \<Rightarrow> fd \<Rightarrow> u64 \<Rightarrow> ('k sys, u64) comp" where
  "read_io64 k file offset = mbind (kcall_io (os_seek k file offset)) (\<lambda>_. kcall_io (bo_read_u64 k file))"

definition write_io8 :: "'k os \<Rightarrow> fd \<Rightarrow> u8 \<Rightarrow> u64 \<Rightarrow> ('k sys, unit) comp" where
  "write_io8 k file value offset =
     mbind (kcall_io (os_seek k file offset)) (\<lambda>_. kcall_io (bo_write_u8 k file value))"

definition write_io16 :: "'k os \<Rightarrow> fd \<Rightarrow> u16 \<Rightarrow> u64 \<Rightarrow> ('k sys, unit) comp" where
  "write_io16 k file value offset =
     mbind (kcall_io (os_seek k file offset)) (\<lambda>_. kcall_io (bo_write_u16 k file value))"

definition write_io32 :: "'k os \<Rightarrow> fd \<Rightarrow> u32 \<Rightarrow> u64 \<Rightarrow> ('k sys, unit) comp" where
  "write_io32 k file value offset =
     mbind (kcall_io (os_seek k file offset)) (\<lambda>_. kcall_io (bo_write_u32 k file value))"

definition write_io64 :: "'k os \<Rightarrow> fd \<Rightarrow> u64 \<Rightarrow> u64 \<Rightarrow> ('k sys, unit) comp" where
  "write_io64 k file value offset =
     mbind (kcall_io (os_seek k file offset)) (\<lambda>_. kcall_io (bo_write_u64 k file value))"

subsection \<open>Hexadecimal numbers\<close>

text \<open>\<^verbatim>\<open>char::to_digit(16)\<close> and \<^verbatim>\<open>u64::from_str_radix(_, 16)\<close>, with the texts of its errors.\<close>

definition hex_digit :: "char \<Rightarrow> nat option" where
  "hex_digit c =
     (let n = of_char c :: nat
      in if 48 \<le> n \<and> n \<le> 57 then Some (n - 48)
         else if 97 \<le> n \<and> n \<le> 102 then Some (n - 87)
         else if 65 \<le> n \<and> n \<le> 70 then Some (n - 55) else None)"

fun parse_hex_digits :: "string \<Rightarrow> nat \<Rightarrow> string + u64" where
  "parse_hex_digits [] acc = Inr (of_nat acc)"
| "parse_hex_digits (c # cs) acc =
     (case hex_digit c of
        None \<Rightarrow> Inl ''invalid digit found in string''
      | Some d \<Rightarrow>
          if 2 ^ 64 \<le> acc * 16 + d then Inl ''number too large to fit in target type''
          else parse_hex_digits cs (acc * 16 + d))"

definition from_str_radix_16 :: "string \<Rightarrow> string + u64" where
  "from_str_radix_16 s =
     (if s = [] then Inl ''cannot parse integer from empty string''
      else if s = ''+'' \<or> s = ''-'' then Inl ''invalid digit found in string''
      else parse_hex_digits (if hd s = CHR ''+'' then tl s else s) 0)"

fun trim_start_0x :: "string \<Rightarrow> string" where
  "trim_start_0x (a # b # cs) =
     (if a = CHR ''0'' \<and> b = CHR ''x'' then trim_start_0x cs else a # b # cs)"
| "trim_start_0x cs = cs"

definition read_hex :: "'k os \<Rightarrow> fd \<Rightarrow> ('k sys, u64) comp" where
  "read_hex k file =
     mbind (kcall_io (os_read_to_string k file)) (\<lambda>buffer.
     case from_str_radix_16 (trim_start_0x (trim buffer)) of
       Inl e \<Rightarrow> merr (Vroom e)
     | Inr n \<Rightarrow> mret n)"

lemma hex_digit_digit_char:
  assumes "d < 16"
  shows "hex_digit (digit_char d) = Some d" "digit_char d \<noteq> CHR ''x''" "digit_char d \<noteq> CHR ''+''"
    "\<not> is_whitespace (digit_char d)" "digit_char d \<noteq> CHR ''-''"
proof -
  have "d \<in> {0, 1, 2, 3, 4, 5, 6, 7, 8, 9, 10, 11, 12, 13, 14, 15}"
    using assms unfolding insert_iff empty_iff by arith
  then show "hex_digit (digit_char d) = Some d" "digit_char d \<noteq> CHR ''x''" "digit_char d \<noteq> CHR ''+''"
      "\<not> is_whitespace (digit_char d)" "digit_char d \<noteq> CHR ''-''"
    by (auto simp: hex_digit_def digit_char_def is_whitespace_def Let_def)
qed

lemma set_fmt_hex: "c \<in> set (fmt_hex n) \<Longrightarrow> \<exists>d<16. c = digit_char d"
  using set_fmt_base [of 16 n] by (auto simp: fmt_hex_def)

lemma parse_fmt_hex:
  assumes "n < 2 ^ 64"
  shows "parse_hex_digits (fmt_hex n @ ys) 0 = parse_hex_digits ys n"
  using assms unfolding fmt_hex_def
proof (induction n arbitrary: ys rule: less_induct)
  case (less n)
  show ?case
  proof (cases "n < 16")
    case True
    then show ?thesis using less.prems by (subst fmt_base.simps) (simp add: hex_digit_digit_char)
  next
    case False
    then have "fmt_base 16 n = fmt_base 16 (n div 16) @ [digit_char (n mod 16)]"
      by (subst fmt_base.simps) simp
    moreover have "parse_hex_digits (fmt_base 16 (n div 16) @ digit_char (n mod 16) # ys) 0
        = parse_hex_digits (digit_char (n mod 16) # ys) (n div 16)"
      using False less.prems by (intro less.IH) simp_all
    ultimately show ?thesis using less.prems by (simp add: hex_digit_digit_char)
  qed
qed

lemma fmt_hex_nonempty [simp]: "fmt_hex n \<noteq> []"
  unfolding fmt_hex_def by (subst fmt_base.simps) simp

lemma trim_line:
  assumes "s \<noteq> []" and "\<forall>c\<in>set s. \<not> is_whitespace c"
  shows "trim (s @ [CHR 0x0A]) = s"
proof -
  obtain c cs where "s = c # cs" using assms(1) by (cases s) auto
  then have "dropWhile is_whitespace (s @ [CHR 0x0A]) = s @ [CHR 0x0A]" using assms(2) by simp
  moreover have "dropWhile is_whitespace (rev s) = rev s"
    using assms by (cases "rev s") (auto dest: arg_cong [where f = set])
  moreover have "is_whitespace (CHR 0x0A)" by (simp add: is_whitespace_def)
  ultimately show ?thesis by (simp add: trim_def)
qed

lemma trim_start_fmt_hex: "trim_start_0x (''0x'' @ fmt_hex n) = fmt_hex n"
proof (cases "fmt_hex n" rule: trim_start_0x.cases)
  case (1 a b cs)
  then have "b \<noteq> CHR ''x''" using set_fmt_hex [of b n] hex_digit_digit_char(2) by auto
  then show ?thesis by (simp add: 1)
qed simp_all

text \<open>
  C31. A number printed in hexadecimal, with a leading \<^verbatim>\<open>0x\<close> and a newline at the end as the kernel
  prints it, is read back as that number.
\<close>

theorem read_hex_roundtrip:
  assumes "n < 2 ^ 64" and "wdev w = (st, ks)"
    and "os_read_to_string k file ks = (Inr (''0x'' @ fmt_hex n @ [CHR 0x0A]), ks')"
  shows "read_hex k file w = Some (Ret (of_nat n), w\<lparr>wdev := (st, ks')\<rparr>)"
proof -
  have d: "c \<in> set (fmt_hex n) \<Longrightarrow> \<not> is_whitespace c \<and> c \<noteq> CHR ''+'' \<and> c \<noteq> CHR ''-''" for c
    using set_fmt_hex [of c n] hex_digit_digit_char by auto
  have "trim ((''0x'' @ fmt_hex n) @ [CHR 0x0A]) = ''0x'' @ fmt_hex n"
    using d by (intro trim_line) (auto simp: is_whitespace_def)
  then have "trim_start_0x (trim (''0x'' @ fmt_hex n @ [CHR 0x0A])) = fmt_hex n"
    using trim_start_fmt_hex by simp
  moreover have "from_str_radix_16 (fmt_hex n) = Inr (of_nat n)"
  proof -
    have "fmt_hex n \<noteq> ''+''" "fmt_hex n \<noteq> ''-''" using d [of "CHR ''+''"] d [of "CHR ''-''"] by auto
    moreover have "hd (fmt_hex n) \<noteq> CHR ''+''" using d [of "hd (fmt_hex n)"] by simp
    ultimately show ?thesis
      using parse_fmt_hex [OF assms(1), of "[]"] by (simp add: from_str_radix_16_def)
  qed
  ultimately show ?thesis
    by (simp add: read_hex_def kcall_io_def kcall_def try_io_def run_simps assms(2,3) del: append_Cons)
qed

theorem read_hex_roundtrip_witness:
  "read_hex (null_os\<lparr>os_read_to_string := \<lambda>_ k. (Inr (''0x'' @ fmt_hex 0x144D @ [CHR 0x0A]), k)\<rparr>) 3 sys0
    = Some (Ret 0x144D, sys0)"
proof -
  let ?k = "null_os\<lparr>os_read_to_string := \<lambda>_ k. (Inr (''0x'' @ fmt_hex 0x144D @ [CHR 0x0A]), k)\<rparr>"
  have "read_hex ?k 3 sys0 = Some (Ret (of_nat 0x144D), sys0\<lparr>wdev := (initial_statics, ())\<rparr>)"
    by (rule read_hex_roundtrip) simp_all
  then show ?thesis by (simp add: sys0_def)
qed

end
