(* ===== verification/Ioctl_Op.thy ===== *)
theory Ioctl_Op
  imports Prelude
begin

text \<open>
  The requests of the VFIO and IOMMUFD interfaces (\<^verbatim>\<open>src/src/ioctl_op.rs\<close>) and the structures passed
  with them (\<^verbatim>\<open>src/src/vfio_structs.rs\<close>), with their \<^verbatim>\<open>repr(C)\<close> layouts. None of the structures has
  padding: their fields are ordered so that each is aligned.
\<close>

unbundle bit_operations_syntax

subsection \<open>Requests\<close>

datatype ioctl_op =
    VFIO_GET_API_VERSION
  | VFIO_CHECK_EXTENSION
  | VFIO_SET_IOMMU
  | VFIO_GROUP_GET_STATUS
  | VFIO_GROUP_SET_CONTAINER
  | VFIO_GROUP_GET_DEVICE_FD
  | VFIO_DEVICE_GET_REGION_INFO
  | VFIO_IOMMU_GET_INFO
  | VFIO_IOMMU_MAP_DMA
  | VFIO_IOMMU_UNMAP_DMA
  | VFIO_DEVICE_GET_IRQ_INFO
  | VFIO_DEVICE_SET_IRQS
  | VFIO_DEVICE_BIND_IOMMUFD
  | VFIO_DEVICE_ATTACH_IOMMUFD_PT
  | IOMMU_IOAS_ALLOC
  | IOMMU_IOAS_MAP
  | IOMMU_IOAS_UNMAP

definition IO_code :: "u64 \<Rightarrow> u64 \<Rightarrow> u64" where
  "IO_code ty nr = push_bit 8 ty OR push_bit 0 nr"

definition VFIO_TYPE :: u64 where "VFIO_TYPE = 59"
definition VFIO_BASE :: u64 where "VFIO_BASE = 100"
definition IOMMUFD_TYPE :: u64 where "IOMMUFD_TYPE = 59"

fun ioctl_type_nr :: "ioctl_op \<Rightarrow> u64 \<times> u64" where
  "ioctl_type_nr VFIO_GET_API_VERSION = (VFIO_TYPE, VFIO_BASE + 0)"
| "ioctl_type_nr VFIO_CHECK_EXTENSION = (VFIO_TYPE, VFIO_BASE + 1)"
| "ioctl_type_nr VFIO_SET_IOMMU = (VFIO_TYPE, VFIO_BASE + 2)"
| "ioctl_type_nr VFIO_GROUP_GET_STATUS = (VFIO_TYPE, VFIO_BASE + 3)"
| "ioctl_type_nr VFIO_GROUP_SET_CONTAINER = (VFIO_TYPE, VFIO_BASE + 4)"
| "ioctl_type_nr VFIO_GROUP_GET_DEVICE_FD = (VFIO_TYPE, VFIO_BASE + 6)"
| "ioctl_type_nr VFIO_DEVICE_GET_REGION_INFO = (VFIO_TYPE, VFIO_BASE + 8)"
| "ioctl_type_nr VFIO_IOMMU_GET_INFO = (VFIO_TYPE, VFIO_BASE + 12)"
| "ioctl_type_nr VFIO_IOMMU_MAP_DMA = (VFIO_TYPE, VFIO_BASE + 13)"
| "ioctl_type_nr VFIO_IOMMU_UNMAP_DMA = (VFIO_TYPE, VFIO_BASE + 14)"
| "ioctl_type_nr VFIO_DEVICE_GET_IRQ_INFO = (VFIO_TYPE, VFIO_BASE + 9)"
| "ioctl_type_nr VFIO_DEVICE_SET_IRQS = (VFIO_TYPE, VFIO_BASE + 10)"
| "ioctl_type_nr VFIO_DEVICE_BIND_IOMMUFD = (VFIO_TYPE, VFIO_BASE + 18)"
| "ioctl_type_nr VFIO_DEVICE_ATTACH_IOMMUFD_PT = (VFIO_TYPE, VFIO_BASE + 19)"
| "ioctl_type_nr IOMMU_IOAS_ALLOC = (IOMMUFD_TYPE, 0x81)"
| "ioctl_type_nr IOMMU_IOAS_MAP = (IOMMUFD_TYPE, 0x85)"
| "ioctl_type_nr IOMMU_IOAS_UNMAP = (IOMMUFD_TYPE, 0x86)"

definition op_code :: "ioctl_op \<Rightarrow> u64" where
  "op_code op = (case ioctl_type_nr op of (ty, nr) \<Rightarrow> IO_code ty nr)"

fun display_op :: "ioctl_op \<Rightarrow> string" where
  "display_op VFIO_GET_API_VERSION = ''VFIO_GET_API_VERSION''"
| "display_op VFIO_CHECK_EXTENSION = ''VFIO_CHECK_EXTENSION''"
| "display_op VFIO_SET_IOMMU = ''VFIO_SET_IOMMU''"
| "display_op VFIO_GROUP_GET_STATUS = ''VFIO_GROUP_GET_STATUS''"
| "display_op VFIO_GROUP_SET_CONTAINER = ''VFIO_GROUP_SET_CONTAINER''"
| "display_op VFIO_GROUP_GET_DEVICE_FD = ''VFIO_GROUP_GET_DEVICE_FD''"
| "display_op VFIO_DEVICE_GET_REGION_INFO = ''VFIO_DEVICE_GET_REGION_INFO''"
| "display_op VFIO_IOMMU_GET_INFO = ''VFIO_IOMMU_GET_INFO''"
| "display_op VFIO_IOMMU_MAP_DMA = ''VFIO_IOMMU_MAP_DMA''"
| "display_op VFIO_IOMMU_UNMAP_DMA = ''VFIO_IOMMU_UNMAP_DMA''"
| "display_op VFIO_DEVICE_GET_IRQ_INFO = ''VFIO_DEVICE_GET_IRQ_INFO''"
| "display_op VFIO_DEVICE_SET_IRQS = ''VFIO_DEVICE_SET_IRQS''"
| "display_op VFIO_DEVICE_BIND_IOMMUFD = ''VFIO_DEVICE_BIND_IOMMUFD''"
| "display_op VFIO_DEVICE_ATTACH_IOMMUFD_PT = ''VFIO_DEVICE_ATTACH_IOMMUFD_PT''"
| "display_op IOMMU_IOAS_ALLOC = ''IOMMU_IOAS_ALLOC''"
| "display_op IOMMU_IOAS_MAP = ''IOMMU_IOAS_MAP''"
| "display_op IOMMU_IOAS_UNMAP = ''IOMMU_IOAS_UNMAP''"

definition VFIO_GROUP_FLAGS_VIABLE :: u32 where "VFIO_GROUP_FLAGS_VIABLE = push_bit 0 1"
definition VFIO_DMA_MAP_FLAG_READ :: u32 where "VFIO_DMA_MAP_FLAG_READ = push_bit 0 1"
definition VFIO_DMA_MAP_FLAG_WRITE :: u32 where "VFIO_DMA_MAP_FLAG_WRITE = push_bit 1 1"
definition VFIO_IRQ_SET_DATA_NONE :: u32 where "VFIO_IRQ_SET_DATA_NONE = push_bit 0 1"
definition VFIO_IRQ_SET_DATA_EVENTFD :: u32 where "VFIO_IRQ_SET_DATA_EVENTFD = push_bit 2 1"
definition VFIO_IRQ_SET_ACTION_TRIGGER :: u32 where "VFIO_IRQ_SET_ACTION_TRIGGER = push_bit 5 1"
definition IOMMU_IOAS_MAP_FIXED_IOVA :: u32 where "IOMMU_IOAS_MAP_FIXED_IOVA = push_bit 0 1"
definition IOMMU_IOAS_MAP_WRITEABLE :: u32 where "IOMMU_IOAS_MAP_WRITEABLE = push_bit 1 1"
definition IOMMU_IOAS_MAP_READABLE :: u32 where "IOMMU_IOAS_MAP_READABLE = push_bit 1 1"

subsection \<open>Structures\<close>

text \<open>\<^verbatim>\<open>mem::size_of\<close> of a \<^verbatim>\<open>repr(C)\<close> structure, from the sizes of its fields: each field is aligned to its size, the
  whole to its largest field.\<close>

fun fields_end :: "nat \<Rightarrow> nat list \<Rightarrow> nat" where
  "fields_end off [] = off"
| "fields_end off (n # ns) = fields_end ((off + n - 1) div n * n + n) ns"

definition repr_C_size :: "nat list \<Rightarrow> nat" where
  "repr_C_size ns = (let align = foldr max ns 1 in (fields_end 0 ns + align - 1) div align * align)"

record vfio_iommu_type1_dma_map =
  dmap_argsz :: u32
  dmap_flags :: u32
  dmap_vaddr :: u64
  dmap_iova :: u64
  dmap_size :: u64

definition encode_dmap :: "vfio_iommu_type1_dma_map \<Rightarrow> u8 list" where
  "encode_dmap s =
     le_bytes 4 (dmap_argsz s) @ le_bytes 4 (dmap_flags s) @ le_bytes 8 (dmap_vaddr s) @ le_bytes 8 (dmap_iova s) @ le_bytes 8 (dmap_size s)"

definition decode_dmap :: "u8 list \<Rightarrow> vfio_iommu_type1_dma_map" where
  "decode_dmap bs =
     \<lparr>dmap_argsz = bytes_field bs 0 4, dmap_flags = bytes_field bs 4 4, dmap_vaddr = bytes_field bs 8 8, dmap_iova = bytes_field bs 16 8, dmap_size = bytes_field bs 24 8\<rparr>"

definition size_of_dmap :: u32 where "size_of_dmap = of_nat (repr_C_size [4, 4, 8, 8, 8])"

record vfio_iommu_type1_dma_unmap =
  dunmap_argsz :: u32
  dunmap_flags :: u32
  dunmap_iova :: u64
  dunmap_size :: u64
  dunmap_data :: u64

definition encode_dunmap :: "vfio_iommu_type1_dma_unmap \<Rightarrow> u8 list" where
  "encode_dunmap s =
     le_bytes 4 (dunmap_argsz s) @ le_bytes 4 (dunmap_flags s) @ le_bytes 8 (dunmap_iova s) @ le_bytes 8 (dunmap_size s) @ le_bytes 8 (dunmap_data s)"

definition decode_dunmap :: "u8 list \<Rightarrow> vfio_iommu_type1_dma_unmap" where
  "decode_dunmap bs =
     \<lparr>dunmap_argsz = bytes_field bs 0 4, dunmap_flags = bytes_field bs 4 4, dunmap_iova = bytes_field bs 8 8, dunmap_size = bytes_field bs 16 8, dunmap_data = bytes_field bs 24 8\<rparr>"

definition size_of_dunmap :: u32 where "size_of_dunmap = of_nat (repr_C_size [4, 4, 8, 8, 8])"

record vfio_group_status =
  gstat_argsz :: u32
  gstat_flags :: u32

definition encode_gstat :: "vfio_group_status \<Rightarrow> u8 list" where
  "encode_gstat s =
     le_bytes 4 (gstat_argsz s) @ le_bytes 4 (gstat_flags s)"

definition decode_gstat :: "u8 list \<Rightarrow> vfio_group_status" where
  "decode_gstat bs =
     \<lparr>gstat_argsz = bytes_field bs 0 4, gstat_flags = bytes_field bs 4 4\<rparr>"

definition size_of_gstat :: u32 where "size_of_gstat = of_nat (repr_C_size [4, 4])"

record vfio_region_info =
  rinfo_argsz :: u32
  rinfo_flags :: u32
  rinfo_index :: u32
  rinfo_cap_offset :: u32
  rinfo_size :: u64
  rinfo_offset :: u64

definition encode_rinfo :: "vfio_region_info \<Rightarrow> u8 list" where
  "encode_rinfo s =
     le_bytes 4 (rinfo_argsz s) @ le_bytes 4 (rinfo_flags s) @ le_bytes 4 (rinfo_index s) @ le_bytes 4 (rinfo_cap_offset s) @ le_bytes 8 (rinfo_size s) @ le_bytes 8 (rinfo_offset s)"

definition decode_rinfo :: "u8 list \<Rightarrow> vfio_region_info" where
  "decode_rinfo bs =
     \<lparr>rinfo_argsz = bytes_field bs 0 4, rinfo_flags = bytes_field bs 4 4, rinfo_index = bytes_field bs 8 4, rinfo_cap_offset = bytes_field bs 12 4, rinfo_size = bytes_field bs 16 8, rinfo_offset = bytes_field bs 24 8\<rparr>"

definition size_of_rinfo :: u32 where "size_of_rinfo = of_nat (repr_C_size [4, 4, 4, 4, 8, 8])"

record vfio_iommu_type1_info =
  iinfo_argsz :: u32
  iinfo_flags :: u32
  iinfo_iova_pgsizes :: u64
  iinfo_cap_offset :: u32
  iinfo_pad :: u32

definition encode_iinfo :: "vfio_iommu_type1_info \<Rightarrow> u8 list" where
  "encode_iinfo s =
     le_bytes 4 (iinfo_argsz s) @ le_bytes 4 (iinfo_flags s) @ le_bytes 8 (iinfo_iova_pgsizes s) @ le_bytes 4 (iinfo_cap_offset s) @ le_bytes 4 (iinfo_pad s)"

definition decode_iinfo :: "u8 list \<Rightarrow> vfio_iommu_type1_info" where
  "decode_iinfo bs =
     \<lparr>iinfo_argsz = bytes_field bs 0 4, iinfo_flags = bytes_field bs 4 4, iinfo_iova_pgsizes = bytes_field bs 8 8, iinfo_cap_offset = bytes_field bs 16 4, iinfo_pad = bytes_field bs 20 4\<rparr>"

definition size_of_iinfo :: u32 where "size_of_iinfo = of_nat (repr_C_size [4, 4, 8, 4, 4])"

record iommu_ioas_map =
  imap_size :: u32
  imap_flags :: u32
  imap_ioas_id :: u32
  imap_reserved :: u32
  imap_user_va :: u64
  imap_length :: u64
  imap_iova :: u64

definition encode_imap :: "iommu_ioas_map \<Rightarrow> u8 list" where
  "encode_imap s =
     le_bytes 4 (imap_size s) @ le_bytes 4 (imap_flags s) @ le_bytes 4 (imap_ioas_id s) @ le_bytes 4 (imap_reserved s) @ le_bytes 8 (imap_user_va s) @ le_bytes 8 (imap_length s) @ le_bytes 8 (imap_iova s)"

definition decode_imap :: "u8 list \<Rightarrow> iommu_ioas_map" where
  "decode_imap bs =
     \<lparr>imap_size = bytes_field bs 0 4, imap_flags = bytes_field bs 4 4, imap_ioas_id = bytes_field bs 8 4, imap_reserved = bytes_field bs 12 4, imap_user_va = bytes_field bs 16 8, imap_length = bytes_field bs 24 8, imap_iova = bytes_field bs 32 8\<rparr>"

definition size_of_imap :: u32 where "size_of_imap = of_nat (repr_C_size [4, 4, 4, 4, 8, 8, 8])"

record iommu_ioas_unmap =
  iunmap_size :: u32
  iunmap_ioas_id :: u32
  iunmap_iova :: u64
  iunmap_length :: u64

definition encode_iunmap :: "iommu_ioas_unmap \<Rightarrow> u8 list" where
  "encode_iunmap s =
     le_bytes 4 (iunmap_size s) @ le_bytes 4 (iunmap_ioas_id s) @ le_bytes 8 (iunmap_iova s) @ le_bytes 8 (iunmap_length s)"

definition decode_iunmap :: "u8 list \<Rightarrow> iommu_ioas_unmap" where
  "decode_iunmap bs =
     \<lparr>iunmap_size = bytes_field bs 0 4, iunmap_ioas_id = bytes_field bs 4 4, iunmap_iova = bytes_field bs 8 8, iunmap_length = bytes_field bs 16 8\<rparr>"

definition size_of_iunmap :: u32 where "size_of_iunmap = of_nat (repr_C_size [4, 4, 8, 8])"

record vfio_device_bind_iommufd =
  bind_argsz :: u32
  bind_flags :: u32
  bind_iommufd :: u32
  bind_out_devid :: u32

definition encode_bind :: "vfio_device_bind_iommufd \<Rightarrow> u8 list" where
  "encode_bind s =
     le_bytes 4 (bind_argsz s) @ le_bytes 4 (bind_flags s) @ le_bytes 4 (bind_iommufd s) @ le_bytes 4 (bind_out_devid s)"

definition decode_bind :: "u8 list \<Rightarrow> vfio_device_bind_iommufd" where
  "decode_bind bs =
     \<lparr>bind_argsz = bytes_field bs 0 4, bind_flags = bytes_field bs 4 4, bind_iommufd = bytes_field bs 8 4, bind_out_devid = bytes_field bs 12 4\<rparr>"

definition size_of_bind :: u32 where "size_of_bind = of_nat (repr_C_size [4, 4, 4, 4])"

record iommu_ioas_alloc =
  ialloc_size :: u32
  ialloc_flags :: u32
  ialloc_out_ioas_id :: u32

definition encode_ialloc :: "iommu_ioas_alloc \<Rightarrow> u8 list" where
  "encode_ialloc s =
     le_bytes 4 (ialloc_size s) @ le_bytes 4 (ialloc_flags s) @ le_bytes 4 (ialloc_out_ioas_id s)"

definition decode_ialloc :: "u8 list \<Rightarrow> iommu_ioas_alloc" where
  "decode_ialloc bs =
     \<lparr>ialloc_size = bytes_field bs 0 4, ialloc_flags = bytes_field bs 4 4, ialloc_out_ioas_id = bytes_field bs 8 4\<rparr>"

definition size_of_ialloc :: u32 where "size_of_ialloc = of_nat (repr_C_size [4, 4, 4])"

record vfio_device_attach_iommufd_pt =
  attach_argsz :: u32
  attach_flags :: u32
  attach_pt_id :: u32

definition encode_attach :: "vfio_device_attach_iommufd_pt \<Rightarrow> u8 list" where
  "encode_attach s =
     le_bytes 4 (attach_argsz s) @ le_bytes 4 (attach_flags s) @ le_bytes 4 (attach_pt_id s)"

definition decode_attach :: "u8 list \<Rightarrow> vfio_device_attach_iommufd_pt" where
  "decode_attach bs =
     \<lparr>attach_argsz = bytes_field bs 0 4, attach_flags = bytes_field bs 4 4, attach_pt_id = bytes_field bs 8 4\<rparr>"

definition size_of_attach :: u32 where "size_of_attach = of_nat (repr_C_size [4, 4, 4])"

lemmas encode_defs = encode_dmap_def encode_dunmap_def encode_gstat_def encode_rinfo_def encode_iinfo_def encode_imap_def encode_iunmap_def encode_bind_def encode_ialloc_def encode_attach_def
lemmas decode_defs = decode_dmap_def decode_dunmap_def decode_gstat_def decode_rinfo_def decode_iinfo_def decode_imap_def decode_iunmap_def decode_bind_def decode_ialloc_def decode_attach_def
lemmas size_defs = repr_C_size_def Let_def size_of_dmap_def size_of_dunmap_def size_of_gstat_def size_of_rinfo_def size_of_iinfo_def size_of_imap_def size_of_iunmap_def size_of_bind_def size_of_ialloc_def size_of_attach_def

lemma decode_encode_struct [simp]:
  "decode_dmap (encode_dmap x0) = x0"
  "decode_dunmap (encode_dunmap x1) = x1"
  "decode_gstat (encode_gstat x2) = x2"
  "decode_rinfo (encode_rinfo x3) = x3"
  "decode_iinfo (encode_iinfo x4) = x4"
  "decode_imap (encode_imap x5) = x5"
  "decode_iunmap (encode_iunmap x6) = x6"
  "decode_bind (encode_bind x7) = x7"
  "decode_ialloc (encode_ialloc x8) = x8"
  "decode_attach (encode_attach x9) = x9"
  by (simp_all add: encode_defs decode_defs bytes_field_def)

lemma op_code_values:
  "op_code VFIO_GET_API_VERSION = 0x3B64"
  "op_code VFIO_CHECK_EXTENSION = 0x3B65"
  "op_code VFIO_SET_IOMMU = 0x3B66"
  "op_code VFIO_GROUP_GET_STATUS = 0x3B67"
  "op_code VFIO_GROUP_SET_CONTAINER = 0x3B68"
  "op_code VFIO_GROUP_GET_DEVICE_FD = 0x3B6A"
  "op_code VFIO_DEVICE_GET_REGION_INFO = 0x3B6C"
  "op_code VFIO_IOMMU_GET_INFO = 0x3B70"
  "op_code VFIO_IOMMU_MAP_DMA = 0x3B71"
  "op_code VFIO_IOMMU_UNMAP_DMA = 0x3B72"
  "op_code VFIO_DEVICE_GET_IRQ_INFO = 0x3B6D"
  "op_code VFIO_DEVICE_SET_IRQS = 0x3B6E"
  "op_code VFIO_DEVICE_BIND_IOMMUFD = 0x3B76"
  "op_code VFIO_DEVICE_ATTACH_IOMMUFD_PT = 0x3B77"
  "op_code IOMMU_IOAS_ALLOC = 0x3B81"
  "op_code IOMMU_IOAS_MAP = 0x3B85"
  "op_code IOMMU_IOAS_UNMAP = 0x3B86"
  by (simp_all add: op_code_def IO_code_def VFIO_TYPE_def VFIO_BASE_def IOMMUFD_TYPE_def push_bit_eq_mult)

text \<open>
  Request codes and structures. Different requests have different codes, each in the low 16
  bits as the \<^verbatim>\<open>_IO\<close> macro of the kernel builds them, and the size the driver announces in the
  first field of each structure is the number of bytes the structure takes.
\<close>

lemma ioctl_codes_and_sizes:
  "inj op_code \<and> unat (op_code op) < 2 ^ 16
   \<and> length (encode_dmap x0) = unat size_of_dmap
   \<and> length (encode_dunmap x1) = unat size_of_dunmap
   \<and> length (encode_gstat x2) = unat size_of_gstat
   \<and> length (encode_rinfo x3) = unat size_of_rinfo
   \<and> length (encode_iinfo x4) = unat size_of_iinfo
   \<and> length (encode_imap x5) = unat size_of_imap
   \<and> length (encode_iunmap x6) = unat size_of_iunmap
   \<and> length (encode_bind x7) = unat size_of_bind
   \<and> length (encode_ialloc x8) = unat size_of_ialloc
   \<and> length (encode_attach x9) = unat size_of_attach"
proof -
  have "x = y" if "op_code x = op_code y" for x y
    using that by (cases x; cases y) (simp_all add: op_code_values)
  moreover have "unat (op_code op) < 2 ^ 16" by (cases op) (simp_all add: op_code_values)
  ultimately show ?thesis by (auto simp: inj_def encode_defs size_defs)
qed

end
