(* ===== verification/Physical.thy ===== *)
theory Physical
  imports Pci Nvme_Device
begin

text \<open>
  Memory at physical addresses (\<^verbatim>\<open>src/src/physical.rs\<close>): huge pages backed by files, translated
  through the page map of the process, and registers through the device's resource file.
\<close>

unbundle bit_operations_syntax

record physical =
  ph_pci_addr :: string
  ph_page_size :: pagesize

text \<open>The loop of \<^verbatim>\<open>is_bound_to_pci_stub\<close> over the entries of the driver's directory.\<close>

fun find_link :: "string \<Rightarrow> (io_error + dir_entry) list \<Rightarrow> ('s, bool) comp" where
  "find_link addr [] = mret False"
| "find_link addr (Inl e # es) = merr (error_from_io e)"
| "find_link addr (Inr entry # es) =
     (if \<not> is_symlink entry then find_link addr es
      else case file_name entry of
             Some name \<Rightarrow> if name = addr then mret True else find_link addr es
           | None \<Rightarrow> find_link addr es)"

definition pci_stub_dir :: string where
  "pci_stub_dir = ''/sys/bus/pci/drivers/pci-stub''"

definition is_bound_to_pci_stub :: "'k os \<Rightarrow> physical \<Rightarrow> ('k sys, bool) comp" where
  "is_bound_to_pci_stub k mmio =
     mbind (kquery (os_exists k pci_stub_dir)) (\<lambda>ex.
     if \<not> ex then mret False
     else mbind (kquery (os_read_dir k pci_stub_dir)) (\<lambda>r.
          mbind (try_io r) (find_link (ph_pci_addr mmio))))"

definition virt_to_phys :: "'k os \<Rightarrow> usize \<Rightarrow> ('k sys, usize) comp" where
  "virt_to_phys k addr =
     (let pagesize = page_size_of k
      in
      mbind (kcall_io (os_open k ''/proc/self/pagemap'' \<lparr>mode_read = True, mode_write = False, mode_create = False\<rparr>)) (\<lambda>file.
      if pagesize = 0 then mpanic Division_by_zero
      else
      mbind (kcall_io (os_seek k file (addr div pagesize * 8))) (\<lambda>_.
      mbind (kcall_io (os_read_exact k file 8)) (\<lambda>buffer.
      mret ((le_word buffer AND 0x007FFFFFFFFFFFFF) * pagesize + addr mod pagesize)))))"

definition update_command :: "'k os \<Rightarrow> physical \<Rightarrow> u64 \<Rightarrow> ('k sys, unit) comp" where
  "update_command k mmio b =
     mbind (kcall_io (os_open k (resource_path (ph_pci_addr mmio) ''config'')
              \<lparr>mode_read = True, mode_write = True, mode_create = False\<rparr>)) (\<lambda>file.
     mbind (read_io16 k file COMMAND_REGISTER_OFFSET) (\<lambda>dma.
     write_io16 k file (dma OR push_bit (unat b) 1) COMMAND_REGISTER_OFFSET))"

definition ph_enable_dma :: "'k os \<Rightarrow> physical \<Rightarrow> ('k sys, unit) comp" where
  "ph_enable_dma k mmio = update_command k mmio BUS_MASTER_ENABLE_BIT"

definition disable_interrupts :: "'k os \<Rightarrow> physical \<Rightarrow> ('k sys, unit) comp" where
  "disable_interrupts k mmio = update_command k mmio INTERRUPT_DISABLE"

definition physical_init_with_args :: "'k os \<Rightarrow> string \<Rightarrow> pagesize \<Rightarrow> ('k sys, physical) comp" where
  "physical_init_with_args k addr p =
     (if p = Page4K then merr (Mmio ''Pagesize 4K not supported for non-Vfio!'')
      else
        let mmio = \<lparr>ph_pci_addr = addr, ph_page_size = p\<rparr>
        in mbind (is_bound_to_pci_stub k mmio) (\<lambda>bound.
           if \<not> bound then merr (Mmio ''The device is not bound to Pci-Stub!'')
           else
             mbind (ph_enable_dma k mmio) (\<lambda>_.
             mbind (disable_interrupts k mmio) (\<lambda>_.
             mret mmio))))"

definition physical_init :: "'k os \<Rightarrow> string \<Rightarrow> ('k sys, physical) comp" where
  "physical_init k addr = physical_init_with_args k addr DEFAULT_PAGE_SIZE"

definition ph_allocate :: "'k os \<Rightarrow> physical \<Rightarrow> usize \<Rightarrow> ('k sys, dma) comp" where
  "ph_allocate k mmio n =
     (let sz = shift_up (ph_page_size mmio) n
      in
      mbind (get_static hugepage_id) (\<lambda>i.
      mbind (set_static (\<lambda>s. s\<lparr>hugepage_id := hugepage_id s + 1\<rparr>)) (\<lambda>_.
      let path = ''/mnt/huge/nvme-'' @ fmt_dec (process_id k) @ ''-'' @ fmt_dec (unat i)
      in
      mbind (kcall (os_open k path \<lparr>mode_read = True, mode_write = True, mode_create = True\<rparr>)) (\<lambda>res.
      case res of
        Inl e \<Rightarrow>
          merr (Io \<lparr>kind = NotFound,
            message = ''huge page '' @ path @ '' could not be created - huge pages enabled?, '' @ message e\<rparr>)
      | Inr file \<Rightarrow>
          mbind (mmap_fd_unsafe k sz (mmap_flags (ph_page_size mmio)) file) (\<lambda>ptr.
          mbind (mlock_unsafe k ptr sz) (\<lambda>_.
          mbind (virt_to_phys k ptr) (\<lambda>pa.
          mret \<lparr>virt = ptr, phys = pa, dsize = sz\<rparr>)))))))"

definition ph_map_resource :: "'k os \<Rightarrow> physical \<Rightarrow> ('k sys, usize \<times> usize) comp" where
  "ph_map_resource k mmio =
     (let path = resource_path (ph_pci_addr mmio) ''resource0''
      in
      mbind (kcall_io (os_open k path \<lparr>mode_read = True, mode_write = True, mode_create = False\<rparr>)) (\<lambda>file.
      mbind (kquery (os_metadata_len k path)) (\<lambda>r.
      mbind (try_io r) (\<lambda>len.
      if len = 0 then merr (Vroom ''Resource0 len is 0'')
      else mbind (mmap_fd_unsafe k len {} file) (\<lambda>ptr. mret (ptr, len))))))"

definition ph_deallocate :: "'k os \<Rightarrow> physical \<Rightarrow> dma \<Rightarrow> ('k sys, unit) comp" where
  "ph_deallocate k mmio d =
     mbind (munlock_unsafe k (virt d) (dsize d)) (\<lambda>_.
     mbind (munmap_unsafe k (virt d) (dsize d)) (\<lambda>_.
     mret ()))"

subsection \<open>Translating addresses\<close>

text \<open>
  C33. Address translation. The page map holds one word of 8 bytes per page; its low 55 bits are the
  page's frame number. For pages of 4 KiB, and frames of an address space of 64 bits, the
  translated address lies in that frame, at the offset the virtual address has in its page.
\<close>

theorem virt_to_phys_frame:
  assumes "page_size_of k = 4096" and "wdev w = (st, ks)"
    and "os_open k ''/proc/self/pagemap'' \<lparr>mode_read = True, mode_write = False, mode_create = False\<rparr> ks = (Inr f, ks1)"
    and "os_seek k f (of_nat (unat addr div 4096 * 8)) ks1 = (Inr (), ks2)"
    and "os_read_exact k f 8 ks2 = (Inr (le_bytes 8 (word :: u64)), ks3)"
    and "frame = unat (take_bit 55 word)" and "frame < 2 ^ 52"
  shows "\<exists>pa. virt_to_phys k addr w = Some (Ret pa, w\<lparr>wdev := (st, ks3)\<rparr>)
    \<and> unat pa = frame * 4096 + unat addr mod 4096"
proof -
  have m: "(0x007FFFFFFFFFFFFF :: u64) = mask 55" by (simp add: mask_eq_exp_minus_1)
  have seek: "addr div 4096 * 8 = of_nat (unat addr div 4096 * 8)"
  proof -
    have "unat addr div 4096 < 2 ^ 61"
      by (subst div_less_iff_less_mult) (simp_all add: less_trans [OF unat_less_2p64])
    then have "unat (addr div 4096 * 8) = unat addr div 4096 * 8"
      by (subst unat_mult_no_wrap) (simp_all add: unat_div)
    then show ?thesis by (rule word_of_unat)
  qed
  let ?pa = "(le_word (le_bytes 8 word) AND 0x007FFFFFFFFFFFFF) * 4096 + addr mod 4096 :: u64"
  have "virt_to_phys k addr w = Some (Ret ?pa, w\<lparr>wdev := (st, ks3)\<rparr>)"
    using assms(1-5) by (simp add: virt_to_phys_def Let_def run_simps seek)
  moreover have "?pa = take_bit 55 word * 4096 + addr mod 4096"
    by (simp only: m take_bit_eq_mask) simp
  moreover have f: "unat (take_bit 55 word * 4096) = frame * 4096"
    using assms(6,7) by (subst unat_mult_no_wrap) simp_all
  moreover have "unat (take_bit 55 word * 4096 + addr mod 4096) = frame * 4096 + unat addr mod 4096"
  proof -
    have "unat addr mod 4096 < 4096" by simp
    then have "frame * 4096 + unat addr mod 4096 < 2 ^ 64" using assms(7) by simp
    then show ?thesis using f by (subst unat_add_no_wrap) (simp_all add: unat_mod_word)
  qed
  ultimately show ?thesis by metis
qed

text \<open>A page map with frame \<open>0x1234\<close> at every page, present bit set.\<close>

theorem virt_to_phys_frame_witness:
  "\<exists>pa. virt_to_phys (null_os\<lparr>os_read_exact := \<lambda>_ _ k. (Inr (le_bytes 8 (0x8000000000001234 :: u64)), k)\<rparr>) 0x7F0012345678 sys0
      = Some (Ret pa, sys0) \<and> unat pa = 0x1234678"
proof -
  let ?k = "null_os\<lparr>os_read_exact := \<lambda>_ _ k. (Inr (le_bytes 8 (0x8000000000001234 :: u64)), k)\<rparr>"
  have f: "take_bit 55 (0x8000000000001234 :: u64) = 0x1234" by (simp add: take_bit_eq_mod)
  have "\<exists>pa. virt_to_phys ?k 0x7F0012345678 sys0 = Some (Ret pa, sys0\<lparr>wdev := (initial_statics, ())\<rparr>)
    \<and> unat pa = unat (take_bit 55 (0x8000000000001234 :: u64)) * 4096 + unat (0x7F0012345678 :: usize) mod 4096"
    by (rule virt_to_phys_frame [OF _ _ _ _ _ refl]) (simp_all add: null_os_def f)
  then show ?thesis by (simp add: f sys0_def)
qed

subsection \<open>Initialisation\<close>

text \<open>
  A named assumption on the configuration file of a device: \<open>C v ks\<close> says that the command register
  holds \<open>v\<close> in kernel state \<open>ks\<close>; opening the file, reading the register and writing it back work,
  and what is written is what the register holds.
\<close>

definition command_register :: "'k os \<Rightarrow> string \<Rightarrow> (u16 \<Rightarrow> 'k \<Rightarrow> bool) \<Rightarrow> bool" where
  "command_register k path C \<longleftrightarrow> (\<forall>v ks. C v ks \<longrightarrow>
     (\<exists>f ks1 ks2 ks3 ks4.
        os_open k path \<lparr>mode_read = True, mode_write = True, mode_create = False\<rparr> ks = (Inr f, ks1)
      \<and> os_seek k f 4 ks1 = (Inr (), ks2) \<and> bo_read_u16 k f ks2 = (Inr v, ks3)
      \<and> os_seek k f 4 ks3 = (Inr (), ks4)
      \<and> (\<forall>v'. \<exists>ks5. bo_write_u16 k f v' ks4 = (Inr (), ks5) \<and> C v' ks5)))"

lemma update_command_sets:
  assumes "command_register k (resource_path (ph_pci_addr mmio) ''config'') C"
    and "wdev w = (st, ks)" and "C v ks"
  shows "\<exists>ks'. update_command k mmio b w = Some (Ret (), w\<lparr>wdev := (st, ks')\<rparr>) \<and> C (v OR push_bit (unat b) 1) ks'"
proof -
  obtain f ks1 ks2 ks3 ks4 where o:
      "os_open k (resource_path (ph_pci_addr mmio) ''config'') \<lparr>mode_read = True, mode_write = True, mode_create = False\<rparr> ks = (Inr f, ks1)"
      "os_seek k f 4 ks1 = (Inr (), ks2)" "bo_read_u16 k f ks2 = (Inr v, ks3)" "os_seek k f 4 ks3 = (Inr (), ks4)"
      "\<forall>v'. \<exists>ks5. bo_write_u16 k f v' ks4 = (Inr (), ks5) \<and> C v' ks5"
    using assms(1,3) unfolding command_register_def by blast
  then obtain ks5 where "bo_write_u16 k f (v OR push_bit (unat b) 1) ks4 = (Inr (), ks5)"
      "C (v OR push_bit (unat b) 1) ks5" by blast
  then show ?thesis
    using o assms(2)
    by (auto simp: update_command_def read_io16_def write_io16_def COMMAND_REGISTER_OFFSET_def run_simps
        intro!: exI [of _ ks5])
qed

lemma find_link_iff:
  assumes "\<forall>r\<in>set es. \<exists>e. r = Inr e"
  shows "find_link addr es w
    = Some (Ret (\<exists>e. Inr e \<in> set es \<and> is_symlink e \<and> file_name e = Some addr), w)"
  using assms
proof (induction es)
  case (Cons r es)
  then obtain e where r: "r = Inr e" by auto
  have IH: "find_link addr es w = Some (Ret (\<exists>e. Inr e \<in> set es \<and> is_symlink e \<and> file_name e = Some addr), w)"
    using Cons by simp
  show ?case
  proof (cases "is_symlink e \<and> file_name e = Some addr")
    case True
    then show ?thesis using r by auto
  next
    case False
    then have "find_link addr (r # es) w = find_link addr es w"
      using r by (auto split: option.split)
    moreover have "(\<exists>x. Inr x \<in> set (r # es) \<and> is_symlink x \<and> file_name x = Some addr)
        = (\<exists>x. Inr x \<in> set es \<and> is_symlink x \<and> file_name x = Some addr)"
      using False r by auto
    ultimately show ?thesis using IH by (simp only:)
  qed
qed simp

text \<open>
  C34. Initialisation for physical addresses. Pages of 4 KiB are refused before anything happens. For
  other sizes a device that has no link in the directory of \<^verbatim>\<open>pci-stub\<close> is refused; a device that
  has one ends up with bus mastering enabled, interrupts disabled and the rest of its command
  register unchanged.
\<close>

theorem physical_init_outcome:
  assumes "command_register k (resource_path addr ''config'') C" and "wdev w = (st, ks)" and "C v ks"
    and "os_exists k pci_stub_dir ks" and "os_read_dir k pci_stub_dir ks = Inr (map Inr es)"
    and "bound = (\<exists>e\<in>set es. is_symlink e \<and> file_name e = Some addr)"
  shows "if p = Page4K
    then physical_init_with_args k addr p w = Some (Err (Mmio ''Pagesize 4K not supported for non-Vfio!''), w)
    else if \<not> bound
    then physical_init_with_args k addr p w = Some (Err (Mmio ''The device is not bound to Pci-Stub!''), w)
    else \<exists>ks'. physical_init_with_args k addr p w
            = Some (Ret \<lparr>ph_pci_addr = addr, ph_page_size = p\<rparr>, w\<lparr>wdev := (st, ks')\<rparr>)
          \<and> C (v OR 0x404) ks'"
proof -
  let ?mmio = "\<lparr>ph_pci_addr = addr, ph_page_size = p\<rparr>"
  have b: "is_bound_to_pci_stub k ?mmio w = Some (Ret bound, w)"
  proof -
    have "find_link addr (map Inr es) w = Some (Ret bound, w)"
      using find_link_iff [of "map Inr es" addr w] assms(6) by (auto simp: image_iff Bex_def)
    then show ?thesis using assms(2,4,5) by (simp add: is_bound_to_pci_stub_def run_simps)
  qed
  obtain ks1 where 1: "ph_enable_dma k ?mmio w = Some (Ret (), w\<lparr>wdev := (st, ks1)\<rparr>)" "C (v OR 4) ks1"
    using update_command_sets [of k ?mmio C w st ks v BUS_MASTER_ENABLE_BIT] assms(1-3)
    by (auto simp: ph_enable_dma_def BUS_MASTER_ENABLE_BIT_def push_bit_eq_mult)
  obtain ks2 where 2: "disable_interrupts k ?mmio (w\<lparr>wdev := (st, ks1)\<rparr>) = Some (Ret (), w\<lparr>wdev := (st, ks2)\<rparr>)"
      "C ((v OR 4) OR 0x400) ks2"
    using update_command_sets [of k ?mmio C "w\<lparr>wdev := (st, ks1)\<rparr>" st ks1 "v OR 4" INTERRUPT_DISABLE] assms(1) 1(2)
    by (auto simp: disable_interrupts_def INTERRUPT_DISABLE_def push_bit_eq_mult)
  have "(v OR 4) OR 0x400 = v OR 0x404" by (simp add: or.assoc)
  then show ?thesis
    using b 1(1) 2 by (auto simp: physical_init_with_args_def Let_def run_simps)
qed


text \<open>A kernel whose state is the command register.\<close>

definition reg_os :: "u16 os" where
  "reg_os = null_os\<lparr>bo_read_u16 := \<lambda>_ v. (Inr v, v), bo_write_u16 := \<lambda>_ v' _. (Inr (), v'),
     os_read_dir := \<lambda>_ _. Inr [Inr \<lparr>is_symlink = True, file_name = Some ''0000:00:04.0''\<rparr>]\<rparr>"

lemma reg_os_register: "command_register reg_os path (\<lambda>v ks. ks = v)"
  by (simp add: command_register_def reg_os_def null_os_def)

theorem physical_init_outcome_witness:
  "\<exists>ks'. physical_init_with_args reg_os ''0000:00:04.0'' Page2M \<lparr>wmem = (\<lambda>_. 0), wdev = (initial_statics, 0x3)\<rparr>
      = Some (Ret \<lparr>ph_pci_addr = ''0000:00:04.0'', ph_page_size = Page2M\<rparr>,
          \<lparr>wmem = (\<lambda>_. 0), wdev = (initial_statics, ks')\<rparr>)
    \<and> ks' = 0x407"
proof -
  let ?w = "\<lparr>wmem = (\<lambda>_. 0), wdev = (initial_statics, 0x3)\<rparr>" and ?a = "''0000:00:04.0''"
  have "os_exists reg_os pci_stub_dir 3" by (simp add: reg_os_def null_os_def)
  moreover have "os_read_dir reg_os pci_stub_dir 3 = Inr (map Inr [\<lparr>is_symlink = True, file_name = Some ?a\<rparr>])"
    by (simp add: reg_os_def)
  ultimately show ?thesis
    using physical_init_outcome [OF reg_os_register, of ?w initial_statics 3 3 "[\<lparr>is_symlink = True, file_name = Some ?a\<rparr>]" True ?a Page2M]
    by simp
qed

end
