(* ===== verification/Vfio.thy ===== *)
theory Vfio
  imports Pci Ioctl_Op Nvme_Device Physical
begin

text \<open>
  Memory and registers through VFIO (\<^verbatim>\<open>src/src/vfio.rs\<close>): set-up of a container, group and device or
  of an IOMMUFD, allocation of pages in the three sizes, and mapping them for the device with
  either back end. A structure passed to the kernel is encoded by its layout, and what the kernel
  returns in it is decoded.
\<close>

unbundle bit_operations_syntax

datatype vfio_backend = Legacy fd | IOMMUFD u32 fd

record vfio =
  vf_pci_addr :: string
  device_fd :: fd
  vf_page_size :: pagesize
  iommu :: vfio_backend

definition X86_VA_WIDTH :: u8 where "X86_VA_WIDTH = 47"
definition VFIO_API_VERSION :: i32 where "VFIO_API_VERSION = 0"
definition VFIO_TYPE1_IOMMU :: u64 where "VFIO_TYPE1_IOMMU = 1"
definition VFIO_PCI_CONFIG_REGION_INDEX :: u32 where "VFIO_PCI_CONFIG_REGION_INDEX = 7"
definition VFIO_PCI_BAR0_REGION_INDEX :: u32 where "VFIO_PCI_BAR0_REGION_INDEX = 0"
definition VTD_CAP_MGAW_SHIFT :: u8 where "VTD_CAP_MGAW_SHIFT = 16"
definition VTD_CAP_MGAW_MASK :: u64 where "VTD_CAP_MGAW_MASK = push_bit (unat VTD_CAP_MGAW_SHIFT) 0x3F"

subsection \<open>Helpers\<close>

text \<open>\<^verbatim>\<open>expect\<close> and \<^verbatim>\<open>unwrap\<close> on a \<^verbatim>\<open>Result\<close>, and \<^verbatim>\<open>map_err\<close>.\<close>

definition mexpect :: "('s, 'a) comp \<Rightarrow> ('s, 'a) comp" where
  "mexpect m = (\<lambda>s. case m s of
     None \<Rightarrow> None
   | Some (Err e, t) \<Rightarrow> Some (Panic Unwrap_failed, t)
   | Some (Ret x, t) \<Rightarrow> Some (Ret x, t)
   | Some (Panic p, t) \<Rightarrow> Some (Panic p, t))"

definition map_err :: "(error \<Rightarrow> error) \<Rightarrow> ('s, 'a) comp \<Rightarrow> ('s, 'a) comp" where
  "map_err f m = (\<lambda>s. case m s of
     None \<Rightarrow> None
   | Some (Err e, t) \<Rightarrow> Some (Err (f e), t)
   | Some (Ret x, t) \<Rightarrow> Some (Ret x, t)
   | Some (Panic p, t) \<Rightarrow> Some (Panic p, t))"

definition unwrap_option :: "'a option \<Rightarrow> ('s, 'a) comp" where
  "unwrap_option x = (case x of None \<Rightarrow> mpanic Unwrap_failed | Some y \<Rightarrow> mret y)"

primrec arg_bytes :: "ioctl_arg \<Rightarrow> u8 list" where
  "arg_bytes No_arg = []"
| "arg_bytes (Number n) = []"
| "arg_bytes (Pointer bs) = bs"

definition string_bytes :: "string \<Rightarrow> u8 list" where
  "string_bytes s = map (\<lambda>c. of_nat (of_char c)) s"

definition ioctl :: "'k os \<Rightarrow> fd \<Rightarrow> ioctl_op \<Rightarrow> ioctl_arg \<Rightarrow> ('k sys, i32 \<times> u8 list) comp" where
  "ioctl k fd0 op arg =
     mbind (ioctl_unsafe k fd0 (op_code op) (display_op op) arg) (\<lambda>(r, arg'). mret (r, arg_bytes arg'))"

text \<open>\<^verbatim>\<open>Path::file_name\<close> and \<^verbatim>\<open>str::parse::<i32>\<close>.\<close>

fun path_components :: "string \<Rightarrow> string \<Rightarrow> string list" where
  "path_components cur [] = [cur]"
| "path_components cur (c # cs) =
     (if c = CHR ''/'' then cur # path_components [] cs else path_components (cur @ [c]) cs)"

definition path_file_name :: "string \<Rightarrow> string option" where
  "path_file_name p =
     (let cs = filter (\<lambda>c. c \<noteq> [] \<and> c \<noteq> ''.'') (path_components [] p)
      in if cs = [] \<or> last cs = ''..'' then None else Some (last cs))"

definition is_dec_digit :: "char \<Rightarrow> bool" where
  "is_dec_digit c \<longleftrightarrow> 48 \<le> (of_char c :: nat) \<and> of_char c \<le> (57 :: nat)"

definition parse_i32 :: "string \<Rightarrow> int option" where
  "parse_i32 s =
     (let neg = (s \<noteq> [] \<and> hd s = CHR ''-'');
          ds = (if s \<noteq> [] \<and> (hd s = CHR ''+'' \<or> hd s = CHR ''-'') then tl s else s);
          n = int (read_base 10 ds);
          v = (if neg then - n else n)
      in if ds = [] \<or> \<not> list_all is_dec_digit ds then None
         else if - (2 ^ 31) \<le> v \<and> v < 2 ^ 31 then Some v else None)"

definition fmt_int :: "int \<Rightarrow> string" where
  "fmt_int i = (if i < 0 then ''-'' @ fmt_dec (nat (- i)) else fmt_dec (nat i))"

definition open_rw :: "'k os \<Rightarrow> string \<Rightarrow> ('k sys, fd) comp" where
  "open_rw k path = kcall_io (os_open k path \<lparr>mode_read = True, mode_write = True, mode_create = False\<rparr>)"

subsection \<open>Width of device addresses\<close>

definition vfio_is_enabled :: "'k os \<Rightarrow> string \<Rightarrow> ('k sys, bool) comp" where
  "vfio_is_enabled k addr = kquery (os_exists k (resource_path addr ''iommu_group''))"

definition is_intel_iommu :: "'k os \<Rightarrow> string \<Rightarrow> ('k sys, bool) comp" where
  "is_intel_iommu k addr = kquery (os_exists k (resource_path addr ''iommu/intel-iommu''))"

definition gaw_of_cap :: "u64 \<Rightarrow> u8" where
  "gaw_of_cap cap = ucast (drop_bit (unat VTD_CAP_MGAW_SHIFT) (cap AND VTD_CAP_MGAW_MASK) + 1)"

definition get_intel_iommu_gaw :: "'k os \<Rightarrow> string \<Rightarrow> ('k sys, u8) comp" where
  "get_intel_iommu_gaw k addr =
     mbind (mexpect (pci_open_resource_ro k addr ''iommu/intel-iommu/cap'')) (\<lambda>file.
     mbind (mexpect (read_hex k file)) (\<lambda>cap.
     mret (gaw_of_cap cap)))"

definition check_intel_iommu :: "'k os \<Rightarrow> string \<Rightarrow> ('k sys, unit) comp" where
  "check_intel_iommu k addr =
     mbind (is_intel_iommu k addr) (\<lambda>intel.
     if intel
     then mbind (get_intel_iommu_gaw k addr) (\<lambda>mgaw. set_static (\<lambda>s. s\<lparr>iova_width := mgaw\<rparr>))
     else mret ())"

subsection \<open>Set-up\<close>

definition get_region_info :: "'k os \<Rightarrow> fd \<Rightarrow> u32 \<Rightarrow> ('k sys, vfio_region_info) comp" where
  "get_region_info k fd0 index =
     mbind (ioctl k fd0 VFIO_DEVICE_GET_REGION_INFO (Pointer (encode_rinfo
              \<lparr>rinfo_argsz = size_of_rinfo, rinfo_flags = 0, rinfo_index = index, rinfo_cap_offset = 0,
               rinfo_size = 0, rinfo_offset = 0\<rparr>))) (\<lambda>(_, bs).
     mret (decode_rinfo bs))"

definition vf_enable_dma :: "'k os \<Rightarrow> vfio \<Rightarrow> ('k sys, unit) comp" where
  "vf_enable_dma k v =
     mbind (get_region_info k (device_fd v) VFIO_PCI_CONFIG_REGION_INDEX) (\<lambda>conf_reg.
     let at = rinfo_offset conf_reg + COMMAND_REGISTER_OFFSET
     in
     mbind (pread_unsafe k (device_fd v) (le_bytes 2 (0 :: u16)) at) (\<lambda>buf.
     pwrite_unsafe k (device_fd v) (le_bytes 2 ((le_word buf :: u16) OR push_bit (unat BUS_MASTER_ENABLE_BIT) 1)) at))"

definition init_iommufd :: "'k os \<Rightarrow> string \<Rightarrow> pagesize \<Rightarrow> ('k sys, vfio) comp" where
  "init_iommufd k addr p =
     mbind (map_err (\<lambda>e. Vfio (''Failed to open /dev/iommu, Err: '' @ (case e of Io i \<Rightarrow> message i | _ \<Rightarrow> [])
              @ '', is IOMMUFD set up correctly?'')) (open_rw k ''/dev/iommu'')) (\<lambda>iommufd.
     mbind (map_err (\<lambda>e. Vfio (''Failed to open device /dev/vfio/devices/vfio0, Err: '' @ (case e of Io i \<Rightarrow> message i | _ \<Rightarrow> [])
              @ '', is IOMMUFD set up correctly?'')) (open_rw k ''/dev/vfio/devices/vfio0'')) (\<lambda>cdev_fd.
     mbind (ioctl k cdev_fd VFIO_DEVICE_BIND_IOMMUFD (Pointer (encode_bind
              \<lparr>bind_argsz = size_of_bind, bind_flags = 0, bind_iommufd = iommufd, bind_out_devid = 0\<rparr>))) (\<lambda>_.
     mbind (ioctl k iommufd IOMMU_IOAS_ALLOC (Pointer (encode_ialloc
              \<lparr>ialloc_size = size_of_ialloc, ialloc_flags = 0, ialloc_out_ioas_id = 0\<rparr>))) (\<lambda>(_, alloc_data).
     let ioas = ialloc_out_ioas_id (decode_ialloc alloc_data)
     in
     mbind (ioctl k cdev_fd VFIO_DEVICE_ATTACH_IOMMUFD_PT (Pointer (encode_attach
              \<lparr>attach_argsz = size_of_attach, attach_flags = 0, attach_pt_id = ioas\<rparr>))) (\<lambda>_.
     let v = \<lparr>vf_pci_addr = addr, device_fd = cdev_fd, vf_page_size = p, iommu = IOMMUFD ioas iommufd\<rparr>
     in
     mbind (vf_enable_dma k v) (\<lambda>_. mret v))))))"

text \<open>The part of the set-up that finds the group of the device and opens it at most once.\<close>

definition open_group :: "'k os \<Rightarrow> int \<Rightarrow> fd \<Rightarrow> ('k sys, fd) comp" where
  "open_group k grp container_fd =
     mbind (get_static (\<lambda>s. vfio_group_fds s grp)) (\<lambda>known. case known of
        Some group_fd \<Rightarrow> mret group_fd
      | None \<Rightarrow>
          mbind (map_err (\<lambda>e. Vfio (''Failed to open group at path /dev/vfio'' @ fmt_int grp @ '', Err: ''
                   @ (case e of Io i \<Rightarrow> message i | _ \<Rightarrow> []) @ '', is Vfio set up correctly?''))
                   (open_rw k (''/dev/vfio/'' @ fmt_int grp))) (\<lambda>group_fd.
          mbind (ioctl k group_fd VFIO_GROUP_GET_STATUS (Pointer (encode_gstat
                   \<lparr>gstat_argsz = size_of_gstat, gstat_flags = 0\<rparr>))) (\<lambda>(_, status).
          if gstat_flags (decode_gstat status) AND VFIO_GROUP_FLAGS_VIABLE \<noteq> 1
          then merr (error_from_string ''group is not viable (ie, not all devices in this group are bound to vfio)'')
          else
            mbind (ioctl k group_fd VFIO_GROUP_SET_CONTAINER (Pointer (le_bytes 4 container_fd))) (\<lambda>_.
            mbind (set_static (\<lambda>s. s\<lparr>vfio_group_fds := (vfio_group_fds s)(grp \<mapsto> group_fd)\<rparr>)) (\<lambda>_.
            mret group_fd)))))"

definition vfio_init_with_args :: "'k os \<Rightarrow> string \<Rightarrow> pagesize \<Rightarrow> bool \<Rightarrow> ('k sys, vfio) comp" where
  "vfio_init_with_args k addr p use_iommufd =
     (if use_iommufd then init_iommufd k addr p
      else
      mbind (check_intel_iommu k addr) (\<lambda>_.
      mbind (open_rw k ''/dev/vfio/vfio'') (\<lambda>container_fd.
      mbind (ioctl k container_fd VFIO_GET_API_VERSION No_arg) (\<lambda>(api_version, _).
      if api_version \<noteq> VFIO_API_VERSION then merr (Vfio ''Unknown VFIO API Version'')
      else
      mbind (map_err (\<lambda>e. Vfio (''Container doesn'' @ [CHR 0x27] @ ''t support Type1 IOMMU: '' @ display_error e))
               (ioctl k container_fd VFIO_CHECK_EXTENSION (Number VFIO_TYPE1_IOMMU))) (\<lambda>_.
      mbind (kquery (os_read_link k (resource_path addr ''iommu_group''))) (\<lambda>r.
      mbind (mexpect (try_io r)) (\<lambda>link.
      mbind (unwrap_option (path_file_name link)) (\<lambda>name.
      mbind (unwrap_option (parse_i32 name)) (\<lambda>grp.
      mbind (open_group k grp container_fd) (\<lambda>group_fd.
      mbind (ioctl k container_fd VFIO_SET_IOMMU (Number VFIO_TYPE1_IOMMU)) (\<lambda>_.
      mbind (ioctl k group_fd VFIO_GROUP_GET_DEVICE_FD (Pointer (string_bytes addr))) (\<lambda>(dev_fd, _).
      mbind (ioctl k container_fd VFIO_IOMMU_GET_INFO (Pointer (encode_iinfo
               \<lparr>iinfo_argsz = size_of_iinfo, iinfo_flags = 0, iinfo_iova_pgsizes = 0, iinfo_cap_offset = 0,
                iinfo_pad = 0\<rparr>))) (\<lambda>_.
      let v = \<lparr>vf_pci_addr = addr, device_fd = dev_fd, vf_page_size = p, iommu = Legacy container_fd\<rparr>
      in
      mbind (vf_enable_dma k v) (\<lambda>_. mret v))))))))))))))"

definition vfio_init :: "'k os \<Rightarrow> string \<Rightarrow> ('k sys, vfio) comp" where
  "vfio_init k addr = vfio_init_with_args k addr Page2M False"

definition vfio_set_page_size :: "pagesize \<Rightarrow> vfio \<Rightarrow> vfio" where
  "vfio_set_page_size p v = v\<lparr>vf_page_size := p\<rparr>"

definition map_resource_index :: "'k os \<Rightarrow> vfio \<Rightarrow> u32 \<Rightarrow> ('k sys, usize \<times> usize) comp" where
  "map_resource_index k v index =
     mbind (get_region_info k (device_fd v) index) (\<lambda>region_info.
     let len = rinfo_size region_info
     in mbind (mmap_unsafe k 0 len {MAP_SHARED} (device_fd v) (rinfo_offset region_info)) (\<lambda>ptr.
        mret (ptr, len)))"

subsection \<open>Memory\<close>

definition allocate_1gib :: "'k os \<Rightarrow> usize \<Rightarrow> ('k sys, usize) comp" where
  "allocate_1gib k n = mmap_anonymous_unsafe k n {MAP_HUGETLB, MAP_HUGE_1GB}"

definition align_2mib :: "usize \<Rightarrow> usize" where
  "align_2mib addr = (addr + PAGESIZE_2MIB - 1) AND (- PAGESIZE_2MIB)"

definition allocate_2mib :: "'k os \<Rightarrow> usize \<Rightarrow> ('k sys, usize) comp" where
  "allocate_2mib k n =
     mbind (get_static iova_width) (\<lambda>width.
     if width < X86_VA_WIDTH then
       mbind (mmap_anonymous_unsafe k (n + PAGESIZE_2MIB) {MAP_32BIT}) (\<lambda>addr.
       let aligned_addr = align_2mib addr;
           free_chunk_size = aligned_addr - addr
       in
       mbind (munmap_unsafe k addr free_chunk_size) (\<lambda>_.
       mbind (munmap_unsafe k (aligned_addr + n) (PAGESIZE_2MIB - free_chunk_size)) (\<lambda>_.
       mmap_unsafe k aligned_addr n
         {MAP_SHARED, MAP_ANONYMOUS, MAP_HUGETLB, MAP_HUGE_2MB, MAP_FIXED} (-1) 0)))
     else mmap_anonymous_unsafe k n {MAP_HUGETLB, MAP_HUGE_2MB})"

definition allocate_4kib :: "'k os \<Rightarrow> usize \<Rightarrow> ('k sys, usize) comp" where
  "allocate_4kib k n =
     mbind (get_static iova_width) (\<lambda>width.
     if width < X86_VA_WIDTH then mmap_anonymous_unsafe k n {MAP_32BIT}
     else mmap_anonymous_unsafe k n {})"

definition map_dma :: "'k os \<Rightarrow> vfio_backend \<Rightarrow> usize \<Rightarrow> usize \<Rightarrow> ('k sys, dma) comp" where
  "map_dma k b ptr n = (case b of
     Legacy container_fd \<Rightarrow>
       mbind (ioctl k container_fd VFIO_IOMMU_MAP_DMA (Pointer (encode_dmap
                \<lparr>dmap_argsz = size_of_dmap, dmap_flags = VFIO_DMA_MAP_FLAG_READ OR VFIO_DMA_MAP_FLAG_WRITE,
                 dmap_vaddr = ptr, dmap_iova = ptr, dmap_size = n\<rparr>))) (\<lambda>(_, bs).
       mret \<lparr>virt = ptr, phys = dmap_iova (decode_dmap bs), dsize = n\<rparr>)
   | IOMMUFD ioas iommufd \<Rightarrow>
       mbind (ioctl k iommufd IOMMU_IOAS_MAP (Pointer (encode_imap
                \<lparr>imap_size = size_of_imap, imap_flags = IOMMU_IOAS_MAP_WRITEABLE OR IOMMU_IOAS_MAP_READABLE,
                 imap_ioas_id = ioas, imap_reserved = 0, imap_user_va = ptr, imap_length = n, imap_iova = 0\<rparr>))) (\<lambda>(_, bs).
       mret \<lparr>virt = ptr, phys = imap_iova (decode_imap bs), dsize = n\<rparr>))"

definition unmap_dma :: "'k os \<Rightarrow> vfio_backend \<Rightarrow> dma \<Rightarrow> ('k sys, unit) comp" where
  "unmap_dma k b d = (case b of
     Legacy container_fd \<Rightarrow>
       mbind (ioctl k container_fd VFIO_IOMMU_UNMAP_DMA (Pointer (encode_dunmap
                \<lparr>dunmap_argsz = size_of_dunmap, dunmap_flags = 0, dunmap_iova = phys d, dunmap_size = dsize d,
                 dunmap_data = 0\<rparr>))) (\<lambda>_. mret ())
   | IOMMUFD ioas iommufd \<Rightarrow>
       mbind (ioctl k iommufd IOMMU_IOAS_UNMAP (Pointer (encode_iunmap
                \<lparr>iunmap_size = size_of_iunmap, iunmap_ioas_id = ioas, iunmap_iova = phys d,
                 iunmap_length = dsize d\<rparr>))) (\<lambda>_. mret ()))"

definition vf_allocate :: "'k os \<Rightarrow> vfio \<Rightarrow> usize \<Rightarrow> ('k sys, dma) comp" where
  "vf_allocate k v n =
     (let sz = shift_up (vf_page_size v) n
      in mbind (case vf_page_size v of
                  Page4K \<Rightarrow> allocate_4kib k sz
                | Page1G \<Rightarrow> allocate_1gib k sz
                | Page2M \<Rightarrow> allocate_2mib k sz) (\<lambda>ptr.
         map_dma k (iommu v) ptr sz))"

definition vf_map_resource :: "'k os \<Rightarrow> vfio \<Rightarrow> ('k sys, usize \<times> usize) comp" where
  "vf_map_resource k v = map_resource_index k v VFIO_PCI_BAR0_REGION_INDEX"

definition vf_deallocate :: "'k os \<Rightarrow> vfio \<Rightarrow> dma \<Rightarrow> ('k sys, unit) comp" where
  "vf_deallocate k v d =
     mbind (unmap_dma k (iommu v) d) (\<lambda>_.
     mbind (munmap_unsafe k (virt d) (shift_up (vf_page_size v) (dsize d))) (\<lambda>_.
     mret ()))"

end
