(* ===== verification/Vfio_Memory.thy ===== *)
theory Vfio_Memory
  imports Vfio
begin

text \<open>
  What allocation through VFIO (\<^verbatim>\<open>src/src/vfio.rs\<close>) does to the address space of the process and
  to the tables of the IOMMU. What the kernel promises is stated by name: \<open>manages_memory\<close> for
  \<^verbatim>\<open>mmap\<close> and \<^verbatim>\<open>munmap\<close>, \<open>translates\<close> for the requests that map and unmap memory for the device.
\<close>

unbundle bit_operations_syntax

subsection \<open>Alignment\<close>

lemma and_not_mask_21: "(x :: usize) AND - 2097152 = push_bit 21 (drop_bit 21 x)"
proof -
  have "(- 2097152 :: usize) = NOT (mask 21)" by (simp add: mask_eq_exp_minus_1 not_eq_complement)
  moreover have "x AND NOT (mask 21) = push_bit 21 (drop_bit 21 x)"
    by (rule bit_word_eqI) (auto simp: bit_simps)
  ultimately show ?thesis by (simp only:)
qed

lemma unat_align_2mib:
  assumes "unat addr + 2097152 \<le> 2 ^ 64"
  shows "unat (align_2mib addr) = (unat addr + 2097151) div 2097152 * 2097152"
proof -
  have "unat (addr + 2097152 - 1) = unat addr + 2097151"
  proof -
    have "addr + 2097152 - 1 = addr + 2097151" by simp
    then show ?thesis using assms by (simp only:) (subst unat_add_no_wrap, simp_all)
  qed
  moreover have "unat (push_bit 21 (drop_bit 21 y)) = unat y div 2097152 * 2097152" for y :: usize
  proof -
    have "unat y div 2097152 * 2097152 \<le> unat y" by (rule div_times_less_eq_dividend)
    then have "unat (y div 2097152 * 2097152) = unat y div 2097152 * 2097152"
      using le_less_trans [OF _ unat_less_2p64 [of y]] by (subst unat_mult_no_wrap) (simp_all only: unat_div, simp_all)
    then show ?thesis by (simp add: push_bit_eq_mult drop_bit_eq_div)
  qed
  ultimately show ?thesis by (simp only: align_2mib_def page_constants and_not_mask_21)
qed

subsection \<open>The address space of the process\<close>

text \<open>
  A named assumption on the kernel: \<open>M ks\<close> is the set of addresses that are mapped in kernel state
  \<open>ks\<close>. For lengths of whole pages \<^verbatim>\<open>mmap\<close> fails and maps nothing, or maps the range it returns: at
  the address it was given if \<^verbatim>\<open>MAP_FIXED\<close> is set, at a fresh page in the user half of the address
  space otherwise, and in its first 2 GiB if \<^verbatim>\<open>MAP_32BIT\<close> is set, which huge pages ignore. \<^verbatim>\<open>munmap\<close>
  fails and changes nothing, or unmaps its range; it fails for an empty range. Requests to devices
  map nothing.
\<close>

definition manages_memory :: "'k os \<Rightarrow> ('k \<Rightarrow> usize set) \<Rightarrow> bool" where
  "manages_memory k M \<longleftrightarrow>
     (\<forall>a n fl f off m ks p m' ks'. n mod 4096 = 0 \<longrightarrow> c_mmap k a n fl f off (m, ks) = (p, (m', ks')) \<longrightarrow>
        (if p = - 1 then M ks' = M ks
         else M ks' = M ks \<union> addr_range p n
           \<and> (if MAP_FIXED \<in> fl then p = a
              else addr_range p n \<inter> M ks = {} \<and> p mod 4096 = 0 \<and> unat p + unat n \<le> 2 ^ 47
                \<and> (MAP_32BIT \<in> fl \<and> MAP_HUGETLB \<notin> fl \<longrightarrow> unat p + unat n \<le> 2 ^ 31))))
   \<and> (\<forall>a n m ks r m' ks'. n mod 4096 = 0 \<longrightarrow> c_munmap k a n (m, ks) = (r, (m', ks')) \<longrightarrow>
        (if r = - 1 then M ks' = M ks else n \<noteq> 0 \<and> M ks' = M ks - addr_range a n))
   \<and> (\<forall>f op arg ks. M (snd (c_ioctl k f op arg ks)) = M ks)"

lemma mmap_unsafe_run:
  assumes "c_mmap k a n fl f off (wmem w, ks) = (p, (m', ks'))" and "wdev w = (st, ks)"
  shows "mmap_unsafe k a n fl f off w
    = Some (if p = - 1 then Err (Mmap (''mmap with len '' @ fmt_dec (unat n) @ '' failed'') (last_os_error k ks'))
            else Ret p, \<lparr>wmem = m', wdev = (st, ks')\<rparr>)"
  using assms by (simp add: mmap_unsafe_def run_simps)

lemma munmap_unsafe_run:
  assumes "c_munmap k a n (wmem w, ks) = (r, (m', ks'))" and "wdev w = (st, ks)"
  shows "munmap_unsafe k a n w
    = Some (if r = - 1 then Err (Mmap (''munmap with len '' @ fmt_dec (unat n) @ '' failed'') (last_os_error k ks'))
            else Ret r, \<lparr>wmem = m', wdev = (st, ks')\<rparr>)"
  using assms by (simp add: munmap_unsafe_def run_simps)

text \<open>The mapped addresses of a state of the process.\<close>

abbreviation mapped :: "('k \<Rightarrow> usize set) \<Rightarrow> 'k sys \<Rightarrow> usize set" where
  "mapped M w \<equiv> M (snd (wdev w))"

lemma mmap_unsafe_maps:
  assumes "manages_memory k M" and "n mod 4096 = 0" and "mmap_unsafe k a n fl f off w = Some (r, w')"
  shows "case r of
      Ret p \<Rightarrow> mapped M w' = mapped M w \<union> addr_range p n
        \<and> (if MAP_FIXED \<in> fl then p = a
           else addr_range p n \<inter> mapped M w = {} \<and> p mod 4096 = 0 \<and> unat p + unat n \<le> 2 ^ 47
             \<and> (MAP_32BIT \<in> fl \<and> MAP_HUGETLB \<notin> fl \<longrightarrow> unat p + unat n \<le> 2 ^ 31))
    | Err e \<Rightarrow> mapped M w' = mapped M w
    | Panic x \<Rightarrow> False"
    and "fst (wdev w') = fst (wdev w)"
proof -
  obtain st ks where w: "wdev w = (st, ks)" by fastforce
  obtain p m' ks' where c: "c_mmap k a n fl f off (wmem w, ks) = (p, (m', ks'))"
    by (cases "c_mmap k a n fl f off (wmem w, ks)") auto
  note law = conjunct1 [OF assms(1) [unfolded manages_memory_def], rule_format, OF assms(2) c]
  note run = mmap_unsafe_run [OF c w]
  show "fst (wdev w') = fst (wdev w)" using run assms(3) w by auto
  show "case r of
      Ret p \<Rightarrow> mapped M w' = mapped M w \<union> addr_range p n
        \<and> (if MAP_FIXED \<in> fl then p = a
           else addr_range p n \<inter> mapped M w = {} \<and> p mod 4096 = 0 \<and> unat p + unat n \<le> 2 ^ 47
             \<and> (MAP_32BIT \<in> fl \<and> MAP_HUGETLB \<notin> fl \<longrightarrow> unat p + unat n \<le> 2 ^ 31))
    | Err e \<Rightarrow> mapped M w' = mapped M w
    | Panic x \<Rightarrow> False"
    using run assms(3) law w by (cases "p = - 1") auto
qed

lemma munmap_unsafe_unmaps:
  assumes "manages_memory k M" and "n mod 4096 = 0" and "munmap_unsafe k a n w = Some (r, w')"
  shows "case r of
      Ret x \<Rightarrow> n \<noteq> 0 \<and> mapped M w' = mapped M w - addr_range a n
    | Err e \<Rightarrow> mapped M w' = mapped M w
    | Panic x \<Rightarrow> False"
    and "fst (wdev w') = fst (wdev w)"
proof -
  obtain st ks where w: "wdev w = (st, ks)" by fastforce
  obtain x m' ks' where c: "c_munmap k a n (wmem w, ks) = (x, (m', ks'))"
    by (cases "c_munmap k a n (wmem w, ks)") auto
  note law = conjunct1 [OF conjunct2 [OF assms(1) [unfolded manages_memory_def]], rule_format, OF assms(2) c]
  note run = munmap_unsafe_run [OF c w]
  show "fst (wdev w') = fst (wdev w)" using run assms(3) w by auto
  show "case r of
      Ret x \<Rightarrow> n \<noteq> 0 \<and> mapped M w' = mapped M w - addr_range a n
    | Err e \<Rightarrow> mapped M w' = mapped M w
    | Panic x \<Rightarrow> False"
    using run assms(3) law w by (cases "x = - 1") auto
qed

subsection \<open>Huge pages below 2 GiB\<close>

text \<open>Cutting the unaligned ends off a mapping of \<open>n + 2 MiB\<close> bytes leaves \<open>n\<close> aligned ones.\<close>

lemma align_2mib_cut:
  assumes "unat addr + (unat n + 2097152) \<le> 2 ^ 47" and "p = align_2mib addr" and "f = p - addr"
  shows "unat p mod 2097152 = 0" "addr \<le> p" "unat p = unat addr + unat f" "unat f < 2097152"
    "f = 0 \<longleftrightarrow> unat addr mod 2097152 = 0"
    "addr_range addr (n + 2097152) - addr_range addr f - addr_range (p + n) (2097152 - f) = addr_range p n"
    "addr_range p n \<subseteq> addr_range addr (n + 2097152)"
    "addr_range addr f \<subseteq> addr_range addr (n + 2097152)"
    "addr_range (p + n) (2097152 - f) \<subseteq> addr_range addr (n + 2097152)"
proof -
  let ?A = "unat addr" and ?P = "unat p" and ?N = "unat n"
  have P: "?P = (?A + 2097151) div 2097152 * 2097152"
    unfolding assms(2) using assms(1) by (intro unat_align_2mib) simp
  then show "unat p mod 2097152 = 0" by simp
  have dm: "(?A + 2097151) div 2097152 * 2097152 + (?A + 2097151) mod 2097152 = ?A + 2097151"
    by (rule div_mult_mod_eq)
  have lt: "(?A + 2097151) mod 2097152 < 2097152" by simp
  have bounds: "?A \<le> ?P" "?P < ?A + 2097152" using P dm lt by linarith+
  then show le: "addr \<le> p" by (simp add: word_le_nat_alt)
  have f: "unat f = ?P - ?A" unfolding assms(3) using le by (rule unat_diff_word)
  then show pf: "?P = ?A + unat f" and "unat f < 2097152" using bounds by simp_all
  show "f = 0 \<longleftrightarrow> ?A mod 2097152 = 0"
  proof
    assume "f = 0"
    then have "?A = ?P" using pf by simp
    then show "?A mod 2097152 = 0" using \<open>?P mod 2097152 = 0\<close> by metis
  next
    assume "?A mod 2097152 = 0"
    then have "2097152 dvd ?P - ?A" using \<open>?P mod 2097152 = 0\<close> by (intro dvd_diff_nat) (simp_all only: mod_eq_0_iff_dvd)
    moreover have "?P - ?A < 2097152" using bounds by simp
    ultimately have "?P - ?A = 0" using nat_dvd_not_less [of "?P - ?A" 2097152] by blast
    then show "f = 0" using f by (simp add: unat_eq_zero)
  qed
  have n1: "unat (n + 2097152) = ?N + 2097152" using assms(1) by (subst unat_add_no_wrap) simp_all
  have n2: "unat (p + n) = ?P + ?N" using assms(1) bounds by (subst unat_add_no_wrap) simp_all
  have n3: "unat (2097152 - f) = 2097152 - unat f"
    using \<open>unat f < 2097152\<close> by (subst unat_diff_word) (simp_all add: word_le_nat_alt)
  have r: "x \<in> addr_range addr (n + 2097152) \<longleftrightarrow> ?A \<le> unat x \<and> unat x < ?A + (?N + 2097152)"
      "x \<in> addr_range addr f \<longleftrightarrow> ?A \<le> unat x \<and> unat x < ?P"
      "x \<in> addr_range (p + n) (2097152 - f) \<longleftrightarrow> ?P + ?N \<le> unat x \<and> unat x < ?A + (?N + 2097152)"
      "x \<in> addr_range p n \<longleftrightarrow> ?P \<le> unat x \<and> unat x < ?P + ?N" for x
    using assms(1) bounds pf \<open>unat f < 2097152\<close> by (subst in_addr_range; simp add: n1 n2 n3)+
  show "addr_range addr (n + 2097152) - addr_range addr f - addr_range (p + n) (2097152 - f) = addr_range p n"
    using r bounds by (auto simp: set_eq_iff)
  show "addr_range p n \<subseteq> addr_range addr (n + 2097152)" "addr_range addr f \<subseteq> addr_range addr (n + 2097152)"
      "addr_range (p + n) (2097152 - f) \<subseteq> addr_range addr (n + 2097152)"
    using r bounds by auto
qed

lemma word_mod_0_iff: "(x :: usize) mod y = 0 \<longleftrightarrow> unat y dvd unat x"
  by (metis mod_eq_0_iff_dvd unat_eq_zero unat_mod_word)

lemma page_multiple_word: "unat n mod 2097152 = 0 \<Longrightarrow> n mod 4096 = (0 :: usize)"
proof -
  assume "unat n mod 2097152 = 0"
  then have "unat n mod 4096 = 0"
    using mod_mod_cancel [of 4096 2097152 "unat n"] by simp
  then show ?thesis by (simp add: word_mod_0_iff mod_eq_0_iff_dvd)
qed

lemma fmt_dec_0: "fmt_dec 0 = ''0''"
  unfolding fmt_dec_def by (subst fmt_base.simps) (simp add: digit_char_def)

definition flags_32bit :: "mmap_flag set" where
  "flags_32bit = {MAP_SHARED, MAP_ANONYMOUS, MAP_POPULATE, MAP_32BIT}"

lemma allocate_2mib_narrow:
  assumes "manages_memory k M" and "wdev w = (st, ks)" and "iova_width st < X86_VA_WIDTH"
    and "unat n mod 2097152 = 0" and "unat n \<le> 2 ^ 46"
    and "c_mmap k 0 (n + PAGESIZE_2MIB) flags_32bit (- 1) 0 (wmem w, ks) = (addr, (m1, ks1))" and "addr \<noteq> - 1"
  shows "if unat addr mod 2097152 = 0
    then \<exists>e w'. allocate_2mib k n w = Some (Err (Mmap ''munmap with len 0 failed'' e), w')
          \<and> mapped M w' = M ks \<union> addr_range addr (n + PAGESIZE_2MIB)
    else \<exists>r w'. allocate_2mib k n w = Some (r, w') \<and>
          (case r of
             Ret p \<Rightarrow> unat p mod 2097152 = 0 \<and> unat p + unat n \<le> 2 ^ 31
               \<and> addr_range p n \<inter> M ks = {} \<and> mapped M w' = M ks \<union> addr_range p n
           | Err e \<Rightarrow> True
           | Panic x \<Rightarrow> False)"
proof -
  let ?w1 = "\<lparr>wmem = m1, wdev = (st, ks1)\<rparr>" and ?p = "align_2mib addr"
  let ?f = "?p - addr"
  have n1: "unat (n + 2097152) = unat n + 2097152" using assms(5) by (subst unat_add_no_wrap) simp_all
  have "unat (n + 2097152) mod 2097152 = 0" using assms(4) by (simp add: n1)
  note pages = page_multiple_word [OF this] page_multiple_word [OF assms(4)]
  have run1: "mmap_anonymous_unsafe k (n + 2097152) {MAP_32BIT} w = Some (Ret addr, ?w1)"
    using mmap_unsafe_run [OF assms(6,2)] assms(7) by (simp add: mmap_anonymous_unsafe_def flags_32bit_def)
  have law1: "M ks1 = M ks \<union> addr_range addr (n + 2097152)" "addr_range addr (n + 2097152) \<inter> M ks = {}"
      "addr mod 4096 = 0" "unat addr + (unat n + 2097152) \<le> 2 ^ 47" "unat addr + (unat n + 2097152) \<le> 2 ^ 31"
    using conjunct1 [OF assms(1) [unfolded manages_memory_def], rule_format, OF _ assms(6)] assms(7) pages(1)
    by (simp_all add: flags_32bit_def n1)
  note cut = align_2mib_cut [OF law1(4) refl refl]
  have run: "allocate_2mib k n w = mbind (munmap_unsafe k addr ?f) (\<lambda>_.
       mbind (munmap_unsafe k (?p + n) (2097152 - ?f)) (\<lambda>_.
       mmap_unsafe k ?p n {MAP_SHARED, MAP_ANONYMOUS, MAP_HUGETLB, MAP_HUGE_2MB, MAP_FIXED} (- 1) 0)) ?w1"
    using assms(2,3) run1 by (simp add: allocate_2mib_def run_simps Let_def)
  have f4: "?f mod 4096 = 0" "(2097152 - ?f) mod 4096 = 0"
  proof -
    have "4096 dvd unat addr" using law1(3) by (simp add: word_mod_0_iff)
    moreover have "4096 dvd unat ?p" using cut(1) by (auto intro: dvd_trans [of _ 2097152] simp: mod_eq_0_iff_dvd)
    ultimately have d: "4096 dvd unat ?f" using cut(3) by (metis dvd_add_right_iff)
    then show "?f mod 4096 = 0" by (simp add: word_mod_0_iff)
    have "unat (2097152 - ?f) = 2097152 - unat ?f"
      using cut(4) by (subst unat_diff_word) (simp_all add: word_le_nat_alt)
    then show "(2097152 - ?f) mod 4096 = 0" using d by (simp add: word_mod_0_iff)
  qed
  obtain r2 w2 where u2: "munmap_unsafe k addr ?f ?w1 = Some (r2, w2)"
    by (rule returnsE [OF returns_unsafe(3)])
  note l2 = munmap_unsafe_unmaps(1) [OF assms(1) f4(1) u2]
  show ?thesis
  proof (cases "unat addr mod 2097152 = 0")
    case True
    then have f0: "?f = 0" using cut(5) by simp
    then have "\<exists>e. r2 = Err e" using l2 by (cases r2) auto
    moreover have "(\<exists>x. r2 = Ret x) \<or> (\<exists>e. r2 = Err (Mmap (''munmap with len '' @ fmt_dec (unat ?f) @ '' failed'') e))"
      using u2 by (cases "c_munmap k addr ?f (m1, ks1)") (auto simp: munmap_unsafe_def run_simps split: if_splits)
    ultimately have "\<exists>e. r2 = Err (Mmap ''munmap with len 0 failed'' e)" using f0 by (auto simp: fmt_dec_0)
    then show ?thesis using True run u2 l2 law1(1) f0 by (auto simp: run_simps)
  next
    case False
    obtain r3 w3 where u3: "munmap_unsafe k (?p + n) (2097152 - ?f) w2 = Some (r3, w3)"
      by (rule returnsE [OF returns_unsafe(3)])
    obtain r4 w4 where u4: "mmap_unsafe k ?p n {MAP_SHARED, MAP_ANONYMOUS, MAP_HUGETLB, MAP_HUGE_2MB, MAP_FIXED} (- 1) 0 w3
        = Some (r4, w4)"
      by (rule returnsE [OF returns_unsafe(2)])
    note l3 = munmap_unsafe_unmaps(1) [OF assms(1) f4(2) u3] and l4 = mmap_unsafe_maps(1) [OF assms(1) pages(2) u4]
    show ?thesis
    proof (cases "(\<exists>x. r2 = Ret x) \<and> (\<exists>x. r3 = Ret x) \<and> (\<exists>x. r4 = Ret x)")
      case True
      then obtain p where r4: "r4 = Ret p" by blast
      then have p: "p = ?p" using l4 by simp
      have "mapped M w4 = (M ks1 - addr_range addr ?f - addr_range (?p + n) (2097152 - ?f)) \<union> addr_range ?p n"
        using True l2 l3 l4 p by auto
      also have "\<dots> = M ks \<union> addr_range ?p n"
        unfolding law1(1) using cut(6-9) law1(2) by blast
      finally have "mapped M w4 = M ks \<union> addr_range ?p n" .
      moreover have "allocate_2mib k n w = Some (Ret ?p, w4)" using run u2 u3 u4 True p r4 by (auto simp: run_simps)
      moreover have "unat ?p + unat n \<le> 2 ^ 31" using law1(5) cut(3,4) by simp
      ultimately show ?thesis using \<open>unat addr mod 2097152 \<noteq> 0\<close> cut(1,7) law1(2) by auto
    next
      case F: False
      then have "\<exists>e w'. allocate_2mib k n w = Some (Err e, w')"
        using run u2 u3 u4 l2 l3 l4 by (auto simp: run_simps split: outcome.splits)
      then show ?thesis using False by auto
    qed
  qed
qed

text \<open>
  C35. Huge pages for an IOMMU with narrow addresses. The driver maps 2 MiB more than it needs, cuts the
  unaligned ends off and maps huge pages over what is left. When the first mapping is not aligned
  already, a call that succeeds returns an aligned address, with the whole block below 2 GiB, and
  has mapped exactly that block, all of it fresh; a call that fails returns an error. When the
  kernel happens to return an aligned address the piece to cut off is empty, \<^verbatim>\<open>munmap\<close> refuses it,
  and the call fails with everything still mapped.
\<close>

theorem allocate_2mib_32bit:
  assumes "manages_memory k M" and "wdev w = (st, ks)" and "iova_width st < X86_VA_WIDTH"
    and "unat n mod 2097152 = 0" and "unat n \<le> 2 ^ 46"
    and "c_mmap k 0 (n + PAGESIZE_2MIB) flags_32bit (- 1) 0 (wmem w, ks) = (addr, (m1, ks1))" and "addr \<noteq> - 1"
  shows "if unat addr mod 2097152 = 0
    then \<exists>e w'. allocate_2mib k n w = Some (Err (Mmap ''munmap with len 0 failed'' e), w')
          \<and> mapped M w' = M ks \<union> addr_range addr (n + PAGESIZE_2MIB)
    else \<exists>r w'. allocate_2mib k n w = Some (r, w') \<and>
          (case r of
             Ret p \<Rightarrow> unat p mod 2097152 = 0 \<and> unat p + unat n \<le> 2 ^ 31
               \<and> addr_range p n \<inter> M ks = {} \<and> mapped M w' = M ks \<union> addr_range p n
           | Err e \<Rightarrow> True
           | Panic x \<Rightarrow> False)"
  using assms by (rule allocate_2mib_narrow)

text \<open>A kernel that places every mapping at one address, if that is free, and records what is mapped.\<close>

definition arena_os :: "usize \<Rightarrow> usize set os" where
  "arena_os base = null_os
     \<lparr>c_mmap := \<lambda>a n fl f off (m, S).
        if MAP_FIXED \<in> fl then (if a = - 1 then (- 1, (m, S)) else (a, (m, S \<union> addr_range a n)))
        else if addr_range base n \<inter> S = {} \<and> unat base + unat n \<le> 2 ^ 31
        then (base, (m, S \<union> addr_range base n)) else (- 1, (m, S)),
      c_munmap := \<lambda>a n (m, S). if n = 0 then (- 1, (m, S)) else (0, (m, S - addr_range a n))\<rparr>"

lemma arena_os_manages:
  assumes "base mod 4096 = 0"
  shows "manages_memory (arena_os base) (\<lambda>S. S)"
proof -
  have "unat (- 1 :: usize) = 18446744073709551615" by (simp add: unsigned_minus_1_eq_mask mask_eq_exp_minus_1)
  then have "base \<noteq> - 1" using iffD1 [OF word_mod_0_iff assms] by auto
  then show ?thesis
    using assms unfolding manages_memory_def
    by (auto simp: arena_os_def null_os_def split: if_splits prod.splits)
qed

definition narrow_sys :: "'k \<Rightarrow> 'k sys" where
  "narrow_sys ks = \<lparr>wmem = (\<lambda>_. 0), wdev = (initial_statics\<lparr>iova_width := 39\<rparr>, ks)\<rparr>"

theorem allocate_2mib_32bit_witness:
  "(\<exists>w'. allocate_2mib (arena_os 0x1000) 0x400000 (narrow_sys {}) = Some (Ret 0x200000, w')
      \<and> mapped (\<lambda>S. S) w' = addr_range 0x200000 0x400000)
   \<and> (\<exists>e w'. allocate_2mib (arena_os 0x200000) 0x400000 (narrow_sys {}) = Some (Err (Mmap ''munmap with len 0 failed'' e), w')
      \<and> mapped (\<lambda>S. S) w' = addr_range 0x200000 0x600000)"
proof -
  have m: "c_mmap (arena_os b) 0 (0x400000 + PAGESIZE_2MIB) flags_32bit (- 1) 0 (wmem (narrow_sys {}), {})
      = (b, ((\<lambda>_. 0), addr_range b 0x600000))" if "unat b + 0x600000 \<le> 2 ^ 31" for b
    using that by (simp add: arena_os_def flags_32bit_def narrow_sys_def)
  note r = allocate_2mib_32bit [OF arena_os_manages, of _ "narrow_sys {}" "initial_statics\<lparr>iova_width := 39\<rparr>" "{}" "0x400000"]
  have "allocate_2mib (arena_os 0x1000) 0x400000 (narrow_sys {}) = Some (Ret 0x200000, w')
      \<Longrightarrow> mapped (\<lambda>S. S) w' = addr_range 0x200000 0x400000" for w'
    using r [OF _ _ _ _ _ m, of "0x1000"] by (auto simp: narrow_sys_def X86_VA_WIDTH_def)
  moreover have "\<exists>w'. allocate_2mib (arena_os 0x1000) 0x400000 (narrow_sys {}) = Some (Ret 0x200000, w')"
    by (simp add: allocate_2mib_def run_simps call_defs narrow_sys_def X86_VA_WIDTH_def arena_os_def align_2mib_def Let_def)
  moreover have "\<exists>e w'. allocate_2mib (arena_os 0x200000) 0x400000 (narrow_sys {}) = Some (Err (Mmap ''munmap with len 0 failed'' e), w')
      \<and> mapped (\<lambda>S. S) w' = addr_range 0x200000 0x600000"
    using r [OF _ _ _ _ _ m, of "0x200000"] by (auto simp: narrow_sys_def X86_VA_WIDTH_def)
  ultimately show ?thesis by blast
qed

subsection \<open>Translation for the device\<close>

text \<open>
  An entry of the table by which the IOMMU translates the addresses of the device: the memory behind
  an address of the device, and whether the device may read and write it.
\<close>

record dma_entry =
  e_vaddr :: usize
  e_size :: usize
  e_read :: bool
  e_write :: bool

text \<open>
  A named assumption on the kernel: \<open>T ks\<close> is the translation table of a back end. A request to map
  that succeeds adds an entry with the permissions of its flags at an address that had none: at the
  address it asks for in a container, at one the kernel chooses and reports for an IOMMUFD. A
  request to unmap an entry with its own size that succeeds removes it. \<^verbatim>\<open>mmap\<close> and \<^verbatim>\<open>munmap\<close> do not
  change the table.
\<close>

primrec map_request :: "'k os \<Rightarrow> ('k \<Rightarrow> usize \<rightharpoonup> dma_entry) \<Rightarrow> vfio_backend \<Rightarrow> bool" where
  "map_request k T (Legacy c) =
     (\<forall>x ks r arg ks'. c_ioctl k c (op_code VFIO_IOMMU_MAP_DMA) (Pointer (encode_dmap x)) ks = ((r, arg), ks') \<longrightarrow> r \<noteq> - 1 \<longrightarrow>
        arg = Pointer (encode_dmap x) \<and> T ks (dmap_iova x) = None
      \<and> T ks' = (T ks)(dmap_iova x \<mapsto> \<lparr>e_vaddr = dmap_vaddr x, e_size = dmap_size x,
                     e_read = bit (dmap_flags x) 0, e_write = bit (dmap_flags x) 1\<rparr>))"
| "map_request k T (IOMMUFD ioas f) =
     (\<forall>x ks r arg ks'. c_ioctl k f (op_code IOMMU_IOAS_MAP) (Pointer (encode_imap x)) ks = ((r, arg), ks') \<longrightarrow> r \<noteq> - 1 \<longrightarrow>
        imap_ioas_id x = ioas \<longrightarrow>
        (\<exists>i. (bit (imap_flags x) 0 \<longrightarrow> i = imap_iova x) \<and> arg = Pointer (encode_imap (x\<lparr>imap_iova := i\<rparr>)) \<and> T ks i = None
           \<and> T ks' = (T ks)(i \<mapsto> \<lparr>e_vaddr = imap_user_va x, e_size = imap_length x,
                          e_read = bit (imap_flags x) 2, e_write = bit (imap_flags x) 1\<rparr>)))"

primrec unmap_request :: "'k os \<Rightarrow> ('k \<Rightarrow> usize \<rightharpoonup> dma_entry) \<Rightarrow> vfio_backend \<Rightarrow> bool" where
  "unmap_request k T (Legacy c) =
     (\<forall>x ks r arg ks' e. c_ioctl k c (op_code VFIO_IOMMU_UNMAP_DMA) (Pointer (encode_dunmap x)) ks = ((r, arg), ks') \<longrightarrow> r \<noteq> - 1 \<longrightarrow>
        T ks (dunmap_iova x) = Some e \<longrightarrow> e_size e = dunmap_size x \<longrightarrow> T ks' = (T ks)(dunmap_iova x := None))"
| "unmap_request k T (IOMMUFD ioas f) =
     (\<forall>x ks r arg ks' e. c_ioctl k f (op_code IOMMU_IOAS_UNMAP) (Pointer (encode_iunmap x)) ks = ((r, arg), ks') \<longrightarrow> r \<noteq> - 1 \<longrightarrow>
        iunmap_ioas_id x = ioas \<longrightarrow> T ks (iunmap_iova x) = Some e \<longrightarrow> e_size e = iunmap_length x \<longrightarrow>
        T ks' = (T ks)(iunmap_iova x := None))"

definition translates :: "'k os \<Rightarrow> ('k \<Rightarrow> usize \<rightharpoonup> dma_entry) \<Rightarrow> vfio_backend \<Rightarrow> bool" where
  "translates k T b \<longleftrightarrow> map_request k T b \<and> unmap_request k T b
     \<and> (\<forall>a n fl f off m ks p m' ks'. c_mmap k a n fl f off (m, ks) = (p, (m', ks')) \<longrightarrow> T ks' = T ks)
     \<and> (\<forall>a n m ks r m' ks'. c_munmap k a n (m, ks) = (r, (m', ks')) \<longrightarrow> T ks' = T ks)"

abbreviation table :: "('k \<Rightarrow> usize \<rightharpoonup> dma_entry) \<Rightarrow> 'k sys \<Rightarrow> usize \<rightharpoonup> dma_entry" where
  "table T w \<equiv> T (snd (wdev w))"

lemma keeps_kquery [keeps_intros]: "keeps P (kquery g)" "keeps P (get_static i)"
  by (simp_all add: keeps_def run_simps)

lemma keeps_table:
  assumes "translates k T b"
  shows "keeps (\<lambda>w. table T w = t) (mmap_unsafe k a n fl f off)" "keeps (\<lambda>w. table T w = t) (munmap_unsafe k a n)"
proof -
  have "keeps (\<lambda>w. table T w = t) (kmcall (c_mmap k a n fl f off))" "keeps (\<lambda>w. table T w = t) (kmcall (c_munmap k a n))"
    using assms by (auto simp: keeps_def run_simps translates_def split: prod.splits)
  then show "keeps (\<lambda>w. table T w = t) (mmap_unsafe k a n fl f off)" "keeps (\<lambda>w. table T w = t) (munmap_unsafe k a n)"
    by (auto simp: mmap_unsafe_def munmap_unsafe_def intro: keeps_intros)
qed

text \<open>The pages of an allocation, by page size.\<close>

abbreviation allocate_pages :: "'k os \<Rightarrow> pagesize \<Rightarrow> usize \<Rightarrow> ('k sys, usize) comp" where
  "allocate_pages k p sz \<equiv> (case p of
     Page4K \<Rightarrow> allocate_4kib k sz | Page1G \<Rightarrow> allocate_1gib k sz | Page2M \<Rightarrow> allocate_2mib k sz)"

lemmas allocate_defs = allocate_4kib_def allocate_1gib_def allocate_2mib_def mmap_anonymous_unsafe_def

lemma allocate_pages_table:
  assumes "translates k T b"
  shows "keeps (\<lambda>w. table T w = t) (allocate_pages k p sz)"
  by (cases p) (auto simp: allocate_defs intro!: keeps_intros keeps_table [OF assms])

lemma anonymous_maps:
  assumes "manages_memory k M" and "sz mod 4096 = 0" and "MAP_FIXED \<notin> fl"
    and "mmap_anonymous_unsafe k sz fl w = Some (Ret ptr, w')"
  shows "mapped M w' = mapped M w \<union> addr_range ptr sz" "addr_range ptr sz \<inter> mapped M w = {}"
  using mmap_unsafe_maps(1) [OF assms(1,2) assms(4) [unfolded mmap_anonymous_unsafe_def]] assms(3) by auto

lemma allocate_pages_maps:
  assumes "manages_memory k M" and "unat (pagesize_size p) dvd unat sz" and "unat sz \<le> 2 ^ 46"
    and "allocate_pages k p sz w = Some (Ret ptr, w')"
  shows "mapped M w' = mapped M w \<union> addr_range ptr sz \<and> addr_range ptr sz \<inter> mapped M w = {}"
proof -
  obtain st ks where w: "wdev w = (st, ks)" by fastforce
  have sz: "sz mod 4096 = 0"
    using assms(2) by (cases p) (auto simp: word_mod_0_iff intro: dvd_trans [rotated])
  show ?thesis
  proof (cases "p = Page2M \<and> iova_width st < X86_VA_WIDTH")
    case True
    then have run: "allocate_2mib k sz w = Some (Ret ptr, w')" using assms(4) by simp
    obtain addr m1 ks1 where c: "c_mmap k 0 (sz + PAGESIZE_2MIB) flags_32bit (- 1) 0 (wmem w, ks) = (addr, (m1, ks1))"
      by (metis prod.exhaust)
    have "addr \<noteq> - 1"
    proof
      assume "addr = - 1"
      then have "\<exists>e t. mmap_anonymous_unsafe k (sz + PAGESIZE_2MIB) {MAP_32BIT} w = Some (Err e, t)"
        using mmap_unsafe_run [OF c w] by (simp add: mmap_anonymous_unsafe_def flags_32bit_def)
      then show False using run True w by (auto simp: allocate_2mib_def run_simps)
    qed
    moreover have "unat sz mod 2097152 = 0" using assms(2) True by simp
    ultimately show ?thesis
      using allocate_2mib_narrow [OF assms(1) w _ _ assms(3) c] True run w by (auto split: if_splits)
  next
    case False
    let ?fl = "case p of Page4K \<Rightarrow> if iova_width st < X86_VA_WIDTH then {MAP_32BIT} else {}
      | Page2M \<Rightarrow> {MAP_HUGETLB, MAP_HUGE_2MB} | Page1G \<Rightarrow> {MAP_HUGETLB, MAP_HUGE_1GB}"
    have run: "mmap_anonymous_unsafe k sz ?fl w = Some (Ret ptr, w')"
      using False assms(4) w
      by (cases p) (simp_all add: allocate_4kib_def allocate_1gib_def allocate_2mib_def run_simps split: if_splits)
    have "MAP_FIXED \<notin> ?fl" by (cases p) auto
    then show ?thesis using anonymous_maps [OF assms(1) sz _ run] by simp
  qed
qed

lemma ioctl_run:
  assumes "c_ioctl k f (op_code op) arg ks = ((r, arg'), ks')" and "wdev w = (st, ks)"
  shows "ioctl k f op arg w = Some (if r = - 1 then Err (Ioctl (display_op op) (last_os_error k ks'))
    else Ret (r, arg_bytes arg'), w\<lparr>wdev := (st, ks')\<rparr>)"
  using assms by (simp add: ioctl_def ioctl_unsafe_def run_simps)

lemma law_ioctl:
  assumes "manages_memory k M" and "c_ioctl k f op arg ks = (x, ks')"
  shows "M ks' = M ks"
proof -
  have "M (snd (c_ioctl k f op arg ks)) = M ks" using assms(1) unfolding manages_memory_def by blast
  then show ?thesis using assms(2) by simp
qed

lemma map_dma_maps:
  assumes "manages_memory k M" and "translates k T b" and "map_dma k b ptr sz w = Some (Ret d, w')"
  shows "virt d = ptr" "dsize d = sz" "table T w (phys d) = None" "mapped M w' = mapped M w"
    "table T w' = (table T w)(phys d \<mapsto> \<lparr>e_vaddr = ptr, e_size = sz, e_read = (\<exists>c. b = Legacy c), e_write = True\<rparr>)"
    "(\<exists>c. b = Legacy c) \<longrightarrow> phys d = ptr"
proof -
  have req: "map_request k T b" "unmap_request k T b" using assms(2) by (simp_all add: translates_def)
  obtain st ks where w: "wdev w = (st, ks)" by fastforce
  have "virt d = ptr \<and> dsize d = sz \<and> table T w (phys d) = None \<and> mapped M w' = mapped M w
    \<and> table T w' = (table T w)(phys d \<mapsto> \<lparr>e_vaddr = ptr, e_size = sz, e_read = (\<exists>c. b = Legacy c), e_write = True\<rparr>)
    \<and> ((\<exists>c. b = Legacy c) \<longrightarrow> phys d = ptr)"
  proof (cases b)
    case (Legacy c)
    let ?x = "\<lparr>dmap_argsz = size_of_dmap, dmap_flags = VFIO_DMA_MAP_FLAG_READ OR VFIO_DMA_MAP_FLAG_WRITE,
      dmap_vaddr = ptr, dmap_iova = ptr, dmap_size = sz\<rparr>"
    obtain r arg ks' where c: "c_ioctl k c (op_code VFIO_IOMMU_MAP_DMA) (Pointer (encode_dmap ?x)) ks = ((r, arg), ks')"
      by (metis prod.exhaust)
    have r: "r \<noteq> - 1" "w' = w\<lparr>wdev := (st, ks')\<rparr>" "d = \<lparr>virt = ptr, phys = dmap_iova (decode_dmap (arg_bytes arg)), dsize = sz\<rparr>"
      using assms(3) Legacy ioctl_run [OF c w] by (auto simp: map_dma_def run_simps split: if_splits)
    have "arg = Pointer (encode_dmap ?x) \<and> T ks ptr = None
        \<and> T ks' = (T ks)(ptr \<mapsto> \<lparr>e_vaddr = ptr, e_size = sz, e_read = True, e_write = True\<rparr>)"
      using req(1) [unfolded Legacy map_request.simps, rule_format, OF c r(1)]
      by (simp add: VFIO_DMA_MAP_FLAG_READ_def VFIO_DMA_MAP_FLAG_WRITE_def bit_simps)
    then show ?thesis using r Legacy w law_ioctl [OF assms(1) c] by simp
  next
    case (IOMMUFD ioas f)
    let ?x = "\<lparr>imap_size = size_of_imap, imap_flags = IOMMU_IOAS_MAP_WRITEABLE OR IOMMU_IOAS_MAP_READABLE,
      imap_ioas_id = ioas, imap_reserved = 0, imap_user_va = ptr, imap_length = sz, imap_iova = 0\<rparr>"
    obtain r arg ks' where c: "c_ioctl k f (op_code IOMMU_IOAS_MAP) (Pointer (encode_imap ?x)) ks = ((r, arg), ks')"
      by (metis prod.exhaust)
    have r: "r \<noteq> - 1" "w' = w\<lparr>wdev := (st, ks')\<rparr>" "d = \<lparr>virt = ptr, phys = imap_iova (decode_imap (arg_bytes arg)), dsize = sz\<rparr>"
      using assms(3) IOMMUFD ioctl_run [OF c w] by (auto simp: map_dma_def run_simps split: if_splits)
    obtain i where "arg = Pointer (encode_imap (?x\<lparr>imap_iova := i\<rparr>))" "T ks i = None"
        "T ks' = (T ks)(i \<mapsto> \<lparr>e_vaddr = ptr, e_size = sz, e_read = False, e_write = True\<rparr>)"
      using req(1) [unfolded IOMMUFD map_request.simps, rule_format, OF c r(1)]
      by (auto simp: IOMMU_IOAS_MAP_WRITEABLE_def IOMMU_IOAS_MAP_READABLE_def bit_simps)
    then show ?thesis using r IOMMUFD w law_ioctl [OF assms(1) c] by simp
  qed
  then show "virt d = ptr" "dsize d = sz" "table T w (phys d) = None" "mapped M w' = mapped M w"
    "table T w' = (table T w)(phys d \<mapsto> \<lparr>e_vaddr = ptr, e_size = sz, e_read = (\<exists>c. b = Legacy c), e_write = True\<rparr>)"
    "(\<exists>c. b = Legacy c) \<longrightarrow> phys d = ptr"
    by blast+
qed

lemma unmap_dma_unmaps:
  assumes "manages_memory k M" and "translates k T b" and "unmap_dma k b d w = Some (Ret u, w')"
    and "table T w (phys d) = Some e" and "e_size e = dsize d"
  shows "table T w' = (table T w)(phys d := None)" "mapped M w' = mapped M w"
proof -
  have req: "map_request k T b" "unmap_request k T b" using assms(2) by (simp_all add: translates_def)
  obtain st ks where w: "wdev w = (st, ks)" by fastforce
  have "table T w' = (table T w)(phys d := None) \<and> mapped M w' = mapped M w"
  proof (cases b)
    case (Legacy c)
    let ?x = "\<lparr>dunmap_argsz = size_of_dunmap, dunmap_flags = 0, dunmap_iova = phys d, dunmap_size = dsize d,
      dunmap_data = 0\<rparr>"
    obtain r arg ks' where c: "c_ioctl k c (op_code VFIO_IOMMU_UNMAP_DMA) (Pointer (encode_dunmap ?x)) ks = ((r, arg), ks')"
      by (metis prod.exhaust)
    have r: "r \<noteq> - 1" "w' = w\<lparr>wdev := (st, ks')\<rparr>"
      using assms(3) Legacy ioctl_run [OF c w] by (auto simp: unmap_dma_def run_simps split: if_splits)
    then show ?thesis
      using req(2) [unfolded Legacy unmap_request.simps, rule_format, OF c] assms(4,5) w law_ioctl [OF assms(1) c] by simp
  next
    case (IOMMUFD ioas f)
    let ?x = "\<lparr>iunmap_size = size_of_iunmap, iunmap_ioas_id = ioas, iunmap_iova = phys d, iunmap_length = dsize d\<rparr>"
    obtain r arg ks' where c: "c_ioctl k f (op_code IOMMU_IOAS_UNMAP) (Pointer (encode_iunmap ?x)) ks = ((r, arg), ks')"
      by (metis prod.exhaust)
    have r: "r \<noteq> - 1" "w' = w\<lparr>wdev := (st, ks')\<rparr>"
      using assms(3) IOMMUFD ioctl_run [OF c w] by (auto simp: unmap_dma_def run_simps split: if_splits)
    then show ?thesis
      using req(2) [unfolded IOMMUFD unmap_request.simps, rule_format, OF c] assms(4,5) w law_ioctl [OF assms(1) c] by simp
  qed
  then show "table T w' = (table T w)(phys d := None)" "mapped M w' = mapped M w" by blast+
qed

text \<open>
  C36. Allocation and deallocation through VFIO. A successful allocation gives a region of the
  requested size rounded up to whole pages, over fresh memory, and adds exactly one entry to the
  translation table: at the region's device address, for the whole region. With a container the
  device address is the virtual one and the device may read and write the region; with an IOMMUFD
  the device may write it but not read it, because the flag for reading has the value of the flag
  for writing. Deallocation that succeeds removes the entry, and unmaps the region rounded up to the
  page size then set: if that has not been changed, memory and table are what they were before.
\<close>

theorem vfio_allocate_deallocate:
  assumes "manages_memory k M" and "translates k T (iommu v)" and "unat n \<le> 2 ^ 45"
    and "vf_allocate k v n w = Some (Ret d, w1)"
  shows "dsize d = shift_up (vf_page_size v) n
    \<and> mapped M w1 = mapped M w \<union> addr_range (virt d) (dsize d) \<and> addr_range (virt d) (dsize d) \<inter> mapped M w = {}
    \<and> table T w (phys d) = None
    \<and> table T w1 = (table T w)(phys d \<mapsto> \<lparr>e_vaddr = virt d, e_size = dsize d,
                      e_read = (\<exists>c. iommu v = Legacy c), e_write = True\<rparr>)
    \<and> ((\<exists>c. iommu v = Legacy c) \<longrightarrow> phys d = virt d)
    \<and> (\<forall>p w2. vf_deallocate k (vfio_set_page_size p v) d w1 = Some (Ret (), w2) \<longrightarrow>
         table T w2 = table T w
       \<and> mapped M w2 = mapped M w1 - addr_range (virt d) (shift_up p (dsize d))
       \<and> (p = vf_page_size v \<longrightarrow> mapped M w2 = mapped M w))"
proof -
  let ?sz = "shift_up (vf_page_size v) n"
  have ps: "unat (pagesize_size p) \<le> 2 ^ 30" for p by (cases p) simp_all
  have "unat n + unat (pagesize_size (vf_page_size v)) \<le> 2 ^ 64" using ps [of "vf_page_size v"] assms(3) by simp
  note up = shift_up_bounds [OF this] shift_up_idem [OF this]
  have small: "unat ?sz \<le> 2 ^ 46" using up(1) ps [of "vf_page_size v"] assms(3) by simp
  obtain ptr w0 where a: "allocate_pages k (vf_page_size v) ?sz w = Some (Ret ptr, w0)"
      "map_dma k (iommu v) ptr ?sz w0 = Some (Ret d, w1)"
    using assms(4) unfolding vf_allocate_def Let_def by (rule mbind_RetE)
  note pg = allocate_pages_maps [OF assms(1) conjunct1 [OF up(1)] small a(1)]
  have t0: "table T w0 = table T w" using keepsD [OF allocate_pages_table [OF assms(2)] a(1)] by simp
  note m = map_dma_maps [OF assms(1,2) a(2)]
  have dealloc: "table T w2 = table T w
       \<and> mapped M w2 = mapped M w1 - addr_range (virt d) (shift_up p (dsize d))
       \<and> (p = vf_page_size v \<longrightarrow> mapped M w2 = mapped M w)"
    if dealloc: "vf_deallocate k (vfio_set_page_size p v) d w1 = Some (Ret (), w2)" for p w2
  proof -
    have "mbind (unmap_dma k (iommu v) d) (\<lambda>_. mbind (munmap_unsafe k (virt d) (shift_up p (dsize d))) (\<lambda>_. mret ())) w1
        = Some (Ret (), w2)"
      using dealloc by (simp add: vf_deallocate_def vfio_set_page_size_def)
    then obtain u w3 where d1: "unmap_dma k (iommu v) d w1 = Some (Ret u, w3)"
        "mbind (munmap_unsafe k (virt d) (shift_up p (dsize d))) (\<lambda>_. mret ()) w3 = Some (Ret (), w2)"
      by (rule mbind_RetE)
    from d1(2) obtain r where d2: "munmap_unsafe k (virt d) (shift_up p (dsize d)) w3 = Some (Ret r, w2)"
      by (rule mbind_RetE) simp
    have "table T w1 (phys d) = Some \<lparr>e_vaddr = ptr, e_size = ?sz, e_read = (\<exists>c. iommu v = Legacy c), e_write = True\<rparr>"
      using m(5) by simp
    note un = unmap_dma_unmaps [OF assms(1,2) d1(1) this]
    have "unat ?sz + unat (pagesize_size p) \<le> 2 ^ 64" using small ps [of p] by simp
    then have "unat (pagesize_size p) dvd unat (shift_up p ?sz)" using shift_up_bounds by blast
    then have "shift_up p (dsize d) mod 4096 = 0"
      using m(2) by (cases p) (auto simp: word_mod_0_iff intro: dvd_trans [rotated])
    note mu = munmap_unsafe_unmaps(1) [OF assms(1) this d2] and kt = keepsD [OF keeps_table(2) [OF assms(2)] d2]
    have "table T w2 = table T w"
      using kt un(1) m(2,3,5) t0 by (auto simp: fun_eq_iff)
    moreover have "mapped M w2 = mapped M w1 - addr_range (virt d) (shift_up p (dsize d))" using mu un(2) m(2) by simp
    moreover from this have "mapped M w2 = mapped M w" if "p = vf_page_size v"
      using that pg m(1,2,4) up(2) by auto
    ultimately show ?thesis by blast
  qed
  have "dsize d = ?sz
    \<and> mapped M w1 = mapped M w \<union> addr_range (virt d) (dsize d) \<and> addr_range (virt d) (dsize d) \<inter> mapped M w = {}
    \<and> table T w (phys d) = None
    \<and> table T w1 = (table T w)(phys d \<mapsto> \<lparr>e_vaddr = virt d, e_size = dsize d,
                      e_read = (\<exists>c. iommu v = Legacy c), e_write = True\<rparr>)
    \<and> ((\<exists>c. iommu v = Legacy c) \<longrightarrow> phys d = virt d)"
    using pg m t0 by simp
  then show ?thesis using dealloc by blast
qed

text \<open>A kernel with one container that also keeps a translation table.\<close>

definition iommu_os :: "usize \<Rightarrow> (usize set \<times> (usize \<rightharpoonup> dma_entry)) os" where
  "iommu_os base = null_os
     \<lparr>c_mmap := \<lambda>a n fl f off (m, (S, t)). case c_mmap (arena_os base) a n fl f off (m, S) of
        (p, (m', S')) \<Rightarrow> (p, (m', (S', t))),
      c_munmap := \<lambda>a n (m, (S, t)). case c_munmap (arena_os base) a n (m, S) of
        (r, (m', S')) \<Rightarrow> (r, (m', (S', t))),
      c_ioctl := \<lambda>f op arg (S, t).
        if op = op_code VFIO_IOMMU_MAP_DMA then
          let x = decode_dmap (arg_bytes arg)
          in if t (dmap_iova x) = None
             then ((0, arg), (S, t(dmap_iova x \<mapsto> \<lparr>e_vaddr = dmap_vaddr x, e_size = dmap_size x,
                     e_read = bit (dmap_flags x) 0, e_write = bit (dmap_flags x) 1\<rparr>)))
             else ((- 1, arg), (S, t))
        else if op = op_code VFIO_IOMMU_UNMAP_DMA then
          ((0, arg), (S, t(dunmap_iova (decode_dunmap (arg_bytes arg)) := None)))
        else ((0, arg), (S, t))\<rparr>"

lemma iommu_os_calls:
  "c_mmap (iommu_os base) a n fl f off (m, ks) = (p, (m', ks')) \<Longrightarrow>
     c_mmap (arena_os base) a n fl f off (m, fst ks) = (p, (m', fst ks')) \<and> snd ks' = snd ks"
  "c_munmap (iommu_os base) a n (m, ks) = (r, (m', ks')) \<Longrightarrow>
     c_munmap (arena_os base) a n (m, fst ks) = (r, (m', fst ks')) \<and> snd ks' = snd ks"
  "fst (snd (c_ioctl (iommu_os base) f op arg ks)) = fst ks"
  by (cases ks; auto simp: iommu_os_def Let_def split: prod.splits if_splits)+

lemma iommu_os_manages:
  assumes "base mod 4096 = 0"
  shows "manages_memory (iommu_os base) fst"
proof -
  note law = arena_os_manages [OF assms, unfolded manages_memory_def]
  show ?thesis unfolding manages_memory_def
  proof (intro conjI allI impI, goal_cases)
    case (1 a n fl f off m ks p m' ks')
    then show ?case using conjunct1 [OF law, rule_format, OF 1(1)] iommu_os_calls(1) [OF 1(2)] by blast
  next
    case (2 a n m ks r m' ks')
    then show ?case using conjunct1 [OF conjunct2 [OF law], rule_format, OF 2(1)] iommu_os_calls(2) [OF 2(2)] by blast
  next
    case (3 f op arg ks)
    show ?case by (rule iommu_os_calls(3))
  qed
qed

lemma iommu_os_translates: "translates (iommu_os base) snd (Legacy c)"
proof -
  have "map_request (iommu_os base) snd (Legacy c)" "unmap_request (iommu_os base) snd (Legacy c)"
    by (auto simp: iommu_os_def Let_def op_code_values split: if_splits prod.splits)
  then show ?thesis using iommu_os_calls(1,2) unfolding translates_def by blast
qed

definition demo_vfio :: vfio where
  "demo_vfio = \<lparr>vf_pci_addr = ''0000:00:04.0'', device_fd = 5, vf_page_size = Page4K, iommu = Legacy 3\<rparr>"

theorem vfio_allocate_deallocate_witness:
  "\<exists>d w1 w2. vf_allocate (iommu_os 0x1000) demo_vfio 5000 (narrow_sys ({}, Map.empty)) = Some (Ret d, w1)
    \<and> d = \<lparr>virt = 0x1000, phys = 0x1000, dsize = 8192\<rparr>
    \<and> mapped fst w1 = addr_range 0x1000 8192
    \<and> vf_deallocate (iommu_os 0x1000) demo_vfio d w1 = Some (Ret (), w2)
    \<and> mapped fst w2 = {} \<and> table snd w2 = Map.empty"
proof -
  let ?k = "iommu_os 0x1000" and ?w = "narrow_sys ({}, Map.empty) :: (usize set \<times> (usize \<rightharpoonup> dma_entry)) sys"
  let ?d = "\<lparr>virt = 0x1000, phys = 0x1000, dsize = 8192\<rparr>"
  have up: "shift_up Page4K 5000 = 8192" "shift_up Page4K 8192 = 8192"
    by (simp_all add: shift_up_def push_bit_eq_mult drop_bit_eq_div)
  obtain w1 where a: "vf_allocate ?k demo_vfio 5000 ?w = Some (Ret ?d, w1)"
    by (simp add: vf_allocate_def demo_vfio_def up allocate_4kib_def map_dma_def ioctl_def run_simps call_defs
        narrow_sys_def X86_VA_WIDTH_def iommu_os_def arena_os_def Let_def)
  have "manages_memory ?k fst" by (rule iommu_os_manages) simp
  from vfio_allocate_deallocate [OF this, of snd demo_vfio 5000 ?w ?d w1] a
  have f: "mapped fst w1 = addr_range 0x1000 8192"
      "\<forall>w2. vf_deallocate ?k demo_vfio ?d w1 = Some (Ret (), w2) \<longrightarrow> mapped fst w2 = {} \<and> table snd w2 = Map.empty"
    using iommu_os_translates [of "0x1000" 3]
    by (simp_all add: demo_vfio_def narrow_sys_def vfio_set_page_size_def up)
  have "\<exists>w2. vf_deallocate ?k demo_vfio ?d w1 = Some (Ret (), w2)"
    by (cases "wdev w1") (simp add: vf_deallocate_def demo_vfio_def unmap_dma_def ioctl_def run_simps call_defs up
        iommu_os_def arena_os_def op_code_values split: prod.split)
  then show ?thesis using a f by blast
qed

end
