(* ===== verification/Mem_Access.thy ===== *)
theory Mem_Access
  imports Mapping_Spec Vfio_Memory
begin

text \<open>
  The allocator an application gets (\<^verbatim>\<open>MemoryAccess\<close> in \<^verbatim>\<open>src/src/mapping.rs\<close>): physical addresses or
  VFIO, chosen by what the system offers. \<^verbatim>\<open>Physical\<close>, \<^verbatim>\<open>Vfio\<close> and \<^verbatim>\<open>MemoryAccess\<close> interpret the
  contract \<open>mapping_provider\<close>, so that what is proved of a device on any provider holds on them.
\<close>

unbundle bit_operations_syntax

datatype memory_access = Physical_Access physical | Vfio_Access vfio

definition ma_init_with_page_size :: "'k os \<Rightarrow> string \<Rightarrow> pagesize \<Rightarrow> ('k sys, memory_access) comp" where
  "ma_init_with_page_size k addr p =
     mbind (vfio_is_enabled k addr) (\<lambda>enabled.
     if enabled then mbind (vfio_init_with_args k addr p False) (\<lambda>v. mret (Vfio_Access v))
     else mbind (physical_init_with_args k addr p) (\<lambda>m. mret (Physical_Access m)))"

definition ma_init :: "'k os \<Rightarrow> string \<Rightarrow> ('k sys, memory_access) comp" where
  "ma_init k addr = ma_init_with_page_size k addr DEFAULT_PAGE_SIZE"

definition ma_set_page_size :: "pagesize \<Rightarrow> memory_access \<Rightarrow> memory_access" where
  "ma_set_page_size p mem = (case mem of
     Vfio_Access v \<Rightarrow> Vfio_Access (vfio_set_page_size p v)
   | Physical_Access m \<Rightarrow> mem)"

primrec ma_allocate :: "'k os \<Rightarrow> memory_access \<Rightarrow> usize \<Rightarrow> ('k sys, dma) comp" where
  "ma_allocate k (Physical_Access m) = ph_allocate k m"
| "ma_allocate k (Vfio_Access v) = vf_allocate k v"

primrec ma_deallocate :: "'k os \<Rightarrow> memory_access \<Rightarrow> dma \<Rightarrow> ('k sys, unit) comp" where
  "ma_deallocate k (Physical_Access m) = ph_deallocate k m"
| "ma_deallocate k (Vfio_Access v) = vf_deallocate k v"

primrec ma_map_resource :: "'k os \<Rightarrow> memory_access \<Rightarrow> ('k sys, usize \<times> usize) comp" where
  "ma_map_resource k (Physical_Access m) = ph_map_resource k m"
| "ma_map_resource k (Vfio_Access v) = vf_map_resource k v"

text \<open>The operations of trait \<^verbatim>\<open>Mapping\<close> on it, for the device.\<close>

definition memory_access_ops :: "'k os \<Rightarrow> (memory_access, statics \<times> 'k) mapping_ops" where
  "memory_access_ops k = \<lparr>op_allocate = ma_allocate k, op_deallocate = ma_deallocate k,
     op_map_resource = ma_map_resource k, op_set_page_size = ma_set_page_size\<rparr>"

primrec ma_page_size :: "memory_access \<Rightarrow> pagesize" where
  "ma_page_size (Physical_Access m) = ph_page_size m"
| "ma_page_size (Vfio_Access v) = vf_page_size v"

subsection \<open>The providers meet the contract\<close>

lemma returns_virt_to_phys [returns_intros]: "returns (virt_to_phys k a)"
  unfolding virt_to_phys_def by (intro returns_intros)

lemma returns_ioctl [returns_intros]: "returns (ioctl k f op arg)"
  unfolding ioctl_def by (intro returns_intros)

lemma returns_map_dma [returns_intros]: "returns (map_dma k b ptr n)" "returns (unmap_dma k b d)"
  by (cases b; simp add: map_dma_def unmap_dma_def; intro returns_intros)+

lemma returns_allocate_pages [returns_intros]: "returns (allocate_pages k p n)"
  by (cases p; simp add: allocate_4kib_def allocate_1gib_def allocate_2mib_def; intro returns_intros)

lemma map_dma_size: "map_dma k b ptr n w = Some (Ret d, w') \<Longrightarrow> dsize d = n"
  by (cases b) (auto simp: map_dma_def elim!: mbind_RetE)

interpretation ph: mapping_provider "ph_allocate k" "ph_deallocate k" "ph_map_resource k" ph_page_size for k
proof
  show "returns (ph_allocate k mem n)" for mem n unfolding ph_allocate_def by (intro returns_intros)
  show "returns (ph_deallocate k mem d)" for mem d unfolding ph_deallocate_def by (intro returns_intros)
  show "returns (ph_map_resource k mem)" for mem unfolding ph_map_resource_def by (intro returns_intros)
  show "dsize d = shift_up (ph_page_size mem) n" if "ph_allocate k mem n w = Some (Ret d, w')" for mem n w d w'
    using that by (auto simp: ph_allocate_def Let_def elim!: mbind_RetE split: sum.splits)
qed

interpretation vf: mapping_resizable "vf_allocate k" "vf_deallocate k" "vf_map_resource k" vf_page_size vfio_set_page_size for k
proof
  show "returns (vf_allocate k mem n)" for mem n unfolding vf_allocate_def by (intro returns_intros)
  show "returns (vf_deallocate k mem d)" for mem d unfolding vf_deallocate_def by (intro returns_intros)
  show "returns (vf_map_resource k mem)" for mem
    unfolding vf_map_resource_def map_resource_index_def get_region_info_def by (intro returns_intros)
  show "dsize d = shift_up (vf_page_size mem) n" if "vf_allocate k mem n w = Some (Ret d, w')" for mem n w d w'
    using that by (auto simp: vf_allocate_def Let_def dest: map_dma_size elim!: mbind_RetE)
  show "vf_page_size (vfio_set_page_size p mem) = p \<or> vfio_set_page_size p mem = mem" for p mem
    by (simp add: vfio_set_page_size_def)
qed

interpretation ma: mapping_resizable "ma_allocate k" "ma_deallocate k" "ma_map_resource k" ma_page_size ma_set_page_size for k
proof
  show "returns (ma_allocate k mem n)" for mem n
    by (cases mem) (simp_all add: ph.allocate_returns vf.allocate_returns)
  show "returns (ma_deallocate k mem d)" for mem d
    by (cases mem) (simp_all add: ph.deallocate_returns vf.deallocate_returns)
  show "returns (ma_map_resource k mem)" for mem
    by (cases mem) (simp_all add: ph.map_resource_returns vf.map_resource_returns)
  show "dsize d = shift_up (ma_page_size mem) n" if "ma_allocate k mem n w = Some (Ret d, w')" for mem n w d w'
    using that by (cases mem) (simp_all add: ph.allocate_size vf.allocate_size)
  show "ma_page_size (ma_set_page_size p mem) = p \<or> ma_set_page_size p mem = mem" for p mem
    by (cases mem) (simp_all add: ma_set_page_size_def vfio_set_page_size_def)
qed

end
