(* ===== verification/Sync_Ring.thy ===== *)
theory Sync_Ring
  imports Controller
begin

text \<open>
  Controllers that answer a command as soon as the doorbell of its ring is rung, for concrete runs.
  \<open>ring_answer exec cnt sq cq\<close> is what such a controller does: \<open>cnt\<close> counts the commands so far, the
  next one is read from its slot, \<open>exec\<close> carries it out, and its completion is posted. Whatever
  \<open>exec\<close> does, the ring is served.
\<close>

definition post_answer :: "submission_queue \<Rightarrow> completion_queue \<Rightarrow> nat \<Rightarrow> 'd world \<Rightarrow> 'd world" where
  "post_answer sq cq k w =
     w\<lparr>wmem := mem_write (wmem w) (cell (virt (cq_commands cq)) 16 (k mod unat (cq_len cq)))
                 (encode_completion (sync_answer (unat (sq_len sq)) (unat (cq_len cq)) k))\<rparr>"

definition ring_answer ::
    "(nvme_command \<Rightarrow> 'd world \<Rightarrow> 'd world) \<Rightarrow> ('d \<Rightarrow> nat) \<Rightarrow> submission_queue \<Rightarrow> completion_queue \<Rightarrow> 'd world \<Rightarrow> 'd world" where
  "ring_answer exec cnt sq cq w =
     (let k = cnt (wdev w) in post_answer sq cq k (exec (sq_slot sq (wmem w) (k mod unat (sq_len sq))) w))"

definition ring_state ::
    "('d \<Rightarrow> nat) \<Rightarrow> submission_queue \<Rightarrow> completion_queue \<Rightarrow> submission_queue \<Rightarrow> completion_queue \<Rightarrow> 'd world \<Rightarrow> bool" where
  "ring_state cnt sq0 cq0 sq cq w \<longleftrightarrow>
     sq_inv sq \<and> sq_commands sq = sq_commands sq0 \<and> sq_len sq = sq_len sq0
     \<and> unat (sq_tail sq) = cnt (wdev w) mod unat (sq_len sq)
     \<and> cq_consumed cq (cnt (wdev w)) \<and> cq_commands cq = cq_commands cq0 \<and> cq_len cq = cq_len cq0"

lemma post_answer_simps [simp]: "wdev (post_answer sq cq k w) = wdev w"
  by (simp add: post_answer_def)

lemma ring_answer_stored:
  assumes "ring_state cnt sq0 cq0 sq cq w" and "w1 = w\<lparr>wmem := sq_stored e sq (wmem w)\<rparr>"
  shows "ring_answer exec cnt sq0 cq0 w1 = post_answer sq0 cq0 (cnt (wdev w)) (exec e w1)"
proof -
  have s: "sq_inv sq" "sq_commands sq = sq_commands sq0" "sq_len sq = sq_len sq0"
      "unat (sq_tail sq) = cnt (wdev w) mod unat (sq_len sq)"
    using assms(1) by (auto simp: ring_state_def)
  have slot: "sq_slot sq0 = sq_slot sq" using s by (simp add: sq_slot_def fun_eq_iff)
  have "cnt (wdev w) mod unat (sq_len sq) < 16384" using sq_invD [OF s(1)] s(4) by linarith
  then have "sq_slot sq (sq_stored e sq (wmem w)) (cnt (wdev w) mod unat (sq_len sq)) = e"
    using s(4) by (simp add: sq_slot_stored [OF _ s(1)])
  then show ?thesis using s(3) by (simp add: ring_answer_def Let_def slot assms(2))
qed

lemma ring_serves:
  assumes tick: "hw_tick hw = (\<lambda>w. w)"
    and sqdb: "\<And>v w. hw_write32 hw sqdb v w = ring_answer exec cnt sq0 cq0 w"
    and cqdb: "\<And>v w. hw_write32 hw cqdb v w = w"
    and cnt: "\<And>e w. cnt (wdev (exec e w)) = Suc (cnt (wdev w))"
    and J: "\<And>cs e sq cq w w1. J cs w \<Longrightarrow> ring_state cnt sq0 cq0 sq cq w \<Longrightarrow> w1 = w\<lparr>wmem := sq_stored e sq (wmem w)\<rparr> \<Longrightarrow>
        J (cs @ [e]) (post_answer sq0 cq0 (cnt (wdev w)) (exec e w1))"
    and upd: "upd = (\<lambda>c sq. sq) \<or> upd = take_head"
  shows "serves hw sqdb cqdb upd (\<lambda>cs sq cq w. ring_state cnt sq0 cq0 sq cq w \<and> J cs w)"
  unfolding serves_def
proof (intro allI impI, elim conjE)
  fix cs sq cq w e
  assume I: "ring_state cnt sq0 cq0 sq cq w" and j: "J cs w"
  let ?k = "cnt (wdev w)" and ?w1 = "w\<lparr>wmem := sq_stored e sq (wmem w)\<rparr>"
  let ?c = "sync_answer (unat (sq_len sq0)) (unat (cq_len cq0)) ?k"
  let ?w2 = "post_answer sq0 cq0 ?k (exec e ?w1)"
  have rung: "sq_rung hw sqdb e sq w = ?w2"
    by (simp only: sq_rung_def sqdb) (rule ring_answer_stored [OF I refl])
  have s: "sq_inv sq" "unat (sq_tail sq) = ?k mod unat (sq_len sq)" "cq_consumed cq ?k"
      "sq_commands sq = sq_commands sq0" "sq_len sq = sq_len sq0" "cq_commands cq = cq_commands cq0" "cq_len cq = cq_len cq0"
    using I by (auto simp: ring_state_def)
  have h: "unat (cq_head cq) = ?k mod unat (cq_len cq0)" "cq_phase cq = phase_of (unat (cq_len cq0)) ?k"
    using s(3,7) by (auto simp: cq_consumed_def)
  have "cq_slot cq (wmem ?w2) (unat (cq_head cq)) = ?c"
    using h(1) s(6) by (simp add: post_answer_def cq_slot_def mem_read_write_exact)
  moreover have "odd (ce_status ?c) = cq_phase cq" using h(2) by (simp add: sync_answer_def)
  ultimately have ans: "answered hw cq ?w2 ?c 0" by (simp add: answered_def)
  have "unat ((sq_tail sq + 1) mod sq_len sq) = Suc ?k mod unat (sq_len sq)"
    using s(1,2) by (simp add: unat_ring_succ sq_inv_def mod_Suc_eq)
  moreover have "sq_inv (upd ?c (sq_after e sq))"
    using upd sq_inv_after [OF s(1), of e] sync_head_less [OF s(1), of ?k] s(5)
    by (auto simp: sq_inv_def sync_answer_def)
  ultimately have "ring_state cnt sq0 cq0 (upd ?c (sq_after e sq)) (cq_after cq) ?w2"
    using upd s cnt [of e ?w1] cq_consumed_after [OF s(3)] by (auto simp: ring_state_def)
  moreover have "cq_rung hw cqdb cq 0 ?w2 = ?w2" by (simp add: cq_rung_def cqdb)
  moreover have "status_code ?c = 0" by (simp add: status_code_def sync_answer_def drop_bit_Suc)
  moreover have "cq_inv cq" using s(3) by (simp add: cq_consumed_def)
  ultimately show "sq_inv sq \<and> cq_inv cq \<and> (\<exists>c T. answered hw cq (sq_rung hw sqdb e sq w) c T \<and> status_code c = 0
      \<and> ring_state cnt sq0 cq0 (upd c (sq_after e sq)) (cq_after cq) (cq_rung hw cqdb cq T (sq_rung hw sqdb e sq w))
      \<and> J (cs @ [e]) (cq_rung hw cqdb cq T (sq_rung hw sqdb e sq w)))"
    unfolding rung using s(1) ans J [OF j I refl] by metis
qed

end
