(* ===== verification/Lib.thy ===== *)
theory Lib
  imports Device_Init Mem_Access Sync_Ring
begin

text \<open>
  The entry points of the library (\<^verbatim>\<open>src/src/lib.rs\<close>): \<open>lib_init_with_page_size\<close> checks the class of the
  device, sets up memory access, initialises the controller and identifies its namespaces. The
  properties follow the whole path, from the files of the PCI device to a device that is ready; a
  concrete system, kernel and controller, runs it.
\<close>

unbundle bit_operations_syntax

text \<open>Running operations on a device that is a local variable.\<close>

definition run_device :: "'m nvme_device \<Rightarrow> (('m, 'd) dev_state, 'a) comp \<Rightarrow> ('d world, 'm nvme_device) comp" where
  "run_device dev m = (\<lambda>w. case m (dev, w) of
     None \<Rightarrow> None
   | Some (Ret _, t) \<Rightarrow> Some (Ret (fst t), snd t)
   | Some (Err e, t) \<Rightarrow> Some (Err e, snd t)
   | Some (Panic p, t) \<Rightarrow> Some (Panic p, snd t))"

definition identify_all :: "'d hw \<Rightarrow> (('m, 'd) dev_state, unit) comp" where
  "identify_all hw =
     mbind (identify_controller_print hw) (\<lambda>_.
     mbind (identify_namespace_list hw 0) (\<lambda>ns.
     mfold (\<lambda>n _. mbind (identify_namespace hw n) (\<lambda>_. mret ())) ns ()))"

definition lib_init_with_page_size ::
    "(statics \<times> 'k) hw \<Rightarrow> 'k os \<Rightarrow> string \<Rightarrow> pagesize \<Rightarrow> ('k sys, memory_access nvme_device) comp" where
  "lib_init_with_page_size hw k addr p =
     mbind (mexpect (pci_open_resource_ro k addr ''vendor'')) (\<lambda>vendor_file.
     mbind (mexpect (pci_open_resource_ro k addr ''device'')) (\<lambda>device_file.
     mbind (mexpect (pci_open_resource_ro k addr ''config'')) (\<lambda>config_file.
     mbind (read_hex k vendor_file) (\<lambda>_.
     mbind (read_hex k device_file) (\<lambda>_.
     mbind (read_io32 k config_file 8) (\<lambda>v.
     let class_id = drop_bit 16 v
     in if class_id \<noteq> 0x0108 then merr (error_from_string (''device '' @ addr @ '' is not a block device''))
        else
          mbind (ma_init_with_page_size k addr p) (\<lambda>allocator.
          mbind (nvme_init hw (memory_access_ops k) addr allocator) (\<lambda>nvme.
          run_device nvme (identify_all hw)))))))))"

definition lib_init :: "(statics \<times> 'k) hw \<Rightarrow> 'k os \<Rightarrow> string \<Rightarrow> ('k sys, memory_access nvme_device) comp" where
  "lib_init hw k addr = lib_init_with_page_size hw k addr DEFAULT_PAGE_SIZE"

subsection \<open>What initialisation returns\<close>

lemma run_device_RetE:
  assumes "run_device dev m w = Some (Ret dev', w')"
  obtains x where "m (dev, w) = Some (Ret x, (dev', w'))"
proof (cases "m (dev, w)")
  case (Some y)
  obtain r d v where "y = (r, (d, v))" by (metis prod.exhaust)
  then show thesis using assms Some that by (cases r) (auto simp: run_device_def)
qed (use assms in \<open>simp add: run_device_def\<close>)

lemma vfio_init_page:
  assumes "vfio_init_with_args k addr p False w = Some (Ret v, w')"
  shows "vf_page_size v = p" "vf_pci_addr v = addr" "\<exists>c. iommu v = Legacy c"
proof -
  have "vf_page_size v = p \<and> vf_pci_addr v = addr \<and> (\<exists>c. iommu v = Legacy c)"
    using assms unfolding vfio_init_with_args_def Let_def
    by (auto elim!: mbind_RetE split: if_splits)
  then show "vf_page_size v = p" "vf_pci_addr v = addr" "\<exists>c. iommu v = Legacy c" by blast+
qed

lemma physical_init_page:
  assumes "physical_init_with_args k addr p w = Some (Ret m, w')"
  shows "m = \<lparr>ph_pci_addr = addr, ph_page_size = p\<rparr>" "p \<noteq> Page4K"
  using assms unfolding physical_init_with_args_def Let_def by (auto elim!: mbind_RetE split: if_splits)

lemma ma_init_page:
  assumes "ma_init_with_page_size k addr p w = Some (Ret mem, w')"
  shows "ma_page_size mem = p" "p = Page4K \<longrightarrow> os_exists k (resource_path addr ''iommu_group'') (snd (wdev w))"
proof -
  let ?vfio = "os_exists k (resource_path addr ''iommu_group'') (snd (wdev w))"
  have run: "(if ?vfio then mbind (vfio_init_with_args k addr p False) (\<lambda>v. mret (Vfio_Access v))
      else mbind (physical_init_with_args k addr p) (\<lambda>m. mret (Physical_Access m))) w = Some (Ret mem, w')"
    using assms by (simp add: ma_init_with_page_size_def vfio_is_enabled_def run_simps)
  have "ma_page_size mem = p \<and> (p = Page4K \<longrightarrow> ?vfio)"
  proof (cases ?vfio)
    case True
    then obtain v where "vfio_init_with_args k addr p False w = Some (Ret v, w')" "mem = Vfio_Access v"
      using run by (auto elim!: mbind_RetE)
    then show ?thesis using True vfio_init_page(1) by simp
  next
    case False
    then obtain m where "physical_init_with_args k addr p w = Some (Ret m, w')" "mem = Physical_Access m"
      using run by (auto elim!: mbind_RetE)
    then show ?thesis using physical_init_page by (metis ma_page_size.simps(1) physical.select_convs(2))
  qed
  then show "ma_page_size mem = p" "p = Page4K \<longrightarrow> ?vfio" by blast+
qed

lemma identify_all_keeps:
  assumes "guarded hw S dev0"
  shows "keeps (dev_inv dev0 S m0) (identify_all hw)"
  unfolding identify_all_def by (intro keeps_intros dev_keeps [OF assms])

lemma identify_namespaces_served:
  assumes "admin_service hw dev I" and "I cs (admin_sq dev) (admin_cq dev) w"
  shows "\<exists>dev' w' cs'. mfold (\<lambda>n _. mbind (identify_namespace hw n) (\<lambda>_. mret ())) ns () (dev, w) = Some (Ret (), (dev', w'))
    \<and> I (cs @ cs') (admin_sq dev') (admin_cq dev') w'"
  using assms
proof (induction ns arbitrary: dev w cs)
  case Nil
  then show ?case by (intro exI [of _ "[]"] exI [of _ dev] exI [of _ w]) simp
next
  case (Cons i ns)
  let ?cmd = "\<lambda>cid addr. cmd_identify_namespace cid addr i"
  let ?e = "?cmd (ucast (sq_tail (admin_sq dev))) (phys (buffer dev))"
  obtain c w1 where a: "submit_and_complete_admin hw ?cmd (dev, w) = Some (Ret c, (dev_admin ?e dev, w1))"
      "I (cs @ [?e]) (admin_sq (dev_admin ?e dev)) (admin_cq (dev_admin ?e dev)) w1"
    using admin_served [where cmd = ?cmd, OF Cons.prems refl] by blast
  obtain x dev1 where step: "identify_namespace hw i (dev, w) = Some (Ret x, (dev1, w1))" "doorbell dev1 = doorbell dev"
      "admin_sq dev1 = admin_sq (dev_admin ?e dev)" "admin_cq dev1 = admin_cq (dev_admin ?e dev)"
    by (simp add: identify_namespace_def run_simps mignore_def a(1) Let_def doorbell_def fun_eq_iff)
  have "admin_service hw dev1 I" "I (cs @ [?e]) (admin_sq dev1) (admin_cq dev1) w1" using Cons.prems(1) a(2) step by simp_all
  from Cons.IH [OF this] obtain dev' w' cs' where
      "mfold (\<lambda>n _. mbind (identify_namespace hw n) (\<lambda>_. mret ())) ns () (dev1, w1) = Some (Ret (), (dev', w'))"
      "I ((cs @ [?e]) @ cs') (admin_sq dev') (admin_cq dev') w'"
    by blast
  then show ?case using step(1)
    by (intro exI [of _ "?e # cs'"] exI [of _ dev'] exI [of _ w']) (simp add: mbind_Ret mbind_assoc del: mret_run)
qed

lemma identify_all_served:
  assumes "admin_service hw dev I" and "I cs (admin_sq dev) (admin_cq dev) w" and "72 \<le> dsize (buffer dev)"
  shows "\<exists>dev' w' cs'. identify_all hw (dev, w) = Some (Ret (), (dev', w')) \<and> I (cs @ cs') (admin_sq dev') (admin_cq dev') w'"
proof -
  let ?l = "\<lambda>cid addr. cmd_identify_namespace_list cid addr 0"
  define e1 where "e1 = cmd_identify_controller (ucast (sq_tail (admin_sq dev))) (phys (buffer dev))"
  obtain c w1 where 1: "submit_and_complete_admin hw cmd_identify_controller (dev, w) = Some (Ret c, (dev_admin e1 dev, w1))"
      "I (cs @ [e1]) (admin_sq (dev_admin e1 dev)) (admin_cq (dev_admin e1 dev)) w1"
    using admin_served [where cmd = cmd_identify_controller, OF assms(1,2) e1_def] by blast
  let ?d1 = "dev_admin e1 dev"
  define e2 where "e2 = ?l (ucast (sq_tail (admin_sq ?d1))) (phys (buffer ?d1))"
  have s1: "admin_service hw ?d1 I" using assms(1) by simp
  obtain c' w2 where 2: "submit_and_complete_admin hw ?l (?d1, w1) = Some (Ret c', (dev_admin e2 ?d1, w2))"
      "I ((cs @ [e1]) @ [e2]) (admin_sq (dev_admin e2 ?d1)) (admin_cq (dev_admin e2 ?d1)) w2"
    using admin_served [where cmd = ?l, OF s1 1(2) e2_def] by blast
  have b: "24 \<le> dsize (buffer dev)" "64 \<le> dsize (buffer dev)" using assms(3) by (auto intro: order_trans [rotated])
  have print: "\<exists>u. identify_controller_print hw (dev, w) = Some (Ret u, (?d1, w1))"
    using b assms(3) by (simp add: identify_controller_print_def identify_controller_def run_simps 1(1) buffer_string_run)
  obtain ns where list: "identify_namespace_list hw 0 (?d1, w1) = Some (Ret ns, (dev_admin e2 ?d1, w2))"
    by (simp add: identify_namespace_list_def run_simps mignore_def 2(1))
  have "admin_service hw (dev_admin e2 ?d1) I" using s1 by simp
  from identify_namespaces_served [OF this 2(2)] obtain dev' w' cs' where
      "mfold (\<lambda>n _. mbind (identify_namespace hw n) (\<lambda>_. mret ())) ns () (dev_admin e2 ?d1, w2) = Some (Ret (), (dev', w'))"
      "I (((cs @ [e1]) @ [e2]) @ cs') (admin_sq dev') (admin_cq dev') w'"
    by blast
  then show ?thesis
    using print list by (intro exI [of _ dev'] exI [of _ w'] exI [of _ "[e1, e2] @ cs'"]) (auto simp: identify_all_def mbind_Ret simp del: mret_run)
qed

lemma mexpect_RetE:
  assumes "mexpect m w = Some (Ret x, w')"
  obtains "m w = Some (Ret x, w')"
  using assms by (auto simp: mexpect_def split: option.splits outcome.splits)

lemma lib_init_RetE:
  assumes "lib_init_with_page_size hw k addr p w = Some (Ret dev, w')"
  obtains wa f wb vf n wc df n' wd v mem w2 w3 nvme w4 where "pci_open_resource_ro k addr ''config'' wa = Some (Ret f, wb)"
    "read_hex k vf wb = Some (Ret n, wc)" "read_hex k df wc = Some (Ret n', wd)"
    "read_io32 k f 8 wd = Some (Ret v, w2)" "drop_bit 16 v = 0x0108"
    "ma_init_with_page_size k addr p w2 = Some (Ret mem, w3)" "nvme_init hw (memory_access_ops k) addr mem w3 = Some (Ret nvme, w4)"
    "run_device nvme (identify_all hw) w4 = Some (Ret dev, w')"
  using assms unfolding lib_init_with_page_size_def Let_def
  by (auto elim!: mbind_RetE mexpect_RetE split: if_splits)

text \<open>
  What the driver relies on of the files the kernel presents for PCI devices, as a named assumption.
  \<open>H addr f ks\<close>: in state \<open>ks\<close>, \<open>f\<close> is a file opened on the configuration space of the device at \<open>addr\<close>;
  reading 32 bits of it after a seek gives the value \<open>cfg\<close> has at that offset. The directory of a device
  has an entry \<^verbatim>\<open>iommu_group\<close> if it is \<open>grouped\<close>, at any time.
\<close>

definition device_files :: "'k os \<Rightarrow> (string \<Rightarrow> fd \<Rightarrow> 'k \<Rightarrow> bool) \<Rightarrow> (string \<Rightarrow> u64 \<Rightarrow> u32) \<Rightarrow> (string \<Rightarrow> bool) \<Rightarrow> bool" where
  "device_files k H cfg grouped \<longleftrightarrow>
     (\<forall>addr m ks f ks'. os_open k (resource_path addr ''config'') m ks = (Inr f, ks') \<longrightarrow> H addr f ks')
   \<and> (\<forall>addr f ks g r ks'. H addr f ks \<longrightarrow> os_read_to_string k g ks = (r, ks') \<longrightarrow> H addr f ks')
   \<and> (\<forall>addr f ks off ks' v ks''. H addr f ks \<longrightarrow> os_seek k f off ks = (Inr (), ks') \<longrightarrow> bo_read_u32 k f ks' = (Inr v, ks'') \<longrightarrow> v = cfg addr off)
   \<and> (\<forall>addr ks. os_exists k (resource_path addr ''iommu_group'') ks = grouped addr)"

lemma kcall_io_RetE:
  assumes "kcall_io f w = Some (Ret x, w')"
  obtains "f (snd (wdev w)) = (Inr x, snd (wdev w'))"
  using assms by (auto simp: kcall_io_def kcall_def try_io_def mbind_run split: prod.splits sum.splits)

lemma config_dword:
  assumes "device_files k H cfg grouped" and "pci_open_resource_ro k addr ''config'' wa = Some (Ret f, wb)"
    and "read_hex k vf wb = Some (Ret n, wc)" and "read_hex k df wc = Some (Ret n', wd)" and "read_io32 k f off wd = Some (Ret v, w2)"
  shows "v = cfg addr off"
proof -
  let ?ks = "\<lambda>w :: 'a sys. snd (wdev w)"
  have hex: "\<exists>r. os_read_to_string k g (?ks w) = (r, ?ks w')" if "read_hex k g w = Some (Ret x, w')" for g w w' x
    using that unfolding read_hex_def by (auto elim!: mbind_RetE kcall_io_RetE split: sum.splits)
  have "H addr f (?ks wb)"
    using assms(2) unfolding pci_open_resource_ro_def
  proof (rule kcall_io_RetE)
    assume "os_open k (resource_path addr ''config'') \<lparr>mode_read = True, mode_write = False, mode_create = False\<rparr> (?ks wa) = (Inr f, ?ks wb)"
    then show ?thesis using assms(1) unfolding device_files_def by blast
  qed
  moreover have keep: "H addr f (?ks w')" if "read_hex k g w = Some (Ret x, w')" "H addr f (?ks w)" for g w w' x
    using hex [OF that(1)] that(2) assms(1) unfolding device_files_def by metis
  ultimately have "H addr f (?ks wd)" using assms(3,4) by blast
  moreover obtain we where "os_seek k f off (?ks wd) = (Inr (), ?ks we)" "bo_read_u32 k f (?ks we) = (Inr v, ?ks w2)"
    using assms(5) unfolding read_io32_def by (auto elim!: mbind_RetE kcall_io_RetE)
  ultimately show ?thesis using assms(1) unfolding device_files_def by blast
qed

subsection \<open>A concrete system\<close>

text \<open>
  A machine with one controller behind an IOMMU. Its kernel gives memory out from \<open>bt_next\<close> on,
  keeps one position for reading configuration space, and grants every request; the registers of the
  controller are mapped at 0x10000. Its controller notes the commands it is given at the admin doorbell,
  once per ring, and answers them with success.
\<close>

record boot =
  bt_cc :: u32
  bt_cmds :: "nvme_command list"
  bt_next :: usize
  bt_pos :: u64

definition boot_addr :: string where "boot_addr = ''0000:00:04.0''"

definition boot_ioctl :: "fd \<Rightarrow> u64 \<Rightarrow> ioctl_arg \<Rightarrow> boot \<Rightarrow> (i32 \<times> ioctl_arg) \<times> boot" where
  "boot_ioctl f op arg b =
     (if op = op_code VFIO_GROUP_GET_STATUS then
        ((0, Pointer (encode_gstat ((decode_gstat (arg_bytes arg))\<lparr>gstat_flags := 1\<rparr>))), b)
      else if op = op_code VFIO_DEVICE_GET_REGION_INFO then
        ((0, Pointer (encode_rinfo ((decode_rinfo (arg_bytes arg))\<lparr>rinfo_size := 0x4000\<rparr>))), b)
      else ((0, arg), b))"

definition boot_config :: "string \<Rightarrow> u64 \<Rightarrow> u32" where
  "boot_config addr off = (if off = 8 then 0x01080200 else 0x00100006)"

definition boot_os :: "boot os" where
  "boot_os = null_os
     \<lparr>os_exists := \<lambda>path _. path = resource_path boot_addr ''iommu_group'',
      os_read_to_string := \<lambda>_ b. (Inr (''0x144d'' @ [CHR 0x0A]), b),
      os_seek := \<lambda>_ off b. (Inr (), b\<lparr>bt_pos := off\<rparr>),
      bo_read_u32 := \<lambda>_ b. (Inr (boot_config boot_addr (bt_pos b)), b),
      c_ioctl := boot_ioctl,
      c_mmap := \<lambda>_ n _ f _ (m, b).
        if f = - 1 then (bt_next b, (m, b\<lparr>bt_next := bt_next b + n\<rparr>)) else (0x10000, (m, b))\<rparr>"

definition boot_sys :: "boot sys" where
  "boot_sys = \<lparr>wmem = (\<lambda>_. 0), wdev = (initial_statics, \<lparr>bt_cc = 0, bt_cmds = [], bt_next = 0x400000, bt_pos = 8\<rparr>)\<rparr>"

definition boot_vfio :: vfio where
  "boot_vfio = \<lparr>vf_pci_addr = boot_addr, device_fd = 0, vf_page_size = Page2M, iommu = Legacy 3\<rparr>"

definition boot_region :: "usize \<Rightarrow> dma" where
  "boot_region a = \<lparr>virt = a, phys = a, dsize = 0x200000\<rparr>"

definition boot_sq :: "usize \<Rightarrow> submission_queue" where
  "boot_sq a = \<lparr>sq_commands = boot_region a, sq_head = 0, sq_tail = 0, sq_len = 16384, sq_doorbell = 0\<rparr>"

definition boot_cq :: "usize \<Rightarrow> completion_queue" where
  "boot_cq a = \<lparr>cq_commands = boot_region a, cq_head = 0, cq_phase = True, cq_len = 16384, cq_doorbell = 0\<rparr>"

definition boot_dev :: "memory_access nvme_device" where
  "boot_dev = \<lparr>pci_addr = boot_addr, dev_addr = 0x10000, dev_len = 0x4000, dstrd = 0,
     admin_sq = boot_sq 0x800000, admin_cq = boot_cq 0xA00000, io_sq = boot_sq 0xC00000, io_cq = boot_cq 0xE00000,
     buffer = boot_region 0x400000, prp_list = boot_region 0x600000, namespaces = Map.empty,
     stats = \<lparr>completions = 0, submissions = 0\<rparr>, dev_q_id = 1, allocator = Vfio_Access boot_vfio\<rparr>"

definition boot_note :: "nvme_command \<Rightarrow> boot sys \<Rightarrow> boot sys" where
  "boot_note e w = w\<lparr>wdev := (fst (wdev w), (snd (wdev w))\<lparr>bt_cmds := bt_cmds (snd (wdev w)) @ [e]\<rparr>)\<rparr>"

definition boot_count :: "statics \<times> boot \<Rightarrow> nat" where
  "boot_count d = length (bt_cmds (snd d))"

definition boot_hw :: "(statics \<times> boot) hw" where
  "boot_hw = \<lparr>hw_tick = (\<lambda>w. w),
     hw_write32 = (\<lambda>a v w.
       if a = 0x10014 then w\<lparr>wdev := (fst (wdev w), (snd (wdev w))\<lparr>bt_cc := v\<rparr>)\<rparr>
       else if a = 0x11000 then ring_answer boot_note boot_count (boot_sq 0x800000) (boot_cq 0xA00000) w
       else w),
     hw_write64 = (\<lambda>a v w. w),
     hw_read32 = (\<lambda>a w. let cc = bt_cc (snd (wdev w))
                        in (if a = 0x10014 then cc else if a = 0x1001C then cc AND 1 else 0, w)),
     hw_read64 = (\<lambda>a w. (0, w)), hw_now = (\<lambda>w. (0, w))\<rparr>"

definition boot_registers :: "regs \<Rightarrow> boot sys \<Rightarrow> bool" where
  "boot_registers s w \<longleftrightarrow> r_cc s = bt_cc (snd (wdev w)) \<and> bt_cmds (snd (wdev w)) = []"

definition boot_service :: "(statics \<times> boot) service" where
  "boot_service cs sq cq w \<longleftrightarrow>
     ring_state boot_count (boot_sq 0x800000) (boot_cq 0xA00000) sq cq w \<and> bt_cmds (snd (wdev w)) = cs"

lemma boot_dev_simps [simp]:
  "dev_addr boot_dev = 0x10000" "dev_len boot_dev = 0x4000" "prp_list boot_dev = boot_region 0x600000"
  "buffer boot_dev = boot_region 0x400000" "admin_sq boot_dev = boot_sq 0x800000" "admin_cq boot_dev = boot_cq 0xA00000"
  "doorbell boot_dev SQyTDBL 0 = 0x11000" "doorbell boot_dev CQyHDBL 0 = 0x11004" "dsize (boot_region a) = 0x200000"
  by (simp_all add: boot_dev_def doorbell_def shl16_def boot_region_def)

lemma boot_register_file: "register_file boot_hw 0x10000 P boot_registers"
proof -
  have "((x :: u32) AND 1 = 1) = bit x 0" for x by (simp add: bit_0 and_one_eq odd_iff_mod_2_eq_one)
  moreover have "poll_world boot_hw a 0 w = w" for a w by (simp add: poll_world_def)
  ultimately show ?thesis
    unfolding register_file_def boot_registers_def
    by (intro allI impI conjI exI [of _ 0]) (simp_all add: boot_hw_def Let_def and.assoc)
qed

lemma boot_starts: "starts boot_registers (boot_sq 0x800000) (boot_cq 0xA00000) (\<lambda>_. boot_service)"
  by (simp add: starts_def boot_registers_def boot_service_def ring_state_def boot_count_def boot_sq_def boot_cq_def
      sq_inv_def cq_consumed_def cq_inv_def phase_of_def)

lemma boot_serves: "serves boot_hw 0x11000 0x11004 (\<lambda>c q. q) boot_service"
  unfolding boot_service_def
  by (rule ring_serves [where exec = boot_note]) (simp_all add: boot_hw_def boot_note_def boot_count_def)

lemmas boot_serves_first = boot_serves [THEN serves_serves_first, of 4096]

lemma boot_allocate:
  assumes "wdev w = (st, b)" and "iova_width st = 47" and "bt_next b \<noteq> - 1" and "n \<in> {BUFFER_SIZE, PRP_LIST_SIZE, 64 * 16384, 16 * 16384}"
  shows "vf_allocate boot_os boot_vfio n w
    = Some (Ret (boot_region (bt_next b)), w\<lparr>wdev := (st, b\<lparr>bt_next := bt_next b + 0x200000\<rparr>)\<rparr>)"
proof -
  have up: "shift_up Page2M n = 0x200000"
    using assms(4) by (elim insertE emptyE) (simp_all add: shift_up_def push_bit_eq_mult drop_bit_eq_div BUFFER_SIZE_def PRP_LIST_SIZE_def)
  show ?thesis
    using assms(1-3) by (simp add: vf_allocate_def boot_vfio_def up allocate_2mib_def map_dma_def ioctl_def run_simps call_defs
        X86_VA_WIDTH_def boot_os_def boot_ioctl_def op_code_values boot_region_def)
qed

lemma boot_build:
  assumes "wdev w = (st, \<lparr>bt_cc = 0, bt_cmds = [], bt_next = 0x400000, bt_pos = 8\<rparr>)" and "iova_width st = 47"
  shows "build_device boot_hw (memory_access_ops boot_os) boot_addr (Vfio_Access boot_vfio) w
    = Some (Ret boot_dev, w\<lparr>wdev := (st, \<lparr>bt_cc = 0, bt_cmds = [], bt_next = 0x1000000, bt_pos = 8\<rparr>)\<rparr>)"
proof -
  have map: "vf_map_resource boot_os boot_vfio w = Some (Ret (0x10000, 0x4000), w)"
    using assms by (simp add: vf_map_resource_def map_resource_index_def get_region_info_def boot_vfio_def
        ioctl_def run_simps call_defs boot_os_def boot_ioctl_def op_code_values Let_def)
  show ?thesis
    using assms by (simp add: build_device_def memory_access_ops_def map mbind_Ret
        boot_allocate sq_new_def cq_new_def boot_hw_def boot_dev_def boot_sq_def boot_cq_def)
qed

lemma boot_calls:
  "ioctl boot_os f op arg w = Some (Ret (0, arg_bytes (snd (fst (boot_ioctl f (op_code op) arg (snd (wdev w)))))), w)"
  "open_rw boot_os path w = Some (Ret 3, w)" "pci_open_resource_ro boot_os addr res w = Some (Ret 3, w)"
  "pread_unsafe boot_os f (le_bytes 2 (v :: u16)) off w = Some (Ret (le_bytes 2 v), w)"
  "pwrite_unsafe boot_os f (le_bytes 2 (v :: u16)) off w = Some (Ret (), w)"
  by (simp_all add: ioctl_def open_rw_def pci_open_resource_ro_def call_defs run_simps boot_os_def null_os_def boot_ioctl_def)

lemma boot_enable_dma: "vf_enable_dma boot_os v w = Some (Ret (), w)"
  by (simp add: vf_enable_dma_def get_region_info_def mbind_Ret boot_calls Let_def)

lemma boot_open_group:
  assumes "vfio_group_fds (fst (wdev w)) grp = None"
  shows "open_group boot_os grp c w
    = Some (Ret 3, w\<lparr>wdev := ((fst (wdev w))\<lparr>vfio_group_fds := (vfio_group_fds (fst (wdev w)))(grp \<mapsto> 3)\<rparr>, snd (wdev w))\<rparr>)"
  using assms by (simp add: open_group_def mbind_run static_run map_err_def boot_calls boot_ioctl_def op_code_values VFIO_GROUP_FLAGS_VIABLE_def)

lemma boot_vfio_init:
  "\<exists>st. vfio_init_with_args boot_os boot_addr Page2M False boot_sys
     = Some (Ret boot_vfio, boot_sys\<lparr>wdev := (st, snd (wdev boot_sys))\<rparr>) \<and> iova_width st = 47"
proof -
  have grp: "path_file_name ''../1'' = Some ''1''" "parse_i32 ''1'' = Some 1" by code_simp+
  have "check_intel_iommu boot_os boot_addr boot_sys = Some (Ret (), boot_sys)"
    by (simp add: check_intel_iommu_def is_intel_iommu_def mbind_run kquery_run boot_os_def resource_path_def)
  moreover have "os_read_link boot_os p b = Inr ''../1''" for p b by (simp add: boot_os_def null_os_def)
  moreover have "vfio_group_fds (fst (wdev boot_sys)) 1 = None" "iova_width (fst (wdev boot_sys)) = 47"
    by (simp_all add: boot_sys_def initial_statics_def)
  ultimately show ?thesis
    by (intro exI [of _ "(fst (wdev boot_sys))\<lparr>vfio_group_fds := (vfio_group_fds (fst (wdev boot_sys)))(1 \<mapsto> 3)\<rparr>"])
      (simp add: vfio_init_with_args_def mbind_Ret kquery_run try_io_run mexpect_def map_err_def unwrap_option_def
        boot_calls boot_open_group boot_enable_dma boot_ioctl_def op_code_values VFIO_API_VERSION_def grp boot_vfio_def Let_def)
qed

text \<open>
  C38. Initialising the controller, with memory from the operating system. If the memory and the
  registers could be mapped, the registers behave as registers and the controller serves the admin
  queues once it has been enabled with the right configuration, the call returns: the registers have
  been given the addresses of the admin queues, sizes that the controller, which reads 12 bits of
  either, takes for 4096 entries, entry sizes of 64 and 16 bytes, pages of 4 KiB, and the enable bit;
  then the controller, which need only serve its first 4096 commands, has been given exactly the two
  commands that create the driver's I/O queues. The device is well-formed, over whole pages of the allocator, with its
  next queue number at 2.
\<close>

theorem memory_access_init_ready:
  assumes "build_device hw (memory_access_ops k) addr mem w = Some (Ret dev, w0)" and "0x1000 \<le> dev_len dev"
    and "register_file hw (dev_addr dev) (region (prp_list dev)) R" and "R s w0"
    and "starts R (admin_sq dev) (admin_cq dev) I"
    and "serves_first 4096 hw (doorbell dev SQyTDBL 0) (doorbell dev CQyHDBL 0) (\<lambda>c q. q) (I 4096)"
  shows "\<exists>dev' w'. nvme_init hw (memory_access_ops k) addr mem w = Some (Ret dev', w')
    \<and> dev_ok dev' \<and> whole_pages (ma_page_size mem) dev' \<and> dev_q_id dev' = 2 \<and> same_layout dev dev'
    \<and> I 4096 (create_queue_commands dev) (admin_sq dev') (admin_cq dev') w'"
proof -
  have ops: "op_allocate (memory_access_ops k) = ma_allocate k" by (simp add: memory_access_ops_def)
  have "4096 \<le> unat (dsize (prp_list dev))" using ma.build_device_ok [OF ops assms(1)] by (simp add: dev_ok_def)
  from nvme_init_boots [OF assms(1,2) this assms(3-6)] obtain dev' w' where
      "nvme_init hw (memory_access_ops k) addr mem w = Some (Ret dev', w')" "dev_q_id dev' = 2" "same_layout dev dev'"
      "I 4096 (create_queue_commands dev) (admin_sq dev') (admin_cq dev') w'"
    by blast
  then show ?thesis using ma.nvme_init_ok [OF ops] by blast
qed

theorem memory_access_init_ready_witness:
  "\<exists>dev' w'. nvme_init boot_hw (memory_access_ops boot_os) boot_addr (Vfio_Access boot_vfio) boot_sys = Some (Ret dev', w')
    \<and> dev_ok dev' \<and> dev_q_id dev' = 2 \<and> bt_cmds (snd (wdev w')) = create_queue_commands boot_dev"
proof -
  let ?w0 = "boot_sys\<lparr>wdev := (initial_statics, \<lparr>bt_cc = 0, bt_cmds = [], bt_next = 0x1000000, bt_pos = 8\<rparr>)\<rparr>"
  have b: "build_device boot_hw (memory_access_ops boot_os) boot_addr (Vfio_Access boot_vfio) boot_sys = Some (Ret boot_dev, ?w0)"
    by (rule boot_build) (simp_all add: boot_sys_def initial_statics_def)
  have "boot_registers \<lparr>r_cc = 0, r_aqa = 0, r_asq = 0, r_acq = 0\<rparr> ?w0" by (simp add: boot_registers_def)
  from memory_access_init_ready [where R = boot_registers and I = "\<lambda>_. boot_service", OF b _ _ this]
  obtain dev' w' where "nvme_init boot_hw (memory_access_ops boot_os) boot_addr (Vfio_Access boot_vfio) boot_sys = Some (Ret dev', w')"
      "dev_ok dev'" "dev_q_id dev' = 2" "boot_service (create_queue_commands boot_dev) (admin_sq dev') (admin_cq dev') w'"
    using boot_register_file boot_starts boot_serves_first by auto
  then show ?thesis by (auto simp: boot_service_def)
qed

text \<open>
  C39. Opening a device. Whenever the library returns a device, whatever kernel and controller do, the
  device is the one at the given address, it is well-formed, its six regions are whole pages of the size
  asked for, and it stays well-formed, with its regions in place, through every sequence of later
  operations. With a kernel that presents the files of PCI devices, the configuration space of the
  device at that address has class 0x0108 (mass storage, NVMe), and if pages of 4 KiB were asked for the
  device is in an IOMMU group.
\<close>

theorem init_returns_device:
  assumes "lib_init_with_page_size hw k addr p w = Some (Ret dev, w')"
  shows "dev_ok dev \<and> whole_pages p dev \<and> pci_addr dev = addr
    \<and> (\<forall>dev' w''. dev_reaches hw (memory_access_ops k) (dev, w') (dev', w'') \<longrightarrow>
         dev_ok dev' \<and> same_layout dev dev')
    \<and> (\<forall>H cfg grouped. device_files k H cfg grouped \<longrightarrow>
         drop_bit 16 (cfg addr 8) = 0x0108 \<and> (p = Page4K \<longrightarrow> grouped addr))"
proof -
  obtain wa f wb vf n wc df n' wd v mem w2 w3 nvme w4 where c: "pci_open_resource_ro k addr ''config'' wa = Some (Ret f, wb)"
      "read_hex k vf wb = Some (Ret n, wc)" "read_hex k df wc = Some (Ret n', wd)" "read_io32 k f 8 wd = Some (Ret v, w2)"
      and i: "read_io32 k f 8 wd = Some (Ret v, w2)" "drop_bit 16 v = 0x0108"
      "ma_init_with_page_size k addr p w2 = Some (Ret mem, w3)" "nvme_init hw (memory_access_ops k) addr mem w3 = Some (Ret nvme, w4)"
      "run_device nvme (identify_all hw) w4 = Some (Ret dev, w')"
    using assms by (rule lib_init_RetE)
  have ops: "op_allocate (memory_access_ops k) = ma_allocate k" by (simp add: memory_access_ops_def)
  note ok = ma.nvme_init_ok [OF ops i(4)]
  have g: "guarded hw UNIV d" for d :: "memory_access nvme_device" by (simp add: guarded_def)
  obtain x where x: "identify_all hw (nvme, w4) = Some (Ret x, (dev, w'))" using i(5) by (rule run_device_RetE)
  have "dev_inv nvme UNIV (wmem w4) (nvme, w4)" using ok by (simp add: dev_inv_def same_layout_def mem_frame_def)
  then have "dev_inv nvme UNIV (wmem w4) (dev, w')" using keepsD [OF identify_all_keeps [OF g] x] by blast
  then have dev: "dev_ok dev" "same_layout nvme dev" by (simp_all add: dev_inv_def)
  have "drop_bit 16 (cfg addr 8) = 0x0108 \<and> (p = Page4K \<longrightarrow> grouped addr)" if "device_files k H cfg grouped" for H cfg grouped
    using config_dword [OF that c] i(2) ma_init_page(2) [OF i(3)] that unfolding device_files_def by blast
  moreover have "dev_ok dev' \<and> same_layout dev dev'"
    if "dev_reaches hw (memory_access_ops k) (dev, w') (dev', w'')" for dev' w''
  proof -
    have "confined_ops (memory_access_ops k) UNIV" by (simp add: confined_ops_def keeps_def mem_frame_def)
    moreover have "dev_inv dev UNIV (wmem w') (dev, w')" using dev(1) by (simp add: dev_inv_def same_layout_def mem_frame_def)
    ultimately have "dev_inv dev UNIV (wmem w') (dev', w'')" using dev_reaches_inv [OF g _ that] by blast
    then show ?thesis by (simp add: dev_inv_def)
  qed
  moreover have "whole_pages p dev" using ok whole_pages_layout [OF dev(2)] ma_init_page(1) [OF i(3)] by simp
  moreover have "pci_addr dev = addr" using dev(2) ok by (simp add: same_layout_def)
  ultimately show ?thesis using dev(1) by blast
qed

lemma boot_files:
  "read_hex boot_os f w = Some (Ret 0x144D, w)" "read_io32 boot_os f 8 boot_sys = Some (Ret 0x01080200, boot_sys)"
proof -
  have "from_str_radix_16 (trim_start_0x (trim (''0x144d'' @ [CHR 0x0A]))) = Inr 0x144D"
    by (simp add: from_str_radix_16_def trim_line is_whitespace_def hex_digit_def Let_def del: append_Cons)
  moreover have "os_read_to_string boot_os f b = (Inr (''0x144d'' @ [CHR 0x0A]), b)" for b by (simp add: boot_os_def)
  ultimately show "read_hex boot_os f w = Some (Ret 0x144D, w)" by (simp add: read_hex_def mbind_run kcall_io_run)
  show "read_io32 boot_os f 8 boot_sys = Some (Ret 0x01080200, boot_sys)"
    by (simp add: read_io32_def mbind_run kcall_io_run boot_os_def null_os_def boot_sys_def boot_config_def)
qed

lemma boot_lib_init:
  "\<exists>dev w'. lib_init boot_hw boot_os boot_addr boot_sys = Some (Ret dev, w')"
proof -
  obtain st where v: "vfio_init_with_args boot_os boot_addr Page2M False boot_sys
      = Some (Ret boot_vfio, boot_sys\<lparr>wdev := (st, snd (wdev boot_sys))\<rparr>)" "iova_width st = 47"
    using boot_vfio_init by blast
  let ?w = "boot_sys\<lparr>wdev := (st, snd (wdev boot_sys))\<rparr>"
  have mem: "ma_init_with_page_size boot_os boot_addr Page2M boot_sys = Some (Ret (Vfio_Access boot_vfio), ?w)"
    by (simp add: ma_init_with_page_size_def vfio_is_enabled_def mbind_Ret kquery_run v(1)) (simp add: boot_os_def mbind_Ret v(1))
  let ?v = "?w\<lparr>wdev := (st, \<lparr>bt_cc = 0, bt_cmds = [], bt_next = 0x1000000, bt_pos = 8\<rparr>)\<rparr>"
  have b: "build_device boot_hw (memory_access_ops boot_os) boot_addr (Vfio_Access boot_vfio) ?w = Some (Ret boot_dev, ?v)"
    by (rule boot_build [OF _ v(2)]) (simp add: boot_sys_def)
  have "boot_registers \<lparr>r_cc = 0, r_aqa = 0, r_asq = 0, r_acq = 0\<rparr> ?v" by (simp add: boot_registers_def)
  from nvme_init_boots [where R = boot_registers and I = "\<lambda>_. boot_service", OF b _ _ _ this]
  obtain dev w1 where n: "nvme_init boot_hw (memory_access_ops boot_os) boot_addr (Vfio_Access boot_vfio) ?w = Some (Ret dev, w1)"
      "same_layout boot_dev dev" "boot_service (create_queue_commands boot_dev) (admin_sq dev) (admin_cq dev) w1"
    using boot_register_file boot_starts boot_serves_first by auto
  have "doorbell dev = doorbell boot_dev" "buffer dev = buffer boot_dev"
    using n(2) by (simp_all add: same_layout_def doorbell_def fun_eq_iff)
  then obtain dev' w2 where "identify_all boot_hw (dev, w1) = Some (Ret (), (dev', w2))"
    using identify_all_served [where I = boot_service, OF _ n(3), of boot_hw] boot_serves by auto
  then have "run_device dev (identify_all boot_hw) w1 = Some (Ret dev', w2)" by (simp add: run_device_def)
  with n(1) mem show ?thesis
    by (auto simp: boot_files lib_init_def lib_init_with_page_size_def DEFAULT_PAGE_SIZE_def mexpect_def boot_calls
        mbind_Ret drop_bit_eq_div)
qed

lemma boot_device_files:
  "device_files boot_os (\<lambda>_ _ _. True) boot_config
     (\<lambda>addr. resource_path addr ''iommu_group'' = resource_path boot_addr ''iommu_group'')"
  by (auto simp: device_files_def boot_os_def null_os_def boot_config_def)

theorem init_returns_device_witness:
  "\<exists>dev w'. lib_init boot_hw boot_os boot_addr boot_sys = Some (Ret dev, w') \<and> dev_ok dev \<and> whole_pages Page2M dev
    \<and> drop_bit 16 (boot_config boot_addr 8) = 0x0108"
proof -
  obtain dev w' where r: "lib_init boot_hw boot_os boot_addr boot_sys = Some (Ret dev, w')" using boot_lib_init by blast
  note ok = init_returns_device [OF r [unfolded lib_init_def DEFAULT_PAGE_SIZE_def]]
  then have "drop_bit 16 (boot_config boot_addr 8) = 0x0108" using boot_device_files by blast
  with r ok show ?thesis by blast
qed

end
