(* ===== verification/Storage.thy ===== *)
theory Storage
  imports Device_Io Sync_Ring Device_Inv
begin

text \<open>
  Data on the disk. \<open>exec_io\<close> is what the NVMe specification says a read or write command of at
  most two pages does to the contents of a namespace and to memory, and \<open>stores\<close> the assumption that
  a controller carries such commands out. The driver's transfers (\<^verbatim>\<open>NvmeDevice::write\<close> and
  \<^verbatim>\<open>NvmeDevice::read\<close> in \<^verbatim>\<open>src/src/nvme.rs\<close>) then move whole regions: what was written is read back.
\<close>

unbundle bit_operations_syntax

text \<open>The contents of namespace 1, byte by byte.\<close>

type_synonym disk = "nat \<Rightarrow> u8"

definition disk_read :: "disk \<Rightarrow> nat \<Rightarrow> nat \<Rightarrow> u8 list" where
  "disk_read D at n = map (\<lambda>i. D (at + i)) [0..<n]"

definition disk_write :: "disk \<Rightarrow> nat \<Rightarrow> u8 list \<Rightarrow> disk" where
  "disk_write D at bs = (\<lambda>b. if at \<le> b \<and> b < at + length bs then bs ! (b - at) else D b)"

subsection \<open>What a command does\<close>

text \<open>
  The device address of byte \<open>i\<close> of the data of a command: the first pointer leads to the first
  page, the second to the second page.
\<close>

definition prp_byte :: "nvme_command \<Rightarrow> nat \<Rightarrow> u64" where
  "prp_byte e i = (if i < 4096 then fst (d_ptr e) + of_nat i else snd (d_ptr e) + of_nat (i - 4096))"

definition io_start :: "nvme_command \<Rightarrow> nat" where "io_start e = 512 * unat (io_lba e)"
definition io_bytes :: "nvme_command \<Rightarrow> nat" where "io_bytes e = 512 * io_blocks e"

text \<open>\<open>tr\<close> takes a device address to the memory behind it.\<close>

definition exec_io :: "(u64 \<Rightarrow> usize) \<Rightarrow> nvme_command \<Rightarrow> disk \<times> memory \<Rightarrow> disk \<times> memory" where
  "exec_io tr e = (\<lambda>(D, m).
     if opcode e = 1
     then (disk_write D (io_start e) (map (\<lambda>i. m (tr (prp_byte e i))) [0..<io_bytes e]), m)
     else (D, fold (\<lambda>i m. m(tr (prp_byte e i) := D (io_start e + i))) [0..<io_bytes e] m))"

text \<open>
  A read or write of at most two pages on namespace 1, with a page-aligned first pointer and its
  data outside \<open>S\<close>, the memory of the rings.
\<close>

definition plain_io :: "(u64 \<Rightarrow> usize) \<Rightarrow> usize set \<Rightarrow> nvme_command \<Rightarrow> bool" where
  "plain_io tr S e \<longleftrightarrow> opcode e \<in> {1, 2} \<and> ns_id e = 1 \<and> unat (fst (d_ptr e)) mod 4096 = 0 \<and> io_blocks e \<le> 16
     \<and> (\<forall>i < io_bytes e. tr (prp_byte e i) \<notin> S)"

definition stores ::
    "'d hw \<Rightarrow> usize \<Rightarrow> usize \<Rightarrow> (u64 \<Rightarrow> usize) \<Rightarrow> usize set \<Rightarrow> ('d \<Rightarrow> disk)
      \<Rightarrow> (submission_queue \<Rightarrow> completion_queue \<Rightarrow> 'd world \<Rightarrow> bool) \<Rightarrow> bool" where
  "stores hw sqdb cqdb tr S disk J \<longleftrightarrow>
     (\<forall>sq cq w m. J sq cq w \<longrightarrow> (\<forall>x\<in>S. m x = wmem w x) \<longrightarrow> J sq cq (w\<lparr>wmem := m\<rparr>))
   \<and> (\<forall>sq cq w e. J sq cq w \<longrightarrow> plain_io tr S e \<longrightarrow> sq_inv sq \<and> cq_inv cq
        \<and> (\<exists>c T. answered hw cq (sq_rung hw sqdb e sq w) c T \<and> status_code c = 0
             \<and> (let w' = cq_rung hw cqdb cq T (sq_rung hw sqdb e sq w);
                    (D, m) = exec_io tr e (disk (wdev w), wmem w)
                in J (take_head c (sq_after e sq)) (cq_after cq) w' \<and> disk (wdev w') = D
                 \<and> (\<forall>x. x \<notin> S \<longrightarrow> wmem w' x = m x))))"

text \<open>A region the controller reaches, away from the rings.\<close>

definition dma_mapped :: "(u64 \<Rightarrow> usize) \<Rightarrow> usize set \<Rightarrow> dma \<Rightarrow> bool" where
  "dma_mapped tr S d \<longleftrightarrow> unat (phys d) mod 4096 = 0 \<and> region d \<inter> S = {}
     \<and> (\<forall>i < unat (dsize d). tr (phys d + of_nat i) = virt d + of_nat i)"

subsection \<open>Bytes\<close>

lemma length_disk_read [simp]: "length (disk_read D at n) = n"
  by (simp add: disk_read_def)

lemma disk_read_write [simp]: "n = length bs \<Longrightarrow> disk_read (disk_write D at bs) at n = bs"
  by (auto simp: disk_read_def disk_write_def intro!: nth_equalityI)

lemma disk_write_append: "disk_write (disk_write D at bs) (at + length bs) bs' = disk_write D at (bs @ bs')"
  by (auto simp: disk_write_def nth_append fun_eq_iff)

lemma disk_read_add: "disk_read D at (n + k) = disk_read D at n @ disk_read D (at + n) k"
  by (rule nth_equalityI) (auto simp: disk_read_def nth_append)

lemma disk_write_nil [simp]: "disk_write D at [] = D"
  by (auto simp: disk_write_def fun_eq_iff)

lemma mem_read_add: "mem_read m a (n + k) = mem_read m a n @ mem_read m (a + of_nat n) k"
  by (rule nth_equalityI) (auto simp: mem_read_def nth_append algebra_simps)

lemma mem_write_snoc:
  assumes "length bs < 2 ^ 64"
  shows "mem_write m a (bs @ [b]) = (mem_write m a bs)(a + of_nat (length bs) := b)"
proof
  fix x
  have "x = a + of_nat (length bs) \<longleftrightarrow> unat (x - a) = length bs"
  proof
    assume "unat (x - a) = length bs"
    then have "x - a = of_nat (length bs)" by (metis word_of_unat)
    then show "x = a + of_nat (length bs)" by (simp add: algebra_simps)
  qed (use assms in \<open>simp add: unat_of_nat\<close>)
  then show "mem_write m a (bs @ [b]) x = ((mem_write m a bs)(a + of_nat (length bs) := b)) x"
    by (auto simp: mem_write_def nth_append)
qed

lemma mem_write_append:
  assumes "length bs + length bs' \<le> 2 ^ 64"
  shows "mem_write (mem_write m a bs) (a + of_nat (length bs)) bs' = mem_write m a (bs @ bs')"
  using assms
proof (induction bs' rule: rev_induct)
  case (snoc b bs')
  then have "length bs' < 2 ^ 64" "length (bs @ bs') < 2 ^ 64" by simp_all
  then show ?case using snoc mem_write_snoc [of "bs @ bs'" m a b] by (simp add: mem_write_snoc add.assoc)
qed (simp add: mem_write_def fun_eq_iff)

lemma fold_store_bytes:
  assumes "n \<le> 2 ^ 64"
  shows "fold (\<lambda>i m. m(a + of_nat i := f i)) [0..<n] m = mem_write m a (map f [0..<n])"
  using assms
proof (induction n)
  case (Suc n)
  then show ?case using mem_write_snoc [of "map f [0..<n]" m a "f n"] by (simp del: fun_upd_apply)
qed (simp add: mem_write_def)

subsection \<open>One chunk\<close>

lemma chunk_data:
  assumes "covers_chunk write d lba i e" and "8192 * i < unat (dsize d)" and "512 dvd unat (dsize d)"
    and "unat lba + unat (dsize d) div 512 \<le> 2 ^ 64" and "dma_mapped tr S d"
  shows "io_bytes e = min 8192 (unat (dsize d) - 8192 * i)" "io_start e = 512 * unat lba + 8192 * i"
    "\<And>j. j < io_bytes e \<Longrightarrow> tr (prp_byte e j) = virt d + of_nat (8192 * i + j)"
    "plain_io tr S e" "opcode e = (if write then 1 else 2)"
proof -
  let ?N = "unat (dsize d)" and ?a = "phys d + of_nat (8192 * i)"
  let ?b = "min 8192 (?N - 8192 * i)"
  have c: "opcode e = (if write then 1 else 2)" "ns_id e = 1" "io_lba e = lba + of_nat (16 * i)"
      "io_blocks e = (?b + 511) div 512" "d_ptr e = (?a, if ?b \<le> 4096 then 0 else ?a + 4096)"
    using assms(1) unfolding covers_chunk_def Let_def by blast+
  show "opcode e = (if write then 1 else 2)" by (rule c(1))
  have "512 dvd ?b" using assms(3) by (auto simp: min_def intro: dvd_diff_nat)
  then obtain k where k: "?b = 512 * k" by blast
  show n: "io_bytes e = ?b" by (simp only: io_bytes_def c(4) k) simp
  have blocks: "16 * i < ?N div 512" using assms(2,3) by (auto elim!: dvdE)
  then have "unat lba + 16 * i < 2 ^ 64" using assms(4) by linarith
  moreover from this have "unat (of_nat (16 * i) :: u64) = 16 * i" by (intro unat_of_nat_u64) simp
  ultimately have "unat (io_lba e) = unat lba + 16 * i" unfolding c(3) by (subst unat_add_no_wrap) simp_all
  then show "io_start e = 512 * unat lba + 8192 * i" by (simp add: io_start_def)
  have in_d: "8192 * i + j < ?N" if "j < io_bytes e" for j using that unfolding n by linarith
  have at: "tr (prp_byte e j) = virt d + of_nat (8192 * i + j)" if "j < io_bytes e" for j
  proof -
    have "prp_byte e j = phys d + of_nat (8192 * i + j)"
      using that n by (auto simp: prp_byte_def c(5) of_nat_diff)
    then show ?thesis using assms(5) in_d [OF that] by (simp only: dma_mapped_def)
  qed
  then show "j < io_bytes e \<Longrightarrow> tr (prp_byte e j) = virt d + of_nat (8192 * i + j)" for j .
  have "tr (prp_byte e j) \<notin> S" if "j < io_bytes e" for j
  proof -
    note less = in_d [OF that]
    have "unat (of_nat (8192 * i + j) :: usize) = 8192 * i + j"
      using less unat_less_2p64 [of "dsize d"] by (intro unat_of_nat_u64) (simp del: unat_less_2p64)
    then have "virt d + of_nat (8192 * i + j) \<in> region d" using less by (simp add: region_def addr_range_def)
    then show ?thesis using assms(5) at [OF that] by (auto simp: dma_mapped_def)
  qed
  moreover have "unat ?a mod 4096 = 0"
  proof -
    have "(2 ^ 64 :: nat) = 4096 * 2 ^ 52" by simp
    then have "(x mod 2 ^ 64) mod 4096 = x mod (4096 :: nat)" for x by (simp only: mod_mult2_eq) simp
    moreover have "8192 * i < 2 ^ 64" using assms(2) unat_less_2p64 [of "dsize d"] by (simp del: unat_less_2p64)
    then have "unat (of_nat (8192 * i) :: usize) = 8192 * i" by (intro unat_of_nat_u64) simp
    then have "unat ?a = (unat (phys d) + 8192 * i) mod 2 ^ 64" by (simp only: unat_word_ariths) simp
    moreover have "(unat (phys d) + 8192 * i) mod 4096 = 0"
      using assms(5) by (simp add: dma_mapped_def mod_add_eq [symmetric])
    ultimately show ?thesis by presburger
  qed
  moreover have "io_blocks e \<le> 16" using n by (simp add: io_bytes_def)
  ultimately show "plain_io tr S e" using c by (simp add: plain_io_def)
qed

lemma exec_chunk:
  assumes "covers_chunk write d lba i e" and "8192 * i < unat (dsize d)" and "512 dvd unat (dsize d)"
    and "unat lba + unat (dsize d) div 512 \<le> 2 ^ 64" and "dma_mapped tr S d"
    and "n = min 8192 (unat (dsize d) - 8192 * i)" and "at = 512 * unat lba + 8192 * i" and "a = virt d + of_nat (8192 * i)"
  shows "exec_io tr e (D, m) =
    (if write then (disk_write D at (mem_read m a n), m) else (D, mem_write m a (disk_read D at n)))"
proof -
  note c = chunk_data [OF assms(1-5)]
  have n: "io_bytes e = n" "io_start e = at" using c(1,2) assms(6,7) by simp_all
  have tr: "tr (prp_byte e j) = a + of_nat j" if "j < n" for j using c(3) that by (simp add: n assms(8) add.assoc)
  have "map (\<lambda>j. m (tr (prp_byte e j))) [0..<n] = mem_read m a n" by (simp add: mem_read_def tr)
  moreover have "fold (\<lambda>j m. m(tr (prp_byte e j) := D (at + j))) [0..<n] m = mem_write m a (disk_read D at n)"
  proof -
    have "fold (\<lambda>j m. m(tr (prp_byte e j) := D (at + j))) [0..<n] m = fold (\<lambda>j m. m(a + of_nat j := D (at + j))) [0..<n] m"
      by (rule fold_cong) (simp_all add: tr)
    moreover have "n \<le> 2 ^ 64" using assms(6) by simp
    ultimately show ?thesis by (simp only: fold_store_bytes disk_read_def)
  qed
  ultimately show ?thesis using c(5) by (simp add: exec_io_def n)
qed

subsection \<open>Whole regions\<close>

text \<open>What the first \<open>B\<close> bytes of a transfer have done.\<close>

definition moved :: "bool \<Rightarrow> usize set \<Rightarrow> ('d \<Rightarrow> disk) \<Rightarrow> dma \<Rightarrow> nat \<Rightarrow> nat \<Rightarrow> 'd world \<Rightarrow> 'd world \<Rightarrow> bool" where
  "moved write S disk d at B w w' \<longleftrightarrow>
     disk (wdev w') = (if write then disk_write (disk (wdev w)) at (mem_read (wmem w) (virt d) B) else disk (wdev w))
   \<and> (\<forall>x. x \<notin> S \<longrightarrow> wmem w' x = (if write then wmem w x else mem_write (wmem w) (virt d) (disk_read (disk (wdev w)) at B) x))"

lemma moved_step:
  assumes "moved write S disk d L (8192 * i) w w1" and "8192 * i < unat (dsize d)" and "region d \<inter> S = {}"
    and n: "n = min 8192 (unat (dsize d) - 8192 * i)" and "at = L + 8192 * i" and a: "a = virt d + of_nat (8192 * i)"
    and w2: "disk (wdev w2) = (if write then disk_write (disk (wdev w1)) at (mem_read (wmem w1) a n) else disk (wdev w1))"
      "\<And>x. x \<notin> S \<Longrightarrow> wmem w2 x = (if write then wmem w1 x else mem_write (wmem w1) a (disk_read (disk (wdev w1)) at n) x)"
  shows "moved write S disk d L (8192 * i + n) w w2"
proof -
  let ?D = "disk (wdev w)" and ?m = "wmem w"
  have le: "8192 * i + n \<le> unat (dsize d)" using assms(2) n by simp
  then have big: "8192 * i + n \<le> 2 ^ 64" using unat_less_2p64 [of "dsize d"] by (simp del: unat_less_2p64)
  show ?thesis
  proof (cases "write")
    case True
    have "mem_read (wmem w1) a n = mem_read ?m a n"
    proof (rule mem_read_cong)
      fix j assume "j < n"
      then have "a + of_nat j \<in> region d" using region_offset [of "8192 * i + j" d] le by (simp add: a add.assoc)
      then show "wmem w1 (a + of_nat j) = ?m (a + of_nat j)" using assms(1,3) True by (auto simp: moved_def)
    qed
    then have "disk (wdev w2) = disk_write ?D L (mem_read ?m (virt d) (8192 * i + n))"
      using w2(1) assms(1,5) True disk_write_append [of ?D L "mem_read ?m (virt d) (8192 * i)"]
      by (simp add: moved_def mem_read_add a)
    then show ?thesis using w2(2) assms(1) True by (simp add: moved_def)
  next
    case False
    have "wmem w2 x = mem_write ?m (virt d) (disk_read ?D L (8192 * i + n)) x" if "x \<notin> S" for x
    proof -
      have "wmem w2 x = mem_write (wmem w1) a (disk_read ?D at n) x" using w2(2) [OF that] assms(1) False by (simp add: moved_def)
      also have "\<dots> = mem_write (mem_write ?m (virt d) (disk_read ?D L (8192 * i))) a (disk_read ?D at n) x"
        using assms(1) False that by (simp add: moved_def mem_write_def)
      finally show ?thesis
        using mem_write_append [of "disk_read ?D L (8192 * i)" "disk_read ?D at n" ?m "virt d"] big
        by (simp add: a assms(5) disk_read_add)
    qed
    then show ?thesis using w2(1) assms(1) False by (simp add: moved_def)
  qed
qed

abbreviation io_store :: "'d hw \<Rightarrow> 'm nvme_device \<Rightarrow> (u64 \<Rightarrow> usize) \<Rightarrow> usize set \<Rightarrow> ('d \<Rightarrow> disk)
    \<Rightarrow> (submission_queue \<Rightarrow> completion_queue \<Rightarrow> 'd world \<Rightarrow> bool) \<Rightarrow> bool" where
  "io_store hw dev tr S disk J \<equiv> stores hw (doorbell dev SQyTDBL 1) (doorbell dev CQyHDBL 1) tr S disk J"

text \<open>A transfer of a region of whole blocks that the controller reaches.\<close>

definition whole_blocks :: "(u64 \<Rightarrow> usize) \<Rightarrow> usize set \<Rightarrow> dma \<Rightarrow> u64 \<Rightarrow> bool" where
  "whole_blocks tr S d lba \<longleftrightarrow>
     dma_mapped tr S d \<and> 512 dvd unat (dsize d) \<and> unat lba + unat (dsize d) div 512 \<le> 2 ^ 64"

lemma chunk_io_stored:
  assumes st: "io_store hw dev tr S disk J" and J: "J (io_sq dev) (io_cq dev) w" and d: "whole_blocks tr S d lba"
    and i: "i < chunk_count 8192 (unat (dsize d))"
    and n: "n = min 8192 (unat (dsize d) - 8192 * i)" and at: "at = 512 * unat lba + 8192 * i" and a: "a = virt d + of_nat (8192 * i)"
  shows "\<exists>e c w'. let dev' = dev_io e c dev in namespace_io hw 1 (blocks_of (of_nat n)) (lba + of_nat (16 * i)) (phys d + of_nat (8192 * i)) write (dev, w)
      = Some (Ret (), (dev', w'))
    \<and> io_store hw dev' tr S disk J \<and> J (io_sq dev') (io_cq dev') w'
    \<and> disk (wdev w') = (if write then disk_write (disk (wdev w)) at (mem_read (wmem w) a n) else disk (wdev w))
    \<and> (\<forall>x. x \<notin> S \<longrightarrow> wmem w' x = (if write then wmem w x else mem_write (wmem w) a (disk_read (disk (wdev w)) at n) x))"
proof -
  let ?ch = "nth_chunk d 8192 i" and ?l = "lba + of_nat (16 * i) :: u64"
  let ?b = "blocks_of (chunk_len ?ch)"
  define e where "e = namespace_entry dev 1 ?b ?l (phys_addr ?ch) write"
  have less: "8192 * i < unat (dsize d)" using i by (simp add: chunk_count_less mult.commute)
  have cov: "covers_chunk write d lba i e"
    by (rule chunk_command_covers [OF i]) (auto simp: chunk_command_def e_def namespace_entry_def)
  have d': "512 dvd unat (dsize d)" "unat lba + unat (dsize d) div 512 \<le> 2 ^ 64" "dma_mapped tr S d"
    using d by (simp_all add: whole_blocks_def)
  note ex = exec_chunk [OF cov less d' n at a]
  have "plain_io tr S e" by (rule chunk_data(4) [OF cov less d'])
  then obtain c T where c: "sq_inv (io_sq dev)" "cq_inv (io_cq dev)"
      "answered hw (io_cq dev) (sq_rung hw (doorbell dev SQyTDBL 1) e (io_sq dev) w) c T" "status_code c = 0"
      "let w' = cq_rung hw (doorbell dev CQyHDBL 1) (io_cq dev) T (sq_rung hw (doorbell dev SQyTDBL 1) e (io_sq dev) w);
           (D, m) = exec_io tr e (disk (wdev w), wmem w)
       in J (take_head c (sq_after e (io_sq dev))) (cq_after (io_cq dev)) w' \<and> disk (wdev w') = D
        \<and> (\<forall>x. x \<notin> S \<longrightarrow> wmem w' x = m x)"
    using st J unfolding stores_def by blast
  let ?w' = "cq_rung hw (doorbell dev CQyHDBL 1) (io_cq dev) T (sq_rung hw (doorbell dev SQyTDBL 1) e (io_sq dev) w)"
  have b: "0 < ?b" "?b \<le> 0x10000"
    using blocks_of_chunk [OF i] by (auto simp: word_le_nat_alt)
  have "namespace_io hw 1 ?b ?l (phys_addr ?ch) write (dev, w) = Some (Ret (), (dev_io e c dev, ?w'))"
    using namespace_io_run [OF c(1,2) e_def refl c(3) b] c(4) by (simp add: Let_def)
  moreover have "chunk_len ?ch = of_nat n" "phys_addr ?ch = phys d + of_nat (8192 * i)"
    by (simp_all add: nth_chunk_def n mult.commute)
  moreover have "io_store hw (dev_io e c dev) tr S disk J" using st by simp
  ultimately show ?thesis
    using c(5) by (intro exI [of _ e] exI [of _ c] exI [of _ ?w']) (simp add: ex Let_def split: if_splits)
qed

lemma transfer_chunk_stored:
  assumes st: "io_store hw dev tr S disk J" and J: "J (io_sq dev) (io_cq dev) w" and d: "whole_blocks tr S d lba"
    and i: "i < chunk_count 8192 (unat (dsize d))"
    and n: "n = min 8192 (unat (dsize d) - 8192 * i)" and at: "at = 512 * unat lba + 8192 * i" and a: "a = virt d + of_nat (8192 * i)"
  shows "\<exists>dev' w'. transfer_chunk hw write (nth_chunk d 8192 i) (lba + of_nat (16 * i)) (dev, w)
      = Some (Ret (lba + of_nat (16 * i) + blocks_of (of_nat n)), (dev', w'))
    \<and> io_store hw dev' tr S disk J \<and> J (io_sq dev') (io_cq dev') w'
    \<and> disk (wdev w') = (if write then disk_write (disk (wdev w)) at (mem_read (wmem w) a n) else disk (wdev w))
    \<and> (\<forall>x. x \<notin> S \<longrightarrow> wmem w' x = (if write then wmem w x else mem_write (wmem w) a (disk_read (disk (wdev w)) at n) x))"
proof -
  have "chunk_len (nth_chunk d 8192 i) = of_nat n" "phys_addr (nth_chunk d 8192 i) = phys d + of_nat (8192 * i)"
    by (simp_all add: nth_chunk_def n mult.commute)
  then show ?thesis
    using chunk_io_stored [OF assms, of "write"] by (fastforce simp: transfer_chunk_def Let_def mbind_Ret)
qed

lemma transfer_prefix_stored:
  assumes "io_store hw dev tr S disk J" and "J (io_sq dev) (io_cq dev) w" and "whole_blocks tr S d lba"
    and "k \<le> chunk_count 8192 (unat (dsize d))"
  shows "\<exists>l dev' w'. mfold (transfer_chunk hw write) (map (nth_chunk d 8192) [0..<k]) lba (dev, w) = Some (Ret l, (dev', w'))
    \<and> (k < chunk_count 8192 (unat (dsize d)) \<longrightarrow> l = lba + of_nat (16 * k))
    \<and> io_store hw dev' tr S disk J \<and> J (io_sq dev') (io_cq dev') w'
    \<and> moved write S disk d (512 * unat lba) (min (8192 * k) (unat (dsize d))) w w'"
  using assms(4)
proof (induction k)
  case 0
  then show ?case
    using assms(1,2) by (intro exI [of _ lba] exI [of _ dev] exI [of _ w]) (simp add: moved_def mem_read_def disk_read_def mem_write_def)
next
  case (Suc k)
  let ?N = "unat (dsize d)"
  have less: "8192 * k < ?N" using Suc.prems chunk_count_less [of 8192 k ?N] by (simp add: mult.commute)
  from Suc obtain dev1 w1 where 1:
      "mfold (transfer_chunk hw write) (map (nth_chunk d 8192) [0..<k]) lba (dev, w) = Some (Ret (lba + of_nat (16 * k)), (dev1, w1))"
      "io_store hw dev1 tr S disk J" "J (io_sq dev1) (io_cq dev1) w1"
      "moved write S disk d (512 * unat lba) (8192 * k) w w1"
    using less by (auto simp: min_def)
  define n where "n = min 8192 (?N - 8192 * k)"
  from transfer_chunk_stored [OF 1(2,3) assms(3) _ n_def refl refl] Suc.prems
  obtain dev2 w2 where 2:
      "transfer_chunk hw write (nth_chunk d 8192 k) (lba + of_nat (16 * k)) (dev1, w1)
         = Some (Ret (lba + of_nat (16 * k) + blocks_of (of_nat n)), (dev2, w2))"
      "io_store hw dev2 tr S disk J" "J (io_sq dev2) (io_cq dev2) w2"
      "disk (wdev w2) = (if write then disk_write (disk (wdev w1)) (512 * unat lba + 8192 * k) (mem_read (wmem w1) (virt d + of_nat (8192 * k)) n) else disk (wdev w1))"
      "\<forall>x. x \<notin> S \<longrightarrow> wmem w2 x = (if write then wmem w1 x
         else mem_write (wmem w1) (virt d + of_nat (8192 * k)) (disk_read (disk (wdev w1)) (512 * unat lba + 8192 * k) n) x)"
    by (metis Suc_le_lessD)
  have "region d \<inter> S = {}" using assms(3) by (simp add: whole_blocks_def dma_mapped_def)
  from moved_step [OF 1(4) less this n_def refl refl 2(4)] 2(5)
  have "moved write S disk d (512 * unat lba) (8192 * k + n) w w2" by blast
  moreover have "8192 * k + n = min (8192 * Suc k) ?N" using less by (simp add: n_def)
  moreover have "blocks_of (of_nat n) = 16" if "Suc k < chunk_count 8192 ?N"
  proof -
    have "8192 * Suc k < ?N" using that chunk_count_less [of 8192 "Suc k" ?N] by (simp add: mult.commute)
    then have "n = 8192" by (simp add: n_def)
    then show ?thesis by (simp add: blocks_of_def)
  qed
  moreover have "mfold (transfer_chunk hw write) (map (nth_chunk d 8192) [0..<Suc k]) lba (dev, w)
      = Some (Ret (lba + of_nat (16 * k) + blocks_of (of_nat n)), (dev2, w2))"
    using 1(1) 2(1) by (simp add: mfold_append mbind_Ret)
  ultimately show ?case using 2(2,3) by (auto simp: algebra_simps)
qed

lemma transfer_stored:
  assumes "io_store hw dev tr S disk J" and "J (io_sq dev) (io_cq dev) w" and "whole_blocks tr S d lba"
  shows "\<exists>dev' w'. (if write then nvme_write hw d lba else nvme_read hw d lba) (dev, w) = Some (Ret (), (dev', w'))
    \<and> io_store hw dev' tr S disk J \<and> J (io_sq dev') (io_cq dev') w'
    \<and> moved write S disk d (512 * unat lba) (unat (dsize d)) w w'"
proof -
  let ?n = "chunk_count 8192 (unat (dsize d))"
  have cs: "dma_chunks_collect (chunks d (2 * 4096)) = Some (map (nth_chunk d 8192) [0..<?n])"
    using dma_chunks_collect_at [of 8192 0 d] by (simp add: chunks_def)
  have "unat (dsize d) \<le> 8192 * ?n" using chunk_count_less [of 8192 ?n "unat (dsize d)"] by (simp add: mult.commute)
  then have all: "min (8192 * ?n) (unat (dsize d)) = unat (dsize d)" by simp
  obtain l dev' w' where
      "mfold (transfer_chunk hw write) (map (nth_chunk d 8192) [0..<?n]) lba (dev, w) = Some (Ret l, (dev', w'))"
      "io_store hw dev' tr S disk J" "J (io_sq dev') (io_cq dev') w'"
      "moved write S disk d (512 * unat lba) (unat (dsize d)) w w'"
    using transfer_prefix_stored [OF assms order_refl, of "write"] unfolding all by blast
  moreover from this have "(if write then nvme_write hw d lba else nvme_read hw d lba) (dev, w) = Some (Ret (), (dev', w'))"
    using cs by (cases "write") (simp_all add: nvme_write_def nvme_read_def for_chunks_def mbind_run)
  ultimately show ?thesis by blast
qed

lemma write_read_back:
  assumes "io_store hw dev tr S disk J" and "J (io_sq dev) (io_cq dev) w"
    and "whole_blocks tr S d lba" and "whole_blocks tr S d' lba" and "dsize d' = dsize d"
  shows "\<exists>dev1 w1. nvme_write hw d lba (dev, w) = Some (Ret (), (dev1, w1))
    \<and> (\<forall>b. b < 512 * unat lba \<or> 512 * unat lba + unat (dsize d) \<le> b \<longrightarrow> disk (wdev w1) b = disk (wdev w) b)
    \<and> (\<forall>m. (\<forall>x\<in>S. m x = wmem w1 x) \<longrightarrow>
         (\<exists>dev2 w2. nvme_read hw d' lba (dev1, w1\<lparr>wmem := m\<rparr>) = Some (Ret (), (dev2, w2))
            \<and> mem_read (wmem w2) (virt d') (unat (dsize d)) = mem_read (wmem w) (virt d) (unat (dsize d))
            \<and> (\<forall>x. x \<notin> S \<union> region d' \<longrightarrow> wmem w2 x = m x)
            \<and> disk (wdev w2) = disk (wdev w1)))"
proof -
  let ?L = "512 * unat lba" and ?N = "unat (dsize d)" and ?bs = "mem_read (wmem w) (virt d) (unat (dsize d))"
  obtain dev1 w1 where w1: "nvme_write hw d lba (dev, w) = Some (Ret (), (dev1, w1))"
      "io_store hw dev1 tr S disk J" "J (io_sq dev1) (io_cq dev1) w1" "moved True S disk d ?L ?N w w1"
    using transfer_stored [OF assms(1-3), of True] by auto
  have D1: "disk (wdev w1) = disk_write (disk (wdev w)) ?L ?bs" using w1(4) by (simp add: moved_def)
  have read: "\<exists>dev2 w2. nvme_read hw d' lba (dev1, w1\<lparr>wmem := m\<rparr>) = Some (Ret (), (dev2, w2))
      \<and> mem_read (wmem w2) (virt d') ?N = ?bs \<and> (\<forall>x. x \<notin> S \<union> region d' \<longrightarrow> wmem w2 x = m x) \<and> disk (wdev w2) = disk (wdev w1)"
    if m: "\<forall>x\<in>S. m x = wmem w1 x" for m
  proof -
    have "J (io_sq dev1) (io_cq dev1) (w1\<lparr>wmem := m\<rparr>)" using w1(2,3) m unfolding stores_def by blast
    from transfer_stored [OF w1(2) this assms(4), of False] obtain dev2 w2 where
        2: "nvme_read hw d' lba (dev1, w1\<lparr>wmem := m\<rparr>) = Some (Ret (), (dev2, w2))"
        "moved False S disk d' ?L (unat (dsize d')) (w1\<lparr>wmem := m\<rparr>) w2"
      by auto
    have mem: "wmem w2 x = mem_write m (virt d') ?bs x" if "x \<notin> S" for x
      using 2(2) that by (simp add: moved_def D1 assms(5))
    have "mem_read (wmem w2) (virt d') ?N = mem_read (mem_write m (virt d') ?bs) (virt d') ?N"
    proof (rule mem_read_cong)
      fix j assume "j < ?N"
      then have "virt d' + of_nat j \<in> region d'" using region_offset [of j d'] assms(5) by simp
      then show "wmem w2 (virt d' + of_nat j) = mem_write m (virt d') ?bs (virt d' + of_nat j)"
        using mem assms(4) by (auto simp: whole_blocks_def dma_mapped_def)
    qed
    moreover have "?N \<le> 2 ^ 64" by (simp add: less_imp_le)
    ultimately have "mem_read (wmem w2) (virt d') ?N = ?bs" by (simp add: mem_read_write_exact)
    moreover have "wmem w2 x = m x" if "x \<notin> S \<union> region d'" for x
      using mem [of x] that assms(5) by (simp add: mem_write_def region_def addr_range_def)
    ultimately show ?thesis using 2 by (auto simp: moved_def)
  qed
  moreover have "disk (wdev w1) b = disk (wdev w) b" if "b < ?L \<or> ?L + ?N \<le> b" for b
    using that by (auto simp: D1 disk_write_def)
  ultimately show ?thesis using w1(1) by blast
qed

text \<open>
  C40. Data survives a round trip. On a controller that carries out reads and writes, a region of
  whole blocks is written, and the call returns; then memory may change in any way outside the
  rings; reading the blocks into a region of the same size returns, gives the bytes that were
  written, and changes no other memory outside the rings. On the disk, exactly the bytes of these
  blocks have changed.
\<close>

theorem written_data_read_back:
  assumes "io_store hw dev tr S disk J" and "J (io_sq dev) (io_cq dev) w"
    and "whole_blocks tr S d lba" and "whole_blocks tr S d' lba" and "dsize d' = dsize d"
  shows "\<exists>dev1 w1. nvme_write hw d lba (dev, w) = Some (Ret (), (dev1, w1))
    \<and> (\<forall>b. b < 512 * unat lba \<or> 512 * unat lba + unat (dsize d) \<le> b \<longrightarrow> disk (wdev w1) b = disk (wdev w) b)
    \<and> (\<forall>m. (\<forall>x\<in>S. m x = wmem w1 x) \<longrightarrow>
         (\<exists>dev2 w2. nvme_read hw d' lba (dev1, w1\<lparr>wmem := m\<rparr>) = Some (Ret (), (dev2, w2))
            \<and> mem_read (wmem w2) (virt d') (unat (dsize d)) = mem_read (wmem w) (virt d) (unat (dsize d))
            \<and> (\<forall>x. x \<notin> S \<union> region d' \<longrightarrow> wmem w2 x = m x)
            \<and> disk (wdev w2) = disk (wdev w1)))"
  using assms by (rule write_read_back)

subsection \<open>A controller with storage\<close>

text \<open>It sees memory as the driver does, and serves the I/O rings of \<open>demo_dev\<close>; its state is the disk
  and the number of commands so far.\<close>

definition demo_store :: "nvme_command \<Rightarrow> (disk \<times> nat) world \<Rightarrow> (disk \<times> nat) world" where
  "demo_store e w = (case exec_io (\<lambda>x. x) e (fst (wdev w), wmem w) of
     (D, m) \<Rightarrow> \<lparr>wmem = m, wdev = (D, Suc (snd (wdev w)))\<rparr>)"

definition store_hw :: "(disk \<times> nat) hw" where
  "store_hw = \<lparr>hw_tick = (\<lambda>w. w),
     hw_write32 = (\<lambda>a v w. if a = doorbell demo_dev SQyTDBL 1
        then ring_answer demo_store snd (io_sq demo_dev) (io_cq demo_dev) w else w),
     hw_write64 = (\<lambda>a v w. w), hw_read32 = (\<lambda>a w. (0, w)), hw_read64 = (\<lambda>a w. (0, w)), hw_now = (\<lambda>w. (0, w))\<rparr>"

definition ring_memory :: "usize set" where
  "ring_memory = region (sq_commands (io_sq demo_dev)) \<union> region (cq_commands (io_cq demo_dev))"

abbreviation store_state :: "submission_queue \<Rightarrow> completion_queue \<Rightarrow> (disk \<times> nat) world \<Rightarrow> bool" where
  "store_state \<equiv> ring_state snd (io_sq demo_dev) (io_cq demo_dev)"

lemma fold_store_cong:
  assumes "m x = m' x"
  shows "fold (\<lambda>i m. m(f i := g i)) is m x = fold (\<lambda>i m. m(f i := g i)) is m' x"
  using assms
proof (induction "is" arbitrary: m m')
  case (Cons i "is")
  show ?case unfolding fold_simps by (rule Cons.IH) (simp add: Cons.prems)
qed simp

lemma exec_io_cong:
  assumes "plain_io tr S e" and "\<forall>x. x \<notin> S \<longrightarrow> m x = m' x"
  shows "fst (exec_io tr e (D, m)) = fst (exec_io tr e (D, m'))"
    "x \<notin> S \<Longrightarrow> snd (exec_io tr e (D, m)) x = snd (exec_io tr e (D, m')) x"
proof -
  have "map (\<lambda>i. m (tr (prp_byte e i))) [0..<io_bytes e] = map (\<lambda>i. m' (tr (prp_byte e i))) [0..<io_bytes e]"
    using assms by (auto simp: plain_io_def)
  then show "fst (exec_io tr e (D, m)) = fst (exec_io tr e (D, m'))" by (simp add: exec_io_def del: map_eq_conv)
  show "snd (exec_io tr e (D, m)) x = snd (exec_io tr e (D, m')) x" if "x \<notin> S"
    using assms(2) that fold_store_cong [of m x m' "\<lambda>i. tr (prp_byte e i)" "\<lambda>i. D (io_start e + i)" "[0..<io_bytes e]"]
    by (simp add: exec_io_def)
qed

lemma demo_rings: "sq_commands (io_sq demo_dev) = \<lparr>virt = 0x800000, phys = 0x800000, dsize = 2097152\<rparr>"
   "cq_commands (io_cq demo_dev) = \<lparr>virt = 0xA00000, phys = 0xA00000, dsize = 2097152\<rparr>" "sq_len (io_sq demo_dev) = 4" "cq_len (io_cq demo_dev) = 4"
  by (simp_all add: demo_dev_def demo_ring_def demo_cring_def)

lemma store_hw_stores: "io_store store_hw demo_dev (\<lambda>x. x) ring_memory fst store_state"
proof -
  let ?sq = "io_sq demo_dev" and ?cq = "io_cq demo_dev"
  let ?sqdb = "doorbell demo_dev SQyTDBL 1" and ?cqdb = "doorbell demo_dev CQyHDBL 1"
  have "sq_inv sq \<and> cq_inv cq
      \<and> (\<exists>c T. answered store_hw cq (sq_rung store_hw ?sqdb e sq w) c T \<and> status_code c = 0
           \<and> (let w' = cq_rung store_hw ?cqdb cq T (sq_rung store_hw ?sqdb e sq w);
                  (D, m) = exec_io (\<lambda>x. x) e (fst (wdev w), wmem w)
              in store_state (take_head c (sq_after e sq)) (cq_after cq) w' \<and> fst (wdev w') = D
               \<and> (\<forall>x. x \<notin> ring_memory \<longrightarrow> wmem w' x = m x)))"
    if st: "store_state sq cq w" and e: "plain_io (\<lambda>x. x) ring_memory e" for sq cq w e
  proof -
    obtain D m where ex: "exec_io (\<lambda>x. x) e (fst (wdev w), wmem w) = (D, m)" by fastforce
    define J where "J cs v \<longleftrightarrow> (cs = [] \<longrightarrow> v = w)
      \<and> (cs = [e] \<longrightarrow> fst (wdev v) = D \<and> (\<forall>x. x \<notin> ring_memory \<longrightarrow> wmem v x = m x))" for cs :: "nvme_command list" and v :: "(disk \<times> nat) world"
    have step: "J (cs @ [e']) (post_answer ?sq ?cq (snd (wdev v)) (demo_store e' w1))"
      if "J cs v" "store_state sq cq v" and w1: "w1 = v\<lparr>wmem := sq_stored e' sq (wmem v)\<rparr>" for cs e' sq cq v w1
    proof (cases "cs = [] \<and> e' = e")
      case True
      then have v: "v = w" using that(1) by (simp add: J_def)
      have sq: "sq_commands sq = sq_commands ?sq" "unat (sq_tail sq) < 4"
        using that(2) sq_invD [of sq] by (auto simp: ring_state_def demo_rings)
      have out: "\<forall>x. x \<notin> ring_memory \<longrightarrow> sq_stored e sq (wmem w) x = wmem w x"
        unfolding sq_stored_def cell_def using sq
        by (intro allI impI mem_write_range [where n = 2097152]) (simp_all add: ring_memory_def region_def demo_rings)
      note ex' = exec_io_cong [where D = "fst (wdev w)", OF e out]
      have "fst (wdev (demo_store e w1)) = D"
        using ex'(1) unfolding demo_store_def w1 v by (auto simp: ex True split: prod.splits)
      moreover have "wmem (demo_store e w1) x = m x" if "x \<notin> ring_memory" for x
        using ex'(2) [OF that] unfolding demo_store_def w1 v by (auto simp: ex True split: prod.splits)
      moreover have "wmem (post_answer ?sq ?cq k v') x = wmem v' x" if "x \<notin> ring_memory" for k x and v' :: "(disk \<times> nat) world"
      proof -
        have "mem_write (wmem v') (0xA00000 + of_nat (16 * (k mod 4))) (encode_completion c) x = wmem v' x" for c
          using that by (intro mem_write_range [where n = 2097152]) (simp_all add: ring_memory_def region_def demo_rings)
        then show ?thesis by (simp add: post_answer_def cell_def demo_rings)
      qed
      ultimately show ?thesis using True by (auto simp: J_def)
    qed (auto simp: J_def)
    have "serves store_hw ?sqdb ?cqdb take_head (\<lambda>cs sq cq w. store_state sq cq w \<and> J cs w)"
      using demo_doorbells(2) by (intro ring_serves [where exec = demo_store] step)
        (simp_all add: store_hw_def demo_store_def split: prod.splits)
    moreover have "store_state sq cq w \<and> J [] w" using st by (simp add: J_def)
    ultimately obtain c T where "sq_inv sq" "cq_inv cq" "answered store_hw cq (sq_rung store_hw ?sqdb e sq w) c T" "status_code c = 0"
        "store_state (take_head c (sq_after e sq)) (cq_after cq) (cq_rung store_hw ?cqdb cq T (sq_rung store_hw ?sqdb e sq w))"
        "J ([] @ [e]) (cq_rung store_hw ?cqdb cq T (sq_rung store_hw ?sqdb e sq w))"
      unfolding serves_def by blast
    then show ?thesis by (auto simp: J_def ex Let_def)
  qed
  then show ?thesis unfolding stores_def by (auto simp: ring_state_def)
qed

theorem written_data_read_back_witness:
  "\<exists>dev1 w1 dev2 w2.
      nvme_write store_hw \<lparr>virt = 0x1000000, phys = 0x1000000, dsize = 20480\<rparr> 100
        (demo_dev, \<lparr>wmem = (\<lambda>x. ucast x), wdev = (\<lambda>_. 0, 0)\<rparr>) = Some (Ret (), (dev1, w1))
    \<and> nvme_read store_hw \<lparr>virt = 0x2000000, phys = 0x2000000, dsize = 20480\<rparr> 100 (dev1, w1) = Some (Ret (), (dev2, w2))
    \<and> mem_read (wmem w2) 0x2000000 20480 = mem_read (\<lambda>x. ucast x) 0x1000000 20480"
proof -
  let ?w = "\<lparr>wmem = (\<lambda>x. ucast x), wdev = (\<lambda>_. 0, 0)\<rparr> :: (disk \<times> nat) world"
  let ?d = "\<lparr>virt = 0x1000000, phys = 0x1000000, dsize = 20480\<rparr>" and ?d' = "\<lparr>virt = 0x2000000, phys = 0x2000000, dsize = 20480\<rparr>"
  have "store_state (io_sq demo_dev) (io_cq demo_dev) ?w"
    by (simp add: ring_state_def demo_dev_def demo_ring_def demo_cring_def sq_inv_def cq_consumed_def cq_inv_def phase_of_def)
  moreover have "whole_blocks (\<lambda>x. x) ring_memory ?d 100" "whole_blocks (\<lambda>x. x) ring_memory ?d' 100"
    by (auto simp: whole_blocks_def dma_mapped_def region_def ring_memory_def demo_rings in_addr_range)
  ultimately have "\<exists>dev1 w1. nvme_write store_hw ?d 100 (demo_dev, ?w) = Some (Ret (), (dev1, w1))
      \<and> (\<forall>m. (\<forall>x\<in>ring_memory. m x = wmem w1 x) \<longrightarrow>
         (\<exists>dev2 w2. nvme_read store_hw ?d' 100 (dev1, w1\<lparr>wmem := m\<rparr>) = Some (Ret (), (dev2, w2))
            \<and> mem_read (wmem w2) 0x2000000 20480 = mem_read (\<lambda>x. ucast x) 0x1000000 20480))"
    using written_data_read_back [OF store_hw_stores, of ?w ?d 100 ?d'] by fastforce
  then obtain dev1 w1 where w1: "nvme_write store_hw ?d 100 (demo_dev, ?w) = Some (Ret (), (dev1, w1))"
      "\<forall>m. (\<forall>x\<in>ring_memory. m x = wmem w1 x) \<longrightarrow>
         (\<exists>dev2 w2. nvme_read store_hw ?d' 100 (dev1, w1\<lparr>wmem := m\<rparr>) = Some (Ret (), (dev2, w2))
            \<and> mem_read (wmem w2) 0x2000000 20480 = mem_read (\<lambda>x. ucast x) 0x1000000 20480)"
    by blast
  from w1(2) [rule_format, of "wmem w1"] show ?thesis using w1(1) by auto
qed

end
