(* ===== verification/Examples.thy ===== *)
theory Examples
  imports Lib Storage
begin

text \<open>
  Programs that use the library (\<^verbatim>\<open>src/examples\<close>): \<^verbatim>\<open>simple_io.rs\<close>, \<^verbatim>\<open>hello_world.rs\<close>,
  \<^verbatim>\<open>fill_namespace.rs\<close>, and the measurements with one request at a time of \<^verbatim>\<open>latency.rs\<close> and
  \<^verbatim>\<open>throughput.rs\<close>. What a program prints of the data it read is its result. The package \<^verbatim>\<open>rand\<close> is a
  parameter: \<open>gen lo hi\<close> draws a number and \<open>rnd n\<close> draws \<open>n\<close> bytes.
\<close>

unbundle bit_operations_syntax

subsection \<open>Helpers\<close>

text \<open>\<^verbatim>\<open>str::from_utf8\<close>: the ranges of the bytes that must follow a leading byte.\<close>

definition utf8_ranges :: "u8 \<Rightarrow> (u8 \<times> u8) list option" where
  "utf8_ranges b =
     (let c = (0x80, 0xBF)
      in if b < 0x80 then Some []
         else if b < 0xC2 then None
         else if b < 0xE0 then Some [c]
         else if b = 0xE0 then Some [(0xA0, 0xBF), c]
         else if b = 0xED then Some [(0x80, 0x9F), c]
         else if b < 0xF0 then Some [c, c]
         else if b = 0xF0 then Some [(0x90, 0xBF), c, c]
         else if b < 0xF4 then Some [c, c, c]
         else if b = 0xF4 then Some [(0x80, 0x8F), c, c]
         else None)"

fun utf8_from :: "(u8 \<times> u8) list \<Rightarrow> u8 list \<Rightarrow> bool" where
  "utf8_from [] [] = True"
| "utf8_from (r # rs) [] = False"
| "utf8_from [] (b # bs) = (case utf8_ranges b of None \<Rightarrow> False | Some rs \<Rightarrow> utf8_from rs bs)"
| "utf8_from ((lo, hi) # rs) (b # bs) = (lo \<le> b \<and> b \<le> hi \<and> utf8_from rs bs)"

definition is_utf8 :: "u8 list \<Rightarrow> bool" where
  "is_utf8 bs = utf8_from [] bs"

text \<open>\<^verbatim>\<open>buffer[..n].copy_from_slice(bs)\<close> and the contents of \<^verbatim>\<open>buffer[start..stop]\<close>.\<close>

definition dma_copy :: "dma \<Rightarrow> u8 list \<Rightarrow> ('x \<times> 'd world, unit) comp" where
  "dma_copy d bs =
     mbind (mlift (dma_index_to d (len_u64 bs))) (\<lambda>(a, _).
     mmodify (\<lambda>(dev, w). (dev, w\<lparr>wmem := mem_write (wmem w) a bs\<rparr>)))"

definition dma_bytes :: "dma \<Rightarrow> usize \<Rightarrow> usize \<Rightarrow> (('m, 'd) dev_state, u8 list) comp" where
  "dma_bytes d start stop =
     mbind (mlift (dma_index_range d start stop)) (\<lambda>(a, n).
     mget (\<lambda>(dev, w). mem_read (wmem w) a (unat n)))"

text \<open>A program that owns a device, which it drops at its end.\<close>

definition with_device :: "'m nvme_device \<Rightarrow> (('m, 'd) dev_state, 'a) comp \<Rightarrow> ('d world, 'a) comp" where
  "with_device dev m = (\<lambda>w. case m (dev, w) of
     None \<Rightarrow> None
   | Some (r, t) \<Rightarrow> Some (r, snd t))"

text \<open>The first argument after the name of the program; without it the program exits with 1.\<close>

definition with_pci_addr :: "string list \<Rightarrow> (string \<Rightarrow> ('s, 'a) comp) \<Rightarrow> ('s, nat + 'a) comp" where
  "with_pci_addr args run = (case args of
     _ # addr # _ \<Rightarrow> mbind (run addr) (\<lambda>x. mret (Inr x))
   | _ \<Rightarrow> mret (Inl 1))"

subsection \<open>simple\_io.rs and hello\_world.rs\<close>

definition test_bytes :: "u8 list" where
  "test_bytes = string_bytes ''hello world! vroom test bytes''"

definition simple_io :: "'d hw \<Rightarrow> ('m, 'd) mapping_ops \<Rightarrow> (('m, 'd) dev_state, u8 list) comp" where
  "simple_io hw ops =
     (let lba = 0; bytes = test_bytes in
     mbind (dev_allocate ops PAGESIZE_4KIB) (\<lambda>buf.
     mbind (dma_copy buf bytes) (\<lambda>_.
     mbind (nvme_write hw buf lba) (\<lambda>_.
     mbind (dma_copy buf (replicate (length bytes) 0)) (\<lambda>_.
     mbind (nvme_read hw buf lba) (\<lambda>_.
     mbind (dma_bytes buf 0 (len_u64 bytes)) (\<lambda>read_buf.
     mbind (if is_utf8 read_buf then mret () else mpanic Unwrap_failed) (\<lambda>_.
     mbind (dev_deallocate ops buf) (\<lambda>_.
     mret read_buf)))))))))"

definition simple_io_main :: "(statics \<times> 'k) hw \<Rightarrow> 'k os \<Rightarrow> string list \<Rightarrow> ('k sys, nat + u8 list) comp" where
  "simple_io_main hw k args = with_pci_addr args (\<lambda>addr.
     mbind (lib_init_with_page_size hw k addr Page4K) (\<lambda>nvme.
     with_device nvme (simple_io hw (memory_access_ops k))))"

text \<open>The result \<open>None\<close> is the error of \<^verbatim>\<open>from_utf8\<close>.\<close>

definition hello_world :: "'d hw \<Rightarrow> (('m, 'd) dev_state, u8 list option) comp" where
  "hello_world hw =
     mbind (write_copied hw (string_bytes ''hello world'') 0) (\<lambda>_.
     mbind (read_copied hw (replicate 12 0) 0) (\<lambda>dest.
     mret (if is_utf8 dest then Some dest else None)))"

definition hello_world_main :: "(statics \<times> 'k) hw \<Rightarrow> 'k os \<Rightarrow> string list \<Rightarrow> ('k sys, nat + u8 list option) comp" where
  "hello_world_main hw k args = with_pci_addr args (\<lambda>addr.
     mbind (lib_init hw k addr) (\<lambda>nvme.
     with_device nvme (hello_world hw)))"

subsection \<open>fill\_namespace.rs\<close>

partial_function (option) fill_loop :: "'d hw \<Rightarrow> dma \<Rightarrow> u64 \<Rightarrow> u64 \<Rightarrow> u64 \<Rightarrow> (('m, 'd) dev_state, unit) comp" where
  "fill_loop hw buf blocks bound lba s =
     (if lba < bound
      then case mexpect (nvme_write hw buf lba) s of
             None \<Rightarrow> None
           | Some (r, t) \<Rightarrow> (case r of
               Ret _ \<Rightarrow> fill_loop hw buf blocks bound (lba + blocks) t
             | Err e \<Rightarrow> Some (Err e, t)
             | Panic p \<Rightarrow> Some (Panic p, t))
      else Some (Ret (), s))"

definition fill_ns :: "'d hw \<Rightarrow> ('m, 'd) mapping_ops \<Rightarrow> (('m, 'd) dev_state, unit) comp" where
  "fill_ns hw ops =
     mbind (mexpect (dev_allocate ops PAGESIZE_2MIB)) (\<lambda>buf.
     mbind (lookup_namespace 1) (\<lambda>ns.
     let max_lba = ns_blocks ns - dsize buf div 512 - 1;
         blocks = dsize buf div 512
     in fill_loop hw buf blocks (max_lba - 512) 0))"

definition fill_namespace_main :: "(statics \<times> 'k) hw \<Rightarrow> 'k os \<Rightarrow> string list \<Rightarrow> ('k sys, nat + unit) comp" where
  "fill_namespace_main hw k args = with_pci_addr args (\<lambda>addr.
     mbind (lib_init hw k addr) (\<lambda>nvme.
     with_device nvme (fill_ns hw (memory_access_ops k))))"

subsection \<open>One request at a time\<close>

type_synonym 'd rng = "u64 \<Rightarrow> u64 \<Rightarrow> 'd world \<Rightarrow> u64 \<times> 'd world"
type_synonym 'd rnd = "nat \<Rightarrow> 'd world \<Rightarrow> u8 list \<times> 'd world"

definition world_call :: "('d world \<Rightarrow> 'a \<times> 'd world) \<Rightarrow> ('x \<times> 'd world, 'a) comp" where
  "world_call f = (\<lambda>(dev, w). case f w of (x, w') \<Rightarrow> Some (Ret x, (dev, w')))"

text \<open>\<^verbatim>\<open>gen_range\<close> panics on an empty range, and \<^verbatim>\<open>%\<close> on zero.\<close>

definition next_lba :: "'d rng \<Rightarrow> bool \<Rightarrow> u64 \<Rightarrow> u64 \<Rightarrow> ('x \<times> 'd world, u64) comp" where
  "next_lba gen random ns_blks lba =
     (if random then if 0 < ns_blks then world_call (gen 0 ns_blks) else mpanic Assertion_failed
      else if ns_blks = 0 then mpanic Division_by_zero else mret ((lba + 1) mod ns_blks))"

text \<open>One request on the first 4096 bytes of the buffer, with the time it took.\<close>

definition timed_request :: "'d hw \<Rightarrow> dma \<Rightarrow> bool \<Rightarrow> u64 \<Rightarrow> (('m, 'd) dev_state, nat) comp" where
  "timed_request hw buf write lba =
     mbind (instant_now hw) (\<lambda>before.
     mbind (mlift (dma_slice buf 0 4096)) (\<lambda>data.
     mbind (if write then nvme_write hw data (lba * 8) else nvme_read hw data (lba * 8)) (\<lambda>_.
     mbind (instant_now hw) (\<lambda>now.
     mret (now - before)))))"

text \<open>
  The loop of both programs. \<open>keep\<close> says whether the block number is carried from one round to the
  next, as in \<^verbatim>\<open>latency.rs\<close>; in \<^verbatim>\<open>throughput.rs\<close> the variable is shadowed inside the loop and stays 0.
\<close>

partial_function (option) qd_1_loop ::
    "'d hw \<Rightarrow> 'd rng \<Rightarrow> dma \<Rightarrow> bool \<Rightarrow> bool \<Rightarrow> bool \<Rightarrow> u64 \<Rightarrow> nat \<Rightarrow> nat \<Rightarrow> u64 \<Rightarrow> nat list \<Rightarrow> (('m, 'd) dev_state, nat list) comp" where
  "qd_1_loop hw gen buf keep write random ns_blks duration spent lba latencies s =
     (if spent < duration
      then case mbind (next_lba gen random ns_blks lba) (\<lambda>l.
                mbind (timed_request hw buf write l) (\<lambda>elapsed. mret (l, elapsed))) s of
             None \<Rightarrow> None
           | Some (r, t) \<Rightarrow> (case r of
               Ret (l, elapsed) \<Rightarrow> qd_1_loop hw gen buf keep write random ns_blks duration (spent + elapsed)
                 (if keep then l else lba) (latencies @ [elapsed]) t
             | Err e \<Rightarrow> Some (Err e, t)
             | Panic p \<Rightarrow> Some (Panic p, t))
      else Some (Ret latencies, s))"

definition qd_1_singlethread_latency ::
    "'d hw \<Rightarrow> ('m, 'd) mapping_ops \<Rightarrow> 'd rng \<Rightarrow> 'd rnd \<Rightarrow> bool \<Rightarrow> bool \<Rightarrow> nat \<Rightarrow> (('m, 'd) dev_state, nat list) comp" where
  "qd_1_singlethread_latency hw ops gen rnd write random duration =
     mbind (dev_allocate ops PAGESIZE_2MIB) (\<lambda>buf.
     mbind (lookup_namespace 1) (\<lambda>ns.
     mbind (world_call (rnd 4096)) (\<lambda>rand_block.
     mbind (dma_copy buf rand_block) (\<lambda>_.
     qd_1_loop hw gen buf True write random (ns_blocks ns div 8 - 1) duration 0 0 []))))"

text \<open>The number of requests is all that \<^verbatim>\<open>throughput.rs\<close> keeps of them.\<close>

definition qd_1_singlethread ::
    "'d hw \<Rightarrow> ('m, 'd) mapping_ops \<Rightarrow> 'd rng \<Rightarrow> 'd rnd \<Rightarrow> bool \<Rightarrow> bool \<Rightarrow> nat \<Rightarrow> (('m, 'd) dev_state, nat) comp" where
  "qd_1_singlethread hw ops gen rnd write random duration =
     mbind (lookup_namespace 1) (\<lambda>ns.
     mbind (dev_allocate ops PAGESIZE_4KIB) (\<lambda>buf.
     mbind (world_call (rnd 4096)) (\<lambda>rand_block.
     mbind (dma_copy buf rand_block) (\<lambda>_.
     mbind (qd_1_loop hw gen buf False write random (ns_blocks ns div 8 - 1) duration 0 0 []) (\<lambda>ls.
     mret (length ls))))))"

subsection \<open>Bytes come back\<close>

lemma is_utf8_ascii: "\<forall>b\<in>set bs. b < 0x80 \<Longrightarrow> is_utf8 bs"
  unfolding is_utf8_def by (induction bs) (simp_all add: utf8_ranges_def)

lemma mem_read_prefix: "n \<le> N \<Longrightarrow> mem_read m a n = take n (mem_read m a N)"
  by (simp add: mem_read_def take_map)

lemma test_bytes_simps: "length test_bytes = 29" "len_u64 test_bytes = 29" "is_utf8 test_bytes"
  by (simp_all add: test_bytes_def string_bytes_def len_u64_def is_utf8_ascii)

lemma dma_copy_run:
  assumes "len_u64 bs \<le> dsize d"
  shows "dma_copy d bs (dev, w) = Some (Ret (), (dev, w\<lparr>wmem := mem_write (wmem w) (virt d) bs\<rparr>))"
  using assms by (simp add: dma_copy_def dma_index_to_def dma_index_range_def mbind_run)

lemma mem_write_region:
  assumes "len_u64 bs \<le> dsize d" and "length bs < 2 ^ 64" and "x \<notin> region d"
  shows "mem_write m (virt d) bs x = m x"
proof -
  have "length bs \<le> unat (dsize d)" using assms(1,2) by (simp add: len_u64_def word_le_nat_alt unat_of_nat_u64)
  then show ?thesis using assms(3) mem_write_range [of 0 bs "dsize d" x "virt d" m] by (simp add: region_def)
qed

text \<open>
  C11. The example \<^verbatim>\<open>simple_io\<close>: with a region of whole blocks from the allocator and a controller that
  carries out reads and writes, the program runs to its end and the bytes it prints, after it has
  emptied its buffer and read the first block back, are the ones it has written.
\<close>

theorem simple_io_prints_test_bytes:
  assumes "op_allocate ops (allocator dev) 4096 w = Some (Ret d, w0)" and "4096 \<le> dsize d" and "whole_blocks tr S d 0"
    and "io_store hw dev tr S disk J" and "J (io_sq dev) (io_cq dev) w0"
    and "\<And>mem v. \<exists>v'. op_deallocate ops mem d v = Some (Ret (), v')"
  shows "\<exists>dev' w'. simple_io hw ops (dev, w) = Some (Ret test_bytes, (dev', w'))"
proof -
  have sub: "region d \<inter> S = {}" using assms(3) by (simp add: whole_blocks_def dma_mapped_def)
  have N: "29 \<le> unat (dsize d)" using assms(2) by (simp add: word_le_nat_alt)
  then have fits: "len_u64 test_bytes \<le> dsize d" "len_u64 (replicate 29 (0 :: u8)) \<le> dsize d"
    by (simp_all add: test_bytes_simps) (simp_all add: len_u64_def word_le_nat_alt)
  define w1 where "w1 = w0\<lparr>wmem := mem_write (wmem w0) (virt d) test_bytes\<rparr>"
  have keep: "\<forall>x\<in>S. mem_write m (virt d) bs x = m x" if "len_u64 bs \<le> dsize d" "length bs = 29" for bs m
    using mem_write_region [OF that(1)] that(2) sub by fastforce
  then have "J (io_sq dev) (io_cq dev) w1"
    using assms(4,5) fits(1) unfolding stores_def w1_def by (simp add: test_bytes_simps)
  from write_read_back [OF assms(4) this assms(3,3) refl] obtain dev2 w2 where
      2: "nvme_write hw d 0 (dev, w1) = Some (Ret (), (dev2, w2))"
      "\<forall>m. (\<forall>x\<in>S. m x = wmem w2 x) \<longrightarrow> (\<exists>dev3 w3. nvme_read hw d 0 (dev2, w2\<lparr>wmem := m\<rparr>) = Some (Ret (), (dev3, w3))
         \<and> mem_read (wmem w3) (virt d) (unat (dsize d)) = mem_read (wmem w1) (virt d) (unat (dsize d)))"
    by blast
  from 2(2) keep [OF fits(2), of "wmem w2"] obtain dev3 w3 where
      3: "nvme_read hw d 0 (dev2, w2\<lparr>wmem := mem_write (wmem w2) (virt d) (replicate 29 0)\<rparr>) = Some (Ret (), (dev3, w3))"
      "mem_read (wmem w3) (virt d) (unat (dsize d)) = mem_read (wmem w1) (virt d) (unat (dsize d))"
    by auto
  have "mem_read (wmem w3) (virt d) 29 = mem_read (wmem w1) (virt d) 29"
    using 3(2) N by (simp add: mem_read_prefix [OF N])
  also have "\<dots> = test_bytes" by (simp add: w1_def mem_read_write_exact test_bytes_simps)
  finally have bytes: "dma_bytes d 0 29 (dev3, w3) = Some (Ret test_bytes, (dev3, w3))"
    using N by (simp add: dma_bytes_def dma_index_range_def mbind_run word_le_nat_alt)
  obtain w4 where "op_deallocate ops (allocator dev3) d w3 = Some (Ret (), w4)" using assms(6) by blast
  then have dealloc: "dev_deallocate ops d (dev3, w3) = Some (Ret (), (dev3, w4))"
    by (simp add: dev_deallocate_def on_world_def mbind_run mzoom_run)
  have alloc: "dev_allocate ops PAGESIZE_4KIB (dev, w) = Some (Ret d, (dev, w0))"
    using assms(1) by (simp add: dev_allocate_def on_world_def mbind_run mzoom_run)
  show ?thesis
    using alloc dma_copy_run [OF fits(1), of dev w0] dma_copy_run [OF fits(2), of dev2 w2] 2(1) 3(1) bytes dealloc
    by (simp add: simple_io_def Let_def mbind_Ret test_bytes_simps w1_def)
qed

theorem simple_io_prints_test_bytes_witness:
  "\<exists>dev' w'. simple_io store_hw demo_ops (demo_dev, blank_world (\<lambda>_. 0, 0)) = Some (Ret test_bytes, (dev', w'))"
proof -
  let ?w = "blank_world (\<lambda>_. 0, 0) :: (disk \<times> nat) world" and ?d = "\<lparr>virt = 0x1000000, phys = 0x1000000, dsize = 4096\<rparr>"
  have "op_allocate demo_ops (allocator demo_dev) 4096 ?w = Some (Ret ?d, ?w)" by (simp add: demo_ops_def)
  moreover have "whole_blocks (\<lambda>x. x) ring_memory ?d 0"
    by (auto simp: whole_blocks_def dma_mapped_def region_def ring_memory_def demo_rings in_addr_range)
  moreover have "store_state (io_sq demo_dev) (io_cq demo_dev) ?w"
    by (simp add: blank_world_def ring_state_def demo_dev_def demo_ring_def demo_cring_def sq_inv_def cq_consumed_def cq_inv_def phase_of_def)
  ultimately show ?thesis
    by (intro simple_io_prints_test_bytes [OF _ _ _ store_hw_stores]) (simp_all add: demo_ops_def)
qed

subsection \<open>Filling a namespace\<close>

text \<open>The bytes from \<open>at\<close> up to \<open>stop\<close> hold the region \<open>d\<close> over and over, the others what they held.\<close>

definition filled :: "disk \<Rightarrow> memory \<Rightarrow> dma \<Rightarrow> nat \<Rightarrow> nat \<Rightarrow> disk \<Rightarrow> bool" where
  "filled D m d at stop D' \<longleftrightarrow>
     (\<forall>b. D' b = (if at \<le> b \<and> b < stop then m (virt d + of_nat ((b - at) mod unat (dsize d))) else D b))"

lemma filled_step:
  assumes "filled (disk_write D at (mem_read m (virt d) (unat (dsize d)))) m' d (at + unat (dsize d)) stop D'"
    and "\<And>i. i < unat (dsize d) \<Longrightarrow> m' (virt d + of_nat i) = m (virt d + of_nat i)" and "at + unat (dsize d) \<le> stop"
    and "0 < unat (dsize d)"
  shows "filled D m d at stop D'"
  unfolding filled_def
proof
  fix b
  let ?N = "unat (dsize d)"
  have D': "D' b = (if at + ?N \<le> b \<and> b < stop then m' (virt d + of_nat ((b - (at + ?N)) mod ?N))
      else disk_write D at (mem_read m (virt d) ?N) b)"
    using assms(1) by (simp add: filled_def)
  show "D' b = (if at \<le> b \<and> b < stop then m (virt d + of_nat ((b - at) mod ?N)) else D b)"
  proof (cases "at + ?N \<le> b \<and> b < stop")
    case True
    then have "b - at = b - (at + ?N) + ?N" by simp
    then have "(b - (at + ?N)) mod ?N = (b - at) mod ?N" by (metis mod_add_self2)
    moreover have "(b - at) mod ?N < ?N" using assms(4) by simp
    ultimately show ?thesis using True D' assms(2) by auto
  next
    case False
    then show ?thesis using D' assms(3) by (auto simp: disk_write_def mem_read_def)
  qed
qed

lemma fill_loop_fills:
  assumes "io_store hw dev tr S disk J" and "J (io_sq dev) (io_cq dev) w" and d: "dma_mapped tr S d" "dsize d = 2097152"
    and bound: "unat bound + 4096 \<le> 2 ^ 64"
  shows "\<exists>k dev' w'. fill_loop hw d 4096 bound lba (dev, w) = Some (Ret (), (dev', w'))
    \<and> unat bound \<le> unat lba + 4096 * k \<and> (0 < k \<longrightarrow> unat lba + 4096 * k < unat bound + 4096)
    \<and> filled (disk (wdev w)) (wmem w) d (512 * unat lba) (512 * (unat lba + 4096 * k)) (disk (wdev w'))"
  using assms(1,2)
proof (induction "unat bound - unat lba" arbitrary: lba dev w rule: less_induct)
  case less
  show ?case
  proof (cases "lba < bound")
    case False
    then have "fill_loop hw d 4096 bound lba (dev, w) = Some (Ret (), (dev, w))" by (subst fill_loop.simps) simp
    then show ?thesis using False
      by (intro exI [of _ 0] exI [of _ dev] exI [of _ w]) (auto simp: filled_def word_less_nat_alt)
  next
    case True
    then have l: "unat lba < unat bound" by (simp add: word_less_nat_alt)
    then have next_lba: "unat (lba + 4096) = unat lba + 4096" using bound by (subst unat_add_no_wrap) simp_all
    have wb: "whole_blocks tr S d lba" using d l bound by (simp add: whole_blocks_def)
    obtain dev1 w1 where 1: "nvme_write hw d lba (dev, w) = Some (Ret (), (dev1, w1))" "io_store hw dev1 tr S disk J"
        "J (io_sq dev1) (io_cq dev1) w1" "moved True S disk d (512 * unat lba) (unat (dsize d)) w w1"
      using transfer_stored [OF less.prems wb, of True] by auto
    have "unat bound - unat (lba + 4096) < unat bound - unat lba" using l next_lba by linarith
    from less.hyps [OF this 1(2,3)] obtain k dev' w' where k:
        "fill_loop hw d 4096 bound (lba + 4096) (dev1, w1) = Some (Ret (), (dev', w'))"
        "unat bound \<le> unat (lba + 4096) + 4096 * k" "0 < k \<longrightarrow> unat (lba + 4096) + 4096 * k < unat bound + 4096"
        "filled (disk (wdev w1)) (wmem w1) d (512 * unat (lba + 4096)) (512 * (unat (lba + 4096) + 4096 * k)) (disk (wdev w'))"
      by blast
    have "fill_loop hw d 4096 bound lba (dev, w) = Some (Ret (), (dev', w'))"
      using True 1(1) k(1) by (subst fill_loop.simps) (simp add: mexpect_def)
    moreover have "filled (disk (wdev w)) (wmem w) d (512 * unat lba) (512 * (unat lba + 4096 * Suc k)) (disk (wdev w'))"
    proof (rule filled_step)
      have e: "512 * unat (lba + 4096) = 512 * unat lba + unat (dsize d)" "unat (lba + 4096) + 4096 * k = unat lba + 4096 * Suc k"
          "disk (wdev w1) = disk_write (disk (wdev w)) (512 * unat lba) (mem_read (wmem w) (virt d) (unat (dsize d)))"
        using next_lba d(2) 1(4) by (simp_all add: moved_def)
      show "filled (disk_write (disk (wdev w)) (512 * unat lba) (mem_read (wmem w) (virt d) (unat (dsize d)))) (wmem w1) d
          (512 * unat lba + unat (dsize d)) (512 * (unat lba + 4096 * Suc k)) (disk (wdev w'))"
        using k(4) unfolding e .
      show "wmem w1 (virt d + of_nat i) = wmem w (virt d + of_nat i)" if "i < unat (dsize d)" for i
        using region_offset [OF that] d(1) 1(4) by (auto simp: moved_def dma_mapped_def)
      show "512 * unat lba + unat (dsize d) \<le> 512 * (unat lba + 4096 * Suc k)" "0 < unat (dsize d)" using d(2) by simp_all
    qed
    moreover have "unat bound \<le> unat lba + 4096 * Suc k" using k(2) next_lba by simp
    moreover have "unat lba + 4096 * Suc k < unat bound + 4096" using k(3) next_lba l by (cases k) simp_all
    ultimately show ?thesis by blast
  qed
qed

text \<open>
  C12. Filling a namespace, with a region of 2 MiB, on a namespace of more than 4609 blocks: the loop
  ends; it has written whole copies of the region from the first block on and nothing else, up to
  at least block \<open>B - 4609\<close>, where \<open>B\<close> is the number of blocks, and never past the last block but 513.
\<close>

theorem fill_ns_fills:
  assumes "op_allocate ops (allocator dev) PAGESIZE_2MIB w = Some (Ret d, w0)" and "dsize d = 2097152" and "dma_mapped tr S d"
    and "io_store hw dev tr S disk J" and "J (io_sq dev) (io_cq dev) w0"
    and "namespaces dev 1 = Some ns" and "4609 < unat (ns_blocks ns)"
  shows "\<exists>k dev' w'. fill_ns hw ops (dev, w) = Some (Ret (), (dev', w'))
    \<and> filled (disk (wdev w0)) (wmem w0) d 0 (512 * (4096 * k)) (disk (wdev w'))
    \<and> unat (ns_blocks ns) - 4609 \<le> 4096 * k \<and> 4096 * k < unat (ns_blocks ns) - 513"
proof -
  let ?B = "ns_blocks ns"
  have le: "4609 \<le> ?B" using assms(7) by (simp add: word_le_nat_alt)
  have "?B - dsize d div 512 - 1 - 512 = ?B - 4609" using assms(2) by simp
  moreover have B: "unat (?B - 4609) = unat ?B - 4609" using unat_diff_word [OF le] by simp
  have "unat (?B - 4609) + 4096 \<le> 2 ^ 64" using B assms(7) unat_less_2p64 [of ?B] by (simp del: unat_less_2p64)
  from fill_loop_fills [OF assms(4,5,3,2) this, of 0] obtain k dev' w' where
      "fill_loop hw d 4096 (?B - 4609) 0 (dev, w0) = Some (Ret (), (dev', w'))"
      "unat (?B - 4609) \<le> 4096 * k" "0 < k \<longrightarrow> 4096 * k < unat (?B - 4609) + 4096"
      "filled (disk (wdev w0)) (wmem w0) d 0 (512 * (4096 * k)) (disk (wdev w'))"
    by auto
  moreover have "dev_allocate ops PAGESIZE_2MIB (dev, w) = Some (Ret d, (dev, w0))"
    using assms(1) by (simp add: dev_allocate_def on_world_def mbind_run mzoom_run)
  moreover have "lookup_namespace 1 (dev, w0) = Some (Ret ns, (dev, w0))"
    using assms(6) by (simp add: lookup_namespace_def mbind_run)
  ultimately have "fill_ns hw ops (dev, w) = Some (Ret (), (dev', w'))"
    using assms(2) by (simp add: fill_ns_def Let_def mexpect_def mbind_run)
  then show ?thesis using \<open>filled _ _ _ _ _ _\<close> \<open>unat (?B - 4609) \<le> 4096 * k\<close> \<open>0 < k \<longrightarrow> _\<close> B assms(7)
    by (intro exI [of _ k] exI [of _ dev'] exI [of _ w']) (cases k, auto)
qed

theorem fill_ns_fills_witness:
  "\<exists>dev' w'. fill_ns store_hw demo_ops (demo_dev\<lparr>namespaces := [1 \<mapsto> \<lparr>ns_ident = 1, ns_blocks = 10000, ns_block_size = 512\<rparr>]\<rparr>,
        blank_world (\<lambda>_. 7, 0)) = Some (Ret (), (dev', w'))
    \<and> fst (wdev w') (512 * 8191) = 0 \<and> fst (wdev w') (512 * 8192) = 7"
proof -
  let ?dev = "demo_dev\<lparr>namespaces := [1 \<mapsto> \<lparr>ns_ident = 1, ns_blocks = 10000, ns_block_size = 512\<rparr>]\<rparr>"
  let ?w = "blank_world (\<lambda>_. 7, 0) :: (disk \<times> nat) world" and ?d = "\<lparr>virt = 0x1000000, phys = 0x1000000, dsize = 2097152\<rparr>"
  let ?ns = "\<lparr>ns_ident = 1, ns_blocks = 10000, ns_block_size = 512\<rparr> :: nvme_namespace"
  have a: "op_allocate demo_ops (allocator ?dev) PAGESIZE_2MIB ?w = Some (Ret ?d, ?w)" by (simp add: demo_ops_def)
  have m: "dma_mapped (\<lambda>x. x) ring_memory ?d"
    by (auto simp: dma_mapped_def region_def ring_memory_def demo_rings in_addr_range)
  have "doorbell ?dev = doorbell demo_dev" by (simp add: doorbell_def fun_eq_iff)
  then have st: "io_store store_hw ?dev (\<lambda>x. x) ring_memory fst store_state" using store_hw_stores by simp
  have "store_state (io_sq ?dev) (io_cq ?dev) ?w"
    by (simp add: blank_world_def ring_state_def demo_dev_def demo_ring_def demo_cring_def sq_inv_def cq_consumed_def cq_inv_def phase_of_def)
  from fill_ns_fills [OF a _ m st this, of ?ns] obtain k dev' w' where
      f: "fill_ns store_hw demo_ops (?dev, ?w) = Some (Ret (), (dev', w'))"
      "filled (fst (wdev ?w)) (wmem ?w) ?d 0 (512 * (4096 * k)) (fst (wdev w'))" "5391 \<le> 4096 * k" "4096 * k < 9487"
    by auto
  have "\<not> k \<le> 1" "\<not> 3 \<le> k" using f(3,4) by linarith+
  then have "k = 2" by simp
  then show ?thesis using f(1,2) by (auto simp: filled_def blank_world_def)
qed

subsection \<open>Measurements end\<close>

text \<open>
  A controller whose commands take time: \<open>clk\<close> is the time of a world; the difference between the
  time and the number of commands never falls, and the clock the program reads never goes back.
\<close>

definition timed_service :: "'d hw \<Rightarrow> 'm nvme_device \<Rightarrow> 'd service \<Rightarrow> ('d world \<Rightarrow> nat) \<Rightarrow> bool" where
  "timed_service hw dev I clk \<longleftrightarrow>
     (\<forall>t c. io_service hw dev (\<lambda>cs sq cq w. I cs sq cq w \<and> t + length cs \<le> clk w + c))
   \<and> (\<forall>cs sq cq w t w'. I cs sq cq w \<longrightarrow> hw_now hw w = (t, w') \<longrightarrow> I cs sq cq w' \<and> clk w \<le> t \<and> t \<le> clk w')"

text \<open>A source of random numbers that stays in its range.\<close>

definition draws :: "'d rng \<Rightarrow> 'd service \<Rightarrow> bool" where
  "draws gen I \<longleftrightarrow> (\<forall>lo hi cs sq cq w x w'. lo < hi \<longrightarrow> I cs sq cq w \<longrightarrow> gen lo hi w = (x, w') \<longrightarrow>
     lo \<le> x \<and> x < hi \<and> I cs sq cq w')"

lemma small_transfer_served:
  assumes "io_service hw dev I" and "I cs (io_sq dev) (io_cq dev) w" and "dsize d = 4096"
  shows "\<exists>e c w'. (if write then nvme_write hw d lba else nvme_read hw d lba) (dev, w) = Some (Ret (), (dev_io e c dev, w'))
    \<and> I (cs @ [e]) (io_sq (dev_io e c dev)) (io_cq (dev_io e c dev)) w' \<and> io_lba e = lba \<and> io_blocks e = 8
    \<and> opcode e = (if write then 1 else 2) \<and> d_ptr e = (phys d, 0)"
proof -
  let ?ch = "nth_chunk d 8192 0"
  have "chunk_count 8192 4096 = 1" by (simp add: chunk_count_def)
  then have cs: "dma_chunks_collect (chunks d (2 * 4096)) = Some [?ch]"
    using dma_chunks_collect_at [of 8192 0 d] assms(3) by (simp add: chunks_def)
  have b: "blocks_of (chunk_len ?ch) = 8" by (simp add: nth_chunk_def assms(3) blocks_of_def)
  define e where "e = namespace_entry dev 1 8 lba (phys_addr ?ch) write"
  have "(0 :: u64) < 8" "(8 :: u64) \<le> 0x10000" by simp_all
  from namespace_io_served [OF assms(1,2) this e_def] obtain c w' where
      r: "namespace_io hw 1 8 lba (phys_addr ?ch) write (dev, w) = Some (Ret (), (dev_io e c dev, w'))"
      "I (cs @ [e]) (io_sq (dev_io e c dev)) (io_cq (dev_io e c dev)) w'"
    by blast
  then have "mfold (transfer_chunk hw write) [?ch] lba (dev, w) = Some (Ret (lba + 8), (dev_io e c dev, w'))"
    by (simp add: transfer_chunk_def b Let_def mbind_Ret mbind_assoc)
  then have "(if write then nvme_write hw d lba else nvme_read hw d lba) (dev, w) = Some (Ret (), (dev_io e c dev, w'))"
    using cs by (cases "write") (simp_all add: nvme_write_def nvme_read_def for_chunks_def mbind_run del: mfold.simps)
  moreover have "io_lba e = lba \<and> io_blocks e = 8"
    by (cases "write") (simp_all add: e_def namespace_entry_def io_entry_def)
  moreover have "opcode e = (if write then 1 else 2) \<and> d_ptr e = (phys d, 0)"
    by (simp add: e_def namespace_entry_def io_entry_def namespace_ptr_def nth_chunk_def cmd_io_read_def cmd_io_write_def)
  ultimately show ?thesis using r(2) by blast
qed

lemma timed_request_served:
  assumes "timed_service hw dev I clk" and "I cs (io_sq dev) (io_cq dev) w" and "4096 \<le> dsize d"
  shows "\<exists>el e dev' w'. timed_request hw d write l (dev, w) = Some (Ret el, (dev', w')) \<and> 1 \<le> el
    \<and> timed_service hw dev' I clk \<and> I (cs @ [e]) (io_sq dev') (io_cq dev') w' \<and> io_lba e = l * 8 \<and> io_blocks e = 8
    \<and> opcode e = (if write then 1 else 2) \<and> d_ptr e = (phys d, 0)"
proof -
  obtain t1 w1 where n1: "hw_now hw w = (t1, w1)" by fastforce
  then have 1: "I cs (io_sq dev) (io_cq dev) w1" "t1 \<le> clk w1" using assms(1,2) by (auto simp: timed_service_def)
  let ?d = "\<lparr>virt = virt d, phys = phys d, dsize = 4096\<rparr>"
  let ?I = "\<lambda>cs' sq cq w. I cs' sq cq w \<and> t1 + length cs' \<le> clk w + length cs"
  have "io_service hw dev ?I" using assms(1) unfolding timed_service_def by blast
  moreover have "?I cs (io_sq dev) (io_cq dev) w1" using 1 by simp
  ultimately obtain e c w2 where
      2: "(if write then nvme_write hw ?d (l * 8) else nvme_read hw ?d (l * 8)) (dev, w1) = Some (Ret (), (dev_io e c dev, w2))"
      "?I (cs @ [e]) (io_sq (dev_io e c dev)) (io_cq (dev_io e c dev)) w2" "io_lba e = l * 8" "io_blocks e = 8"
      "opcode e = (if write then 1 else 2)" "d_ptr e = (phys d, 0)"
    using small_transfer_served [of hw dev ?I cs w1 ?d "write" "l * 8"] by auto
  obtain t2 w3 where n2: "hw_now hw w2 = (t2, w3)" by fastforce
  then have 3: "I (cs @ [e]) (io_sq (dev_io e c dev)) (io_cq (dev_io e c dev)) w3" "clk w2 \<le> t2"
    using assms(1) 2(2) unfolding timed_service_def by blast+
  have "timed_service hw (dev_io e c dev) I clk" using assms(1) by (simp add: timed_service_def)
  moreover have "timed_request hw d write l (dev, w) = Some (Ret (t2 - t1), (dev_io e c dev, w3))"
    using n1 n2 2(1) assms(3) by (simp add: timed_request_def instant_now_def dma_slice_def mbind_Ret)
  moreover have "Suc t1 \<le> clk w2" using 2(2) by simp
  then have "1 \<le> t2 - t1" using 3(2) by linarith
  ultimately show ?thesis using 3(1) 2(3-6) by blast
qed

lemma next_lba_in_range:
  assumes "draws gen I" and "I cs sq cq w" and "0 < n"
  shows "\<exists>l w'. next_lba gen random n lba (dev, w) = Some (Ret l, (dev, w')) \<and> l < n \<and> I cs sq cq w'
    \<and> (\<not> random \<longrightarrow> l = (lba + 1) mod n)"
proof (cases random)
  case True
  obtain x w' where g: "gen 0 n w = (x, w')" by fastforce
  then have "x < n" "I cs sq cq w'" using assms unfolding draws_def by blast+
  then show ?thesis using True assms(3) g by (simp add: next_lba_def world_call_def)
next
  case False
  moreover have "(lba + 1) mod n < n" using assms(3) by (simp add: word_less_nat_alt unat_mod_word)
  ultimately show ?thesis using assms(2,3) by (auto simp: next_lba_def)
qed

text \<open>What a run of the loop adds: latencies and commands.\<close>

definition measured :: "bool \<Rightarrow> dma \<Rightarrow> bool \<Rightarrow> bool \<Rightarrow> u64 \<Rightarrow> nat \<Rightarrow> nat \<Rightarrow> u64 \<Rightarrow> nat list \<Rightarrow> nvme_command list \<Rightarrow> bool" where
  "measured write d keep random n duration spent lba ls cmds \<longleftrightarrow>
     length cmds = length ls \<and> duration \<le> spent + sum_list ls \<and> (\<forall>l\<in>set ls. 1 \<le> l)
   \<and> (ls \<noteq> [] \<longrightarrow> spent + sum_list (butlast ls) < duration)
   \<and> (\<forall>e\<in>set cmds. io_blocks e = 8 \<and> (\<exists>l < n. io_lba e = l * 8)
        \<and> opcode e = (if write then 1 else 2) \<and> d_ptr e = (phys d, 0))
   \<and> (\<not> random \<and> \<not> keep \<longrightarrow> (\<forall>e\<in>set cmds. io_lba e = (lba + 1) mod n * 8))"

lemma qd_1_loop_ends:
  assumes "draws gen I" and "0 < n" and "4096 \<le> dsize d"
    and "timed_service hw dev I clk" and "I cs (io_sq dev) (io_cq dev) w"
  shows "\<exists>ls' cmds dev' w'. qd_1_loop hw gen d keep write random n duration spent lba ls (dev, w) = Some (Ret (ls @ ls'), (dev', w'))
    \<and> I (cs @ cmds) (io_sq dev') (io_cq dev') w' \<and> measured write d keep random n duration spent lba ls' cmds"
  using assms(4,5)
proof (induction "duration - spent" arbitrary: spent lba ls dev w cs rule: less_induct)
  case less
  show ?case
  proof (cases "spent < duration")
    case False
    then show ?thesis using less.prems
      by (subst qd_1_loop.simps, intro exI [of _ "[]"] exI [of _ "[]"] exI [of _ dev] exI [of _ w]) (simp add: measured_def)
  next
    case True
    obtain l w1 where 1: "next_lba gen random n lba (dev, w) = Some (Ret l, (dev, w1))" "l < n"
        "I cs (io_sq dev) (io_cq dev) w1" "\<not> random \<longrightarrow> l = (lba + 1) mod n"
      using next_lba_in_range [OF assms(1) less.prems(2) assms(2), of random lba dev] by blast
    obtain el e dev2 w2 where 2: "timed_request hw d write l (dev, w1) = Some (Ret el, (dev2, w2))" "1 \<le> el"
        "timed_service hw dev2 I clk" "I (cs @ [e]) (io_sq dev2) (io_cq dev2) w2" "io_lba e = l * 8" "io_blocks e = 8"
        "opcode e = (if write then 1 else 2)" "d_ptr e = (phys d, 0)"
      using timed_request_served [OF less.prems(1) 1(3) assms(3)] by blast
    let ?lba = "if keep then l else lba"
    have "duration - (spent + el) < duration - spent" using True 2(2) by simp
    from less.hyps [OF this 2(3,4), of ?lba "ls @ [el]"] obtain ls' cmds dev' w' where 3:
        "qd_1_loop hw gen d keep write random n duration (spent + el) ?lba (ls @ [el]) (dev2, w2)
           = Some (Ret ((ls @ [el]) @ ls'), (dev', w'))"
        "I ((cs @ [e]) @ cmds) (io_sq dev') (io_cq dev') w'"
        "measured write d keep random n duration (spent + el) ?lba ls' cmds"
      by blast
    have "qd_1_loop hw gen d keep write random n duration spent lba ls (dev, w) = Some (Ret (ls @ el # ls'), (dev', w'))"
      using True 1(1) 2(1) 3(1) by (subst qd_1_loop.simps) (simp add: mbind_Ret)
    moreover have "measured write d keep random n duration spent lba (el # ls') (e # cmds)"
      using 3(3) 1(2,4) 2(2,5-8) True by (auto simp: measured_def)
    ultimately show ?thesis using 3(2) by (intro exI [of _ "el # ls'"] exI [of _ "e # cmds"]) auto
  qed
qed

text \<open>
  C16. The measurements with one request at a time, on a namespace of \<open>B \<ge> 16\<close> blocks, when requests
  take time: the loop ends as soon as the time spent reaches the duration; it has issued one
  command per latency it reports, each of which reads or writes eight blocks, aligned to eight and
  within the namespace, from or to the first page of the buffer. Without random numbers, the loop of
  \<^verbatim>\<open>throughput.rs\<close> reads or writes the same blocks in every round.
\<close>

theorem qd_1_loop_measures:
  assumes "timed_service hw dev I clk" and "I cs (io_sq dev) (io_cq dev) w" and "draws gen I"
    and "4096 \<le> dsize d" and "16 \<le> unat B"
  shows "\<exists>ls cmds dev' w'. qd_1_loop hw gen d keep write random (B div 8 - 1) duration 0 lba [] (dev, w) = Some (Ret ls, (dev', w'))
    \<and> I (cs @ cmds) (io_sq dev') (io_cq dev') w' \<and> length cmds = length ls
    \<and> duration \<le> sum_list ls \<and> (ls \<noteq> [] \<longrightarrow> sum_list (butlast ls) < duration)
    \<and> (\<forall>e\<in>set cmds. io_blocks e = 8 \<and> unat (io_lba e) + 8 \<le> unat B \<and> unat (io_lba e) mod 8 = 0
         \<and> opcode e = (if write then 1 else 2) \<and> d_ptr e = (phys d, 0))
    \<and> (\<not> random \<and> \<not> keep \<longrightarrow> (\<forall>e\<in>set cmds. \<forall>e'\<in>set cmds. io_lba e = io_lba e'))"
proof -
  let ?n = "B div 8 - 1"
  have "1 \<le> B div 8" using assms(5) by (simp add: word_le_nat_alt unat_div)
  then have n: "unat ?n = unat B div 8 - 1" by (simp add: unat_diff_word unat_div)
  then have "0 < ?n" using assms(5) by (simp add: word_less_nat_alt)
  from qd_1_loop_ends [OF assms(3) this assms(4,1,2)]
  obtain ls cmds dev' w' where r:
      "qd_1_loop hw gen d keep write random ?n duration 0 lba [] (dev, w) = Some (Ret ls, (dev', w'))"
      "I (cs @ cmds) (io_sq dev') (io_cq dev') w'" "measured write d keep random ?n duration 0 lba ls cmds"
    by (metis append_Nil)
  have "unat (io_lba e) + 8 \<le> unat B \<and> unat (io_lba e) mod 8 = 0" if e: "e \<in> set cmds" for e
  proof -
    obtain l where l: "l < ?n" "io_lba e = l * 8" "io_blocks e = 8" using r(3) e by (auto simp: measured_def)
    have "unat l < unat B div 8 - 1" using l(1) n by (simp add: word_less_nat_alt)
    then have le: "unat l * 8 + 8 \<le> unat B" by linarith
    then have "unat (l * 8) = unat l * 8" using unat_less_2p64 [of B] by (subst unat_mult_no_wrap) (simp_all del: unat_less_2p64)
    then show ?thesis using le l(2,3) by simp
  qed
  then show ?thesis using r by (intro exI [of _ ls] exI [of _ cmds] exI [of _ dev'] exI [of _ w']) (auto simp: measured_def)
qed

text \<open>A controller whose clock counts the commands.\<close>

definition clock_hw :: "nvme_command list hw" where
  "clock_hw = demo_io_hw\<lparr>hw_now := \<lambda>w. (length (wdev w), w)\<rparr>"

lemma clock_hw_timed: "timed_service clock_hw demo_dev (sync_state (io_sq demo_dev) (io_cq demo_dev)) (\<lambda>w. length (wdev w))"
proof -
  let ?I = "sync_state (io_sq demo_dev) (io_cq demo_dev)"
  have "io_service clock_hw demo_dev (\<lambda>cs sq cq w. ?I cs sq cq w \<and> t + length cs \<le> length (wdev w) + c)" for t c
  proof -
    have "(\<lambda>cs sq cq w. ?I cs sq cq w \<and> t + length cs \<le> length (wdev w) + c) = (\<lambda>cs sq cq w. ?I cs sq cq w \<and> t \<le> c)"
      by (intro ext) (auto simp: sync_state_def)
    moreover have "io_service clock_hw demo_dev ?I"
      using demo_io_serves by (simp add: clock_hw_def serves_def answered_def sq_rung_def cq_rung_def)
    ultimately show ?thesis by (cases "t \<le> c") (simp_all add: serves_def)
  qed
  then show ?thesis by (auto simp: timed_service_def clock_hw_def)
qed

theorem qd_1_loop_measures_witness:
  "\<exists>ls dev' w'. qd_1_loop clock_hw (\<lambda>lo hi w. (lo, w)) \<lparr>virt = 0x1000000, phys = 0x1000000, dsize = 4096\<rparr> True False False
        (10000 div 8 - 1) 3 0 0 [] (demo_dev, blank_world []) = Some (Ret ls, (dev', w'))
    \<and> 3 \<le> sum_list ls \<and> (\<forall>e\<in>set (wdev w'). io_blocks e = 8 \<and> unat (io_lba e) + 8 \<le> 10000)"
proof -
  let ?I = "sync_state (io_sq demo_dev) (io_cq demo_dev)" and ?d = "\<lparr>virt = 0x1000000, phys = 0x1000000, dsize = 4096\<rparr>"
  have "draws (\<lambda>lo hi w. (lo, w)) ?I" by (auto simp: draws_def)
  from qd_1_loop_measures [where B = 10000 and d = ?d, OF clock_hw_timed demo_dev_state(2) this, of True False False 3 0]
  obtain ls cmds dev' w' where r:
      "qd_1_loop clock_hw (\<lambda>lo hi w. (lo, w)) ?d True False False (10000 div 8 - 1) 3 0 0 [] (demo_dev, blank_world []) = Some (Ret ls, (dev', w'))"
      "?I ([] @ cmds) (io_sq dev') (io_cq dev') w'" "3 \<le> sum_list ls" "\<forall>e\<in>set cmds. io_blocks e = 8 \<and> unat (io_lba e) + 8 \<le> 10000"
    by auto
  then show ?thesis by (auto simp: sync_state_def)
qed

end
