(* ===== verification/Copied.thy ===== *)
theory Copied
  imports Examples
begin

text \<open>
  The round trip of data through the buffer of the device: \<^verbatim>\<open>write_copied\<close> and \<^verbatim>\<open>read_copied\<close> of
  \<^verbatim>\<open>src/src/nvme.rs\<close> for up to two pages, and the example \<^verbatim>\<open>hello_world.rs\<close>, which is built on them. A
  command moves whole blocks, so what lies behind the data in the buffer goes to the disk too.
\<close>

text \<open>The bytes of the blocks that \<open>n\<close> bytes occupy.\<close>

definition padded :: "nat \<Rightarrow> nat" where
  "padded n = 512 * ((n + 511) div 512)"

text \<open>A copy of \<open>n\<close> bytes that one command carries out: at most two pages, in blocks of 512 bytes that fit
  the buffer, which the controller reaches.\<close>

definition copy_setting :: "(u64 \<Rightarrow> usize) \<Rightarrow> usize set \<Rightarrow> 'm nvme_device \<Rightarrow> u64 \<Rightarrow> nat \<Rightarrow> bool" where
  "copy_setting tr S dev lba n \<longleftrightarrow> (\<exists>ns. namespaces dev 1 = Some ns \<and> ns_block_size ns = 512) \<and> dma_mapped tr S (buffer dev)
     \<and> 0 < n \<and> n \<le> 8192 \<and> padded n \<le> unat (dsize (buffer dev)) \<and> unat lba + padded n div 512 \<le> 2 ^ 64"

lemma padded_bounds: "n \<le> padded n" "n \<le> 8192 \<Longrightarrow> padded n \<le> 8192" "0 < n \<Longrightarrow> 0 < padded n" "512 dvd padded n"
  by (simp_all add: padded_def)

lemma padded_mono: "n \<le> k \<Longrightarrow> padded n \<le> padded k"
  by (simp add: padded_def div_le_mono)

lemma copy_setting_less: "copy_setting tr S dev lba k \<Longrightarrow> 0 < n \<Longrightarrow> n \<le> k \<Longrightarrow> copy_setting tr S dev lba n"
  using padded_mono [of n k] div_le_mono [of "padded n" "padded k" 512] by (auto simp: copy_setting_def)

lemma slice_chunks_single:
  assumes "0 < length xs" and "length xs \<le> n"
  shows "slice_chunks n xs = [xs]"
proof -
  have "n \<noteq> 0" using assms by linarith
  moreover have "xs \<noteq> []" using assms by simp
  ultimately show ?thesis using assms(2) slice_chunks.simps [of n xs] slice_chunks.simps [of n "[]"] by simp
qed

text \<open>The number of blocks that the code computes.\<close>

lemma copy_blocks:
  assumes "length xs \<le> 8192"
  shows "checked_div (511 + len_u64 xs) 512 s = Some (Ret (blocks_of (of_nat (padded (length xs)))), s)"
proof -
  let ?n = "length xs"
  have n: "unat (of_nat k + 511 :: u64) = k + 511" if "k \<le> 8192" for k
    using that by (subst unat_add_no_wrap) (simp_all add: unat_of_nat_u64)
  have "(of_nat ?n + 511 :: u64) div 512 = (of_nat (padded ?n) + 511) div 512"
    using n [of ?n] n [of "padded ?n"] assms padded_bounds(2) [OF assms]
    by (intro iffD2 [OF word_unat_eq_iff]) (simp add: unat_div padded_def)
  then show ?thesis by (simp add: checked_div_def len_u64_def blocks_of_def add.commute [of 511])
qed

subsection \<open>One command\<close>

lemma buffer_io_stored:
  assumes "io_store hw dev tr S disk J" and "J (io_sq dev) (io_cq dev) w" and "copy_setting tr S dev lba n"
  shows "\<exists>e c w'. namespace_io hw 1 (blocks_of (of_nat (padded n))) lba (phys (buffer dev)) write (dev, w)
      = Some (Ret (), (dev_io e c dev, w'))
    \<and> io_store hw (dev_io e c dev) tr S disk J \<and> J (io_sq (dev_io e c dev)) (io_cq (dev_io e c dev)) w'
    \<and> moved write S disk (buffer dev) (512 * unat lba) (padded n) w w'"
proof -
  let ?d = "(buffer dev)\<lparr>dsize := of_nat (padded n)\<rparr>"
  have N: "0 < padded n" "padded n \<le> 8192" "padded n \<le> unat (dsize (buffer dev))"
    using assms(3) padded_bounds [of n] by (auto simp: copy_setting_def)
  have size: "unat (dsize ?d) = padded n" using N(2) by (simp add: unat_of_nat_u64)
  have "region ?d \<subseteq> region (buffer dev)" using N(3) size by (auto simp: region_def addr_range_def)
  then have d: "whole_blocks tr S ?d lba"
    using assms(3) N(3) size padded_bounds(4) by (auto simp: whole_blocks_def dma_mapped_def copy_setting_def)
  have one: "0 < chunk_count 8192 (unat (dsize ?d))" using N(1) size by (simp add: chunk_count_less)
  have min: "padded n = min 8192 (unat (dsize ?d) - 8192 * 0)" using N(2) size by simp
  show ?thesis
    using chunk_io_stored [OF assms(1,2) d one min refl refl, of "write"] by (fastforce simp: Let_def moved_def)
qed

text \<open>Through the buffer to the disk, with what lies behind the data in the buffer.\<close>

definition behind :: "'m nvme_device \<Rightarrow> memory \<Rightarrow> nat \<Rightarrow> u8 list" where
  "behind dev m n = mem_read m (virt (buffer dev) + of_nat n) (padded n - n)"

lemma buffer_after_copy:
  assumes "length data \<le> 8192"
  shows "mem_read (mem_write m (virt (buffer dev)) data) (virt (buffer dev)) (padded (length data)) = data @ behind dev m (length data)"
proof -
  let ?n = "length data" and ?N = "padded (length data)" and ?v = "virt (buffer dev)"
  have b: "?n \<le> ?N" "?N \<le> 8192" using padded_bounds(1,2) assms by auto
  have "mem_read (mem_write m ?v data) (?v + of_nat ?n) (?N - ?n) = mem_read m (?v + of_nat ?n) (?N - ?n)"
  proof (rule mem_read_cong)
    fix i assume "i < ?N - ?n"
    then have "unat (?v + of_nat ?n + of_nat i - ?v) = ?n + i"
      using b unat_of_nat_u64 [of "?n + i"] by (simp add: algebra_simps)
    then show "mem_write m ?v data (?v + of_nat ?n + of_nat i) = m (?v + of_nat ?n + of_nat i)" by (simp add: mem_write_def)
  qed
  then show ?thesis
    using b mem_read_add [of "mem_write m ?v data" ?v ?n "?N - ?n"] by (simp add: behind_def mem_read_write_exact)
qed

lemma write_copied_stored:
  assumes "io_store hw dev tr S disk J" and "J (io_sq dev) (io_cq dev) w" and "copy_setting tr S dev lba (length data)"
  shows "\<exists>e c w'. write_copied hw data lba (dev, w) = Some (Ret (), (dev_io e c dev, w'))
    \<and> io_store hw (dev_io e c dev) tr S disk J \<and> J (io_sq (dev_io e c dev)) (io_cq (dev_io e c dev)) w'
    \<and> disk (wdev w') = disk_write (disk (wdev w)) (512 * unat lba) (data @ behind dev (wmem w) (length data))
    \<and> (\<forall>x. x \<notin> S \<longrightarrow> wmem w' x = mem_write (wmem w) (virt (buffer dev)) data x)"
proof -
  let ?n = "length data" and ?v = "virt (buffer dev)"
  define w1 where "w1 = w\<lparr>wmem := mem_write (wmem w) ?v data\<rparr>"
  obtain ns where ns: "namespaces dev 1 = Some ns" "ns_block_size ns = 512" using assms(3) by (auto simp: copy_setting_def)
  have n: "0 < ?n" "?n \<le> 8192" "?n \<le> unat (dsize (buffer dev))" "region (buffer dev) \<inter> S = {}"
    using assms(3) padded_bounds(1) [of ?n] by (auto simp: copy_setting_def dma_mapped_def)
  have fits: "len_u64 data \<le> dsize (buffer dev)" using n by (simp add: len_u64_def word_le_nat_alt unat_of_nat_u64)
  then have "\<forall>x\<in>S. mem_write (wmem w) ?v data x = wmem w x" using n mem_write_region [OF fits] by fastforce
  then have "J (io_sq dev) (io_cq dev) w1" using assms(1,2) unfolding stores_def w1_def by blast
  from buffer_io_stored [OF assms(1) this assms(3), of True] obtain e c w' where
      r: "namespace_io hw 1 (blocks_of (of_nat (padded ?n))) lba (phys (buffer dev)) True (dev, w1) = Some (Ret (), (dev_io e c dev, w'))"
      "io_store hw (dev_io e c dev) tr S disk J" "J (io_sq (dev_io e c dev)) (io_cq (dev_io e c dev)) w'"
      "moved True S disk (buffer dev) (512 * unat lba) (padded ?n) w1 w'" by blast
  have "buffer_store data (dev, w) = Some (Ret (), (dev, w1))"
    using fits by (simp add: buffer_store_def dma_index_to_def dma_index_range_def mbind_run w1_def)
  then have "write_copied hw data lba (dev, w) = Some (Ret (), (dev_io e c dev, w'))"
    using ns n r(1) by (simp add: write_copied_def lookup_namespace_def copy_blocks [OF n(2)] slice_chunks_single mbind_run)
  moreover have "disk (wdev w') = disk_write (disk (wdev w)) (512 * unat lba) (data @ behind dev (wmem w) ?n)"
      "\<forall>x. x \<notin> S \<longrightarrow> wmem w' x = mem_write (wmem w) ?v data x"
    using r(4) by (simp_all add: moved_def w1_def buffer_after_copy [OF n(2)])
  ultimately show ?thesis using r(2,3) by blast
qed

lemma read_copied_stored:
  assumes "io_store hw dev tr S disk J" and "J (io_sq dev) (io_cq dev) w" and "copy_setting tr S dev lba (length dest)"
  shows "\<exists>e c w'. read_copied hw dest lba (dev, w)
      = Some (Ret (disk_read (disk (wdev w)) (512 * unat lba) (length dest)), (dev_io e c dev, w'))
    \<and> disk (wdev w') = disk (wdev w) \<and> (\<forall>x. x \<notin> S \<union> region (buffer dev) \<longrightarrow> wmem w' x = wmem w x)"
proof -
  let ?n = "length dest" and ?v = "virt (buffer dev)" and ?L = "512 * unat lba" and ?D = "disk (wdev w)"
  let ?N = "padded (length dest)"
  obtain ns where ns: "namespaces dev 1 = Some ns" "ns_block_size ns = 512" using assms(3) by (auto simp: copy_setting_def)
  have n: "0 < ?n" "?n \<le> 8192" "?n \<le> ?N" "?N \<le> 8192" "?N \<le> unat (dsize (buffer dev))" "region (buffer dev) \<inter> S = {}"
    using assms(3) padded_bounds(1,2) [of ?n] by (auto simp: copy_setting_def dma_mapped_def)
  from buffer_io_stored [OF assms, of False] obtain e c w' where
      r: "namespace_io hw 1 (blocks_of (of_nat ?N)) lba (phys (buffer dev)) False (dev, w) = Some (Ret (), (dev_io e c dev, w'))"
      "moved False S disk (buffer dev) ?L ?N w w'" by blast
  have mem: "wmem w' x = mem_write (wmem w) ?v (disk_read ?D ?L ?N) x" if "x \<notin> S" for x using r(2) that by (simp add: moved_def)
  have "mem_read (wmem w') ?v ?N = mem_read (mem_write (wmem w) ?v (disk_read ?D ?L ?N)) ?v ?N"
  proof (rule mem_read_cong)
    fix i assume "i < ?N"
    then have "?v + of_nat i \<notin> S" using n(5,6) region_offset [of i "buffer dev"] by auto
    then show "wmem w' (?v + of_nat i) = mem_write (wmem w) ?v (disk_read ?D ?L ?N) (?v + of_nat i)" by (rule mem)
  qed
  then have "mem_read (wmem w') ?v ?N = disk_read ?D ?L ?N" using n by (simp add: mem_read_write_exact)
  then have "mem_read (wmem w') ?v ?n = disk_read ?D ?L ?n"
    using n(3) by (simp add: mem_read_prefix [OF n(3)] disk_read_def take_map)
  moreover have "(of_nat ?n :: usize) \<le> dsize (buffer dev)" using n by (simp add: word_le_nat_alt unat_of_nat_u64)
  ultimately have "buffer_load ?n (dev_io e c dev, w') = Some (Ret (disk_read ?D ?L ?n), (dev_io e c dev, w'))"
    by (simp add: buffer_load_def dma_index_to_def dma_index_range_def mbind_run)
  then have "read_copied hw dest lba (dev, w) = Some (Ret (disk_read ?D ?L ?n), (dev_io e c dev, w'))"
    using ns n r(1) by (simp add: read_copied_def lookup_namespace_def copy_blocks [OF n(2)] slice_chunks_single mbind_run)
  moreover have "wmem w' x = wmem w x" if "x \<notin> S \<union> region (buffer dev)" for x
    using mem [of x] that n(5) by (simp add: mem_write_def region_def addr_range_def)
  ultimately show ?thesis using r(2) by (auto simp: moved_def)
qed

subsection \<open>The round trip\<close>

lemma write_copied_read_back:
  assumes "io_store hw dev tr S disk J" and "J (io_sq dev) (io_cq dev) w" and "copy_setting tr S dev lba (length data)"
    and "0 < length dest" and "length dest \<le> padded (length data)"
  shows "\<exists>dev1 w1. write_copied hw data lba (dev, w) = Some (Ret (), (dev1, w1))
    \<and> (\<forall>b. b < 512 * unat lba \<or> 512 * unat lba + padded (length data) \<le> b \<longrightarrow> disk (wdev w1) b = disk (wdev w) b)
    \<and> (\<forall>m. (\<forall>x\<in>S. m x = wmem w1 x) \<longrightarrow>
         (\<exists>dev2 w2. read_copied hw dest lba (dev1, w1\<lparr>wmem := m\<rparr>)
              = Some (Ret (take (length dest) (data @ behind dev (wmem w) (length data))), (dev2, w2))
            \<and> (\<forall>x. x \<notin> S \<union> region (buffer dev) \<longrightarrow> wmem w2 x = m x) \<and> disk (wdev w2) = disk (wdev w1)))"
proof -
  let ?L = "512 * unat lba" and ?bs = "data @ behind dev (wmem w) (length data)"
  have len: "length ?bs = padded (length data)" using padded_bounds(1) by (simp add: behind_def mem_read_def)
  obtain e c w1 where 1: "write_copied hw data lba (dev, w) = Some (Ret (), (dev_io e c dev, w1))"
      "io_store hw (dev_io e c dev) tr S disk J" "J (io_sq (dev_io e c dev)) (io_cq (dev_io e c dev)) w1"
      "disk (wdev w1) = disk_write (disk (wdev w)) ?L ?bs"
    using write_copied_stored [OF assms(1-3)] by blast
  have "padded (length data) \<le> 8192" using assms(3) padded_bounds(2) by (auto simp: copy_setting_def)
  moreover have "padded (length dest) \<le> padded (length data)"
    using padded_mono [OF assms(5)] by (simp add: padded_def)
  moreover from this have "padded (length dest) div 512 \<le> padded (length data) div 512" by (rule div_le_mono)
  ultimately have set: "copy_setting tr S (dev_io e c dev) lba (length dest)"
    using assms(3-5) by (auto simp: copy_setting_def)
  have read: "\<exists>dev2 w2. read_copied hw dest lba (dev_io e c dev, w1\<lparr>wmem := m\<rparr>) = Some (Ret (take (length dest) ?bs), (dev2, w2))
      \<and> (\<forall>x. x \<notin> S \<union> region (buffer dev) \<longrightarrow> wmem w2 x = m x) \<and> disk (wdev w2) = disk (wdev w1)"
    if m: "\<forall>x\<in>S. m x = wmem w1 x" for m
  proof -
    have "J (io_sq (dev_io e c dev)) (io_cq (dev_io e c dev)) (w1\<lparr>wmem := m\<rparr>)" using 1(2,3) m unfolding stores_def by blast
    from read_copied_stored [OF 1(2) this set] obtain e2 c2 w2 where
        2: "read_copied hw dest lba (dev_io e c dev, w1\<lparr>wmem := m\<rparr>)
          = Some (Ret (disk_read (disk (wdev w1)) ?L (length dest)), (dev_io e2 c2 (dev_io e c dev), w2))"
        "disk (wdev w2) = disk (wdev w1)" "\<forall>x. x \<notin> S \<union> region (buffer dev) \<longrightarrow> wmem w2 x = m x" by auto
    have "disk_read (disk (wdev w1)) ?L (length dest) = take (length dest) (disk_read (disk (wdev w1)) ?L (length ?bs))"
      using assms(5) unfolding len by (simp add: disk_read_def take_map)
    then have "disk_read (disk (wdev w1)) ?L (length dest) = take (length dest) ?bs" by (simp only: 1(4) disk_read_write)
    then show ?thesis using 2 by auto
  qed
  moreover have "disk (wdev w1) b = disk (wdev w) b" if "b < ?L \<or> ?L + padded (length data) \<le> b" for b
    using that len by (auto simp: 1(4) disk_write_def)
  ultimately show ?thesis using 1(1) by blast
qed

text \<open>
  C10. Data of at most two pages survives a round trip through the buffer of the device. On a controller
  that carries out reads and writes, \<^verbatim>\<open>write_copied\<close> returns; it changes only the blocks that the data
  occupies; then memory may change in any way outside the rings; \<^verbatim>\<open>read_copied\<close> of up to as many whole
  blocks returns and gives the data, followed by what had been in the buffer behind it when it was
  written, and changes no memory but the buffer and the rings.
\<close>

theorem copied_data_read_back:
  assumes "io_store hw dev tr S disk J" and "J (io_sq dev) (io_cq dev) w" and "copy_setting tr S dev lba (length data)"
    and "0 < length dest" and "length dest \<le> padded (length data)"
  shows "\<exists>dev1 w1. write_copied hw data lba (dev, w) = Some (Ret (), (dev1, w1))
    \<and> (\<forall>b. b < 512 * unat lba \<or> 512 * unat lba + padded (length data) \<le> b \<longrightarrow> disk (wdev w1) b = disk (wdev w) b)
    \<and> (\<forall>m. (\<forall>x\<in>S. m x = wmem w1 x) \<longrightarrow>
         (\<exists>dev2 w2. read_copied hw dest lba (dev1, w1\<lparr>wmem := m\<rparr>)
              = Some (Ret (take (length dest) (data @ behind dev (wmem w) (length data))), (dev2, w2))
            \<and> (\<forall>x. x \<notin> S \<union> region (buffer dev) \<longrightarrow> wmem w2 x = m x) \<and> disk (wdev w2) = disk (wdev w1)))"
  using assms by (rule write_copied_read_back)

subsection \<open>hello\_world\<close>

lemma hello_bytes: "length (string_bytes ''hello world'') = 11" "padded 11 = 512"
  "is_utf8 (string_bytes ''hello world'' @ [b]) \<longleftrightarrow> b < 0x80"
  by (auto simp: string_bytes_def padded_def is_utf8_def utf8_ranges_def Let_def)

text \<open>
  C32. The example \<^verbatim>\<open>hello_world.rs\<close>, on a controller that carries out reads and writes. It writes eleven bytes to
  block 0 and reads twelve: it returns, having changed nothing on the disk but the first block, and
  prints its text followed by the twelfth byte of the device's buffer; it fails where that byte is not
  ASCII and so does not end a UTF-8 text.
\<close>

theorem hello_world_prints:
  assumes "io_store hw dev tr S disk J" and "J (io_sq dev) (io_cq dev) w" and "copy_setting tr S dev 0 11"
    and "b = wmem w (virt (buffer dev) + 11)"
  shows "\<exists>dev' w'. hello_world hw (dev, w)
      = Some (Ret (if b < 0x80 then Some (string_bytes ''hello world'' @ [b]) else None), (dev', w'))
    \<and> (\<forall>x \<ge> 512. disk (wdev w') x = disk (wdev w) x)"
proof -
  let ?data = "string_bytes ''hello world''" and ?dest = "replicate 12 (0 :: u8)"
  have len: "length ?data = 11" "length ?dest = 12" by (simp_all add: hello_bytes)
  obtain dev1 w1 where 1: "write_copied hw ?data 0 (dev, w) = Some (Ret (), (dev1, w1))"
      "\<forall>m. (\<forall>x\<in>S. m x = wmem w1 x) \<longrightarrow> (\<exists>dev2 w2. read_copied hw ?dest 0 (dev1, w1\<lparr>wmem := m\<rparr>)
         = Some (Ret (take (length ?dest) (?data @ behind dev (wmem w) (length ?data))), (dev2, w2)) \<and> disk (wdev w2) = disk (wdev w1))"
      "\<forall>x \<ge> 512. disk (wdev w1) x = disk (wdev w) x"
    using write_copied_read_back [OF assms(1,2), of 0 ?data ?dest] assms(3) unfolding len hello_bytes(2) by force
  obtain dev2 w2 where 2: "read_copied hw ?dest 0 (dev1, w1) = Some (Ret (?data @ take (Suc 0) (behind dev (wmem w) 11)), (dev2, w2))"
      "disk (wdev w2) = disk (wdev w1)"
    using 1(2) [rule_format, of "wmem w1"] by (auto simp: len)
  have "?data @ take (Suc 0) (behind dev (wmem w) 11) = ?data @ [b]"
    using assms(4) by (simp add: behind_def hello_bytes mem_read_def take_map)
  then show ?thesis using 1(1,3) 2 hello_bytes(3) [of b] by (simp add: hello_world_def mbind_Ret)
qed

subsection \<open>A concrete run\<close>

theorem copied_data_read_back_witness:
  "\<exists>dev1 w1 dev2 w2. write_copied store_hw (string_bytes ''hello'') 3
      (demo_dev\<lparr>namespaces := [1 \<mapsto> \<lparr>ns_ident = 1, ns_blocks = 800, ns_block_size = 512\<rparr>]\<rparr>, blank_world (\<lambda>_. 0, 0)) = Some (Ret (), (dev1, w1))
    \<and> read_copied store_hw (replicate 5 0) 3 (dev1, w1) = Some (Ret (string_bytes ''hello''), (dev2, w2))"
proof -
  let ?dev = "demo_dev\<lparr>namespaces := [1 \<mapsto> \<lparr>ns_ident = 1, ns_blocks = 800, ns_block_size = 512\<rparr>]\<rparr>"
  let ?w = "blank_world (\<lambda>_. 0, 0) :: (disk \<times> nat) world" and ?data = "string_bytes ''hello''" and ?dest = "replicate 5 (0 :: u8)"
  have "doorbell ?dev = doorbell demo_dev" by (intro ext) (simp add: doorbell_def)
  then have st: "io_store store_hw ?dev (\<lambda>x. x) ring_memory fst store_state" using store_hw_stores by simp
  have J: "store_state (io_sq ?dev) (io_cq ?dev) ?w"
    by (simp add: blank_world_def ring_state_def demo_dev_def demo_ring_def demo_cring_def sq_inv_def cq_consumed_def cq_inv_def phase_of_def)
  have buf: "buffer demo_dev = \<lparr>virt = 0xC00000, phys = 0xC00000, dsize = 2097152\<rparr>" by (simp add: demo_dev_def)
  have set: "copy_setting (\<lambda>x. x) ring_memory ?dev 3 (length ?data)"
    by (auto simp: copy_setting_def padded_def string_bytes_def dma_mapped_def region_def ring_memory_def demo_rings in_addr_range buf)
  have len: "0 < length ?dest" "length ?dest \<le> padded (length ?data)" "length ?data = 5"
    by (simp_all add: padded_def string_bytes_def)
  from copied_data_read_back [OF st J set len(1,2)] obtain dev1 w1 where
      1: "write_copied store_hw ?data 3 (?dev, ?w) = Some (Ret (), (dev1, w1))"
      "\<forall>m. (\<forall>x\<in>ring_memory. m x = wmem w1 x) \<longrightarrow> (\<exists>dev2 w2. read_copied store_hw ?dest 3 (dev1, w1\<lparr>wmem := m\<rparr>)
         = Some (Ret (take (length ?dest) (?data @ behind ?dev (wmem ?w) (length ?data))), (dev2, w2)))"
    by blast
  from 1(2) [rule_format, of "wmem w1"] obtain dev2 w2 where
    "read_copied store_hw ?dest 3 (dev1, w1) = Some (Ret ?data, (dev2, w2))" using len(3) by auto
  with 1(1) show ?thesis by blast
qed

text \<open>A run over a buffer that holds 0xC3 everywhere: the first byte of a two-byte sequence, not a text.\<close>

theorem hello_world_prints_witness:
  "\<exists>dev' w'. hello_world store_hw (demo_dev\<lparr>namespaces := [1 \<mapsto> \<lparr>ns_ident = 1, ns_blocks = 800, ns_block_size = 512\<rparr>]\<rparr>,
      \<lparr>wmem = (\<lambda>_. 0xC3), wdev = (\<lambda>_. 7, 0)\<rparr>) = Some (Ret None, (dev', w')) \<and> fst (wdev w') 512 = 7"
proof -
  let ?dev = "demo_dev\<lparr>namespaces := [1 \<mapsto> \<lparr>ns_ident = 1, ns_blocks = 800, ns_block_size = 512\<rparr>]\<rparr>"
  let ?w = "\<lparr>wmem = (\<lambda>_. 0xC3), wdev = (\<lambda>_. 7, 0)\<rparr> :: (disk \<times> nat) world"
  have "doorbell ?dev = doorbell demo_dev" by (intro ext) (simp add: doorbell_def)
  then have st: "io_store store_hw ?dev (\<lambda>x. x) ring_memory fst store_state" using store_hw_stores by simp
  have J: "store_state (io_sq ?dev) (io_cq ?dev) ?w"
    by (simp add: ring_state_def demo_dev_def demo_ring_def demo_cring_def sq_inv_def cq_consumed_def cq_inv_def phase_of_def)
  have buf: "buffer demo_dev = \<lparr>virt = 0xC00000, phys = 0xC00000, dsize = 2097152\<rparr>" by (simp add: demo_dev_def)
  have set: "copy_setting (\<lambda>x. x) ring_memory ?dev 0 11"
    by (auto simp: copy_setting_def padded_def dma_mapped_def region_def ring_memory_def demo_rings in_addr_range buf)
  from hello_world_prints [OF st J set refl] show ?thesis by fastforce
qed

end
