(* ===== verification/Threads.thy ===== *)
theory Threads
  imports Comp_Logic
begin

text \<open>
  Threads over a shared state, as \<^verbatim>\<open>std::thread\<close> gives them to the measurement programs. A thread is
  at a point \<open>'p\<close> of its closure; \<open>step\<close> carries out what the closure does next, as one computation on
  the shared state, and gives the next point or the result. A panic ends the thread alone.
  \<open>par_step\<close> lets any running thread take a step, or the environment; \<open>par_runs\<close> is a sequence of such
  steps with the list of who did what. \<open>run_threads\<close> runs all threads in the order a scheduler picks.
\<close>

datatype ('p, 'r) thread = Running 'p | Finished 'r | Crashed panic

type_synonym ('p, 'r, 's) closure = "'p \<Rightarrow> ('s, 'p + 'r) comp"
type_synonym ('p, 'r, 's) threads = "('p, 'r) thread list \<times> 's"

text \<open>A closure returns no \<^verbatim>\<open>Result\<close>: what fails inside it is unwrapped.\<close>

definition advance :: "('p, 'r, 's) closure \<Rightarrow> 'p \<Rightarrow> 's \<Rightarrow> (('p, 'r) thread \<times> 's) option" where
  "advance step p s = (case step p s of
     None \<Rightarrow> None
   | Some (r, t) \<Rightarrow> Some (case r of
       Ret v \<Rightarrow> (case v of Inl p' \<Rightarrow> Running p' | Inr x \<Rightarrow> Finished x)
     | Err e \<Rightarrow> Crashed Unwrap_failed
     | Panic q \<Rightarrow> Crashed q, t))"

inductive par_step ::
    "('p, 'r, 's) closure \<Rightarrow> ('s \<Rightarrow> 's) \<Rightarrow> ('p, 'r, 's) threads \<Rightarrow> (nat \<times> 'p) option \<Rightarrow> ('p, 'r, 's) threads \<Rightarrow> bool"
  for step :: "('p, 'r, 's) closure" and env :: "'s \<Rightarrow> 's" where
  run: "i < length ts \<Longrightarrow> ts ! i = Running p \<Longrightarrow> advance step p s = Some (t, s') \<Longrightarrow>
    par_step step env (ts, s) (Some (i, p)) (ts[i := t], s')"
| env: "par_step step env (ts, s) None (ts, env s)"

inductive par_runs ::
    "('p, 'r, 's) closure \<Rightarrow> ('s \<Rightarrow> 's) \<Rightarrow> ('p, 'r, 's) threads \<Rightarrow> (nat \<times> 'p) list \<Rightarrow> ('p, 'r, 's) threads \<Rightarrow> bool"
  for step :: "('p, 'r, 's) closure" and env :: "'s \<Rightarrow> 's" and c :: "('p, 'r, 's) threads" where
  start: "par_runs step env c [] c"
| more: "par_runs step env c tr c' \<Longrightarrow> par_step step env c' l c'' \<Longrightarrow>
    par_runs step env c (case l of None \<Rightarrow> tr | Some x \<Rightarrow> tr @ [x]) c''"

inductive_cases par_stepE: "par_step step env (ts, s) l c"
inductive_simps par_step_env [simp]: "par_step step env (ts, s) None (ts', s')"

text \<open>\<open>sched k\<close> is the thread that takes step \<open>k\<close>; a number past the last thread is a step of the
  environment, and a thread that has ended takes none.\<close>

partial_function (option) run_threads ::
    "('p, 'r, 's) closure \<Rightarrow> ('s \<Rightarrow> 's) \<Rightarrow> (nat \<Rightarrow> nat) \<Rightarrow> nat \<Rightarrow> ('p, 'r) thread list \<Rightarrow> 's \<Rightarrow> ('p, 'r, 's) threads option" where
  "run_threads step env sched k ts s =
     (if \<forall>t\<in>set ts. case t of Running p \<Rightarrow> False | _ \<Rightarrow> True then Some (ts, s)
      else if sched k < length ts
      then (case ts ! sched k of
              Running p \<Rightarrow> (case advance step p s of
                 None \<Rightarrow> None
               | Some v \<Rightarrow> run_threads step env sched (Suc k) (ts[sched k := fst v]) (snd v))
            | Finished r \<Rightarrow> run_threads step env sched (Suc k) ts s
            | Crashed q \<Rightarrow> run_threads step env sched (Suc k) ts s)
      else run_threads step env sched (Suc k) ts (env s))"

text \<open>\<^verbatim>\<open>join\<close> on every handle in turn, with \<^verbatim>\<open>expect\<close>.\<close>

fun join_all :: "('p, 'r) thread list \<Rightarrow> ('s, 'r list) comp" where
  "join_all [] = mret []"
| "join_all (t # ts) = (case t of
     Running p \<Rightarrow> (\<lambda>_. None)
   | Crashed q \<Rightarrow> mpanic Unwrap_failed
   | Finished r \<Rightarrow> mbind (join_all ts) (\<lambda>rs. mret (r # rs)))"

lemma join_all_Ret:
  "join_all ts s = Some (Ret rs, s') \<Longrightarrow> ts = map Finished rs \<and> s' = s"
  by (induction ts arbitrary: rs s') (auto split: thread.splits elim!: mbind_RetE)

lemma par_runs_trans:
  assumes "par_runs step env c' tr' c''" and "par_runs step env c tr c'"
  shows "par_runs step env c (tr @ tr') c''"
  using assms
proof (induction rule: par_runs.induct)
  case (more tr' c1 l c2)
  then have "par_runs step env c (tr @ tr') c1" by simp
  from par_runs.more [OF this more.hyps(2)] show ?case by (cases l) simp_all
qed simp

lemma par_runs_first:
  assumes "par_step step env c l c'" and "par_runs step env c' tr c''"
  shows "\<exists>tr'. par_runs step env c tr' c''"
  using par_runs_trans [OF assms(2) par_runs.more [OF par_runs.start assms(1)]] by blast

text \<open>What a scheduler does is one of the interleavings.\<close>

lemma run_threads_par_runs:
  assumes "run_threads step env sched k ts s = Some c"
  shows "(\<exists>tr. par_runs step env (ts, s) tr c) \<and> (\<forall>p. Running p \<notin> set (fst c))"
  using assms
proof (rule run_threads.raw_induct [rotated])
  fix rec :: "('a, 'b, 'c) closure \<Rightarrow> ('c \<Rightarrow> 'c) \<Rightarrow> (nat \<Rightarrow> nat) \<Rightarrow> nat \<Rightarrow> ('a, 'b) thread list \<Rightarrow> 'c \<Rightarrow> ('a, 'b, 'c) threads option"
  fix step :: "('a, 'b, 'c) closure" and env sched k ts s c
  assume IH: "\<And>step env sched k ts s c. rec step env sched k ts s = Some c \<Longrightarrow>
      (\<exists>tr. par_runs step env (ts, s) tr c) \<and> (\<forall>p. Running p \<notin> set (fst c))"
    and e: "(if \<forall>t\<in>set ts. case t of Running p \<Rightarrow> False | _ \<Rightarrow> True then Some (ts, s)
      else if sched k < length ts
      then (case ts ! sched k of
              Running p \<Rightarrow> (case advance step p s of
                 None \<Rightarrow> None
               | Some v \<Rightarrow> rec step env sched (Suc k) (ts[sched k := fst v]) (snd v))
            | Finished r \<Rightarrow> rec step env sched (Suc k) ts s
            | Crashed q \<Rightarrow> rec step env sched (Suc k) ts s)
      else rec step env sched (Suc k) ts (env s)) = Some c"
  have go: "(\<exists>tr. par_runs step env (ts, s) tr c) \<and> (\<forall>p. Running p \<notin> set (fst c))"
    if "par_step step env (ts, s) l (ts', s')" and "rec step env sched (Suc k) ts' s' = Some c" for l ts' s'
    using IH [OF that(2)] par_runs_first [OF that(1)] by blast
  show "(\<exists>tr. par_runs step env (ts, s) tr c) \<and> (\<forall>p. Running p \<notin> set (fst c))"
  proof (cases "\<forall>t\<in>set ts. case t of Running p \<Rightarrow> False | _ \<Rightarrow> True")
    case True
    then show ?thesis using e par_runs.start [of step env "(ts, s)"] by (force split: thread.splits)
  next
    case False
    note e' = e [unfolded if_not_P [OF False]]
    show ?thesis
    proof (cases "sched k < length ts")
      case True
      note e'' = e' [unfolded if_P [OF True]]
      show ?thesis
      proof (cases "ts ! sched k")
        case (Running p)
        with e'' obtain t s' where a: "advance step p s = Some (t, s')" "rec step env sched (Suc k) (ts[sched k := t]) s' = Some c"
          by (auto split: option.splits)
        show ?thesis by (rule go [OF par_step.run [OF True Running a(1)] a(2)])
      qed (use e'' IH in auto)
    next
      case nsched: False
      show ?thesis by (rule go [OF par_step.env e' [unfolded if_not_P [OF nsched]]])
    qed
  qed
qed

text \<open>
  Invariants of all interleavings, thread by thread: \<open>G\<close> holds of the shared state, and \<open>L n t\<close> of every
  thread \<open>t\<close>, where \<open>n\<close> counts the thread's steps from points with \<open>ev\<close>.
\<close>

definition events :: "('p \<Rightarrow> bool) \<Rightarrow> nat \<Rightarrow> (nat \<times> 'p) list \<Rightarrow> nat" where
  "events ev i tr = length (filter (\<lambda>(j, p). j = i \<and> ev p) tr)"

lemma events_simps [simp]:
  "events ev i [] = 0" "events ev i (tr @ [(j, p)]) = events ev i tr + (if j = i \<and> ev p then 1 else 0)"
  by (simp_all add: events_def)

lemma par_runs_invariant:
  assumes "par_runs step env (ts0, s0) tr (ts, s)"
    and "G s0" and "\<forall>i < length ts0. L 0 (ts0 ! i)"
    and env: "\<And>s. G s \<Longrightarrow> G (env s)"
    and step: "\<And>n p s t s'. G s \<Longrightarrow> L n (Running p) \<Longrightarrow> advance step p s = Some (t, s') \<Longrightarrow>
        G s' \<and> L (n + (if ev p then 1 else 0)) t"
  shows "G s \<and> length ts = length ts0 \<and> (\<forall>i < length ts. L (events ev i tr) (ts ! i))"
  using assms(1)
proof (induction tr "(ts, s)" arbitrary: ts s rule: par_runs.induct)
  case start
  then show ?case using assms(2,3) by simp
next
  case (more tr c l)
  obtain ts1 s1 where c: "c = (ts1, s1)" by (cases c)
  have IH: "G s1" "length ts1 = length ts0" "\<forall>i < length ts1. L (events ev i tr) (ts1 ! i)"
    using more.hyps(2) [OF c] by auto
  from more.hyps(3) show ?case
    unfolding c
  proof (cases rule: par_step.cases)
    case (run i p t)
    then have "G s \<and> L (events ev i tr + (if ev p then 1 else 0)) t"
      using step [OF IH(1), of "events ev i tr" p t s] IH(3) by auto
    then show ?thesis using run IH by (auto simp: nth_list_update)
  next
    case env
    then show ?thesis using IH assms(4) by auto
  qed
qed

lemma par_runs_keeps:
  assumes "par_runs step env c tr c'" and "P c" and "\<And>c l c'. P c \<Longrightarrow> par_step step env c l c' \<Longrightarrow> P c'"
  shows "P c'"
  using assms(1,2) by (induction rule: par_runs.induct) (auto intro: assms(3))

lemma advance_cases:
  assumes "advance step p s = Some (t, s')"
  obtains r where "step p s = Some (r, s')"
    and "t = (case r of Ret v \<Rightarrow> (case v of Inl p' \<Rightarrow> Running p' | Inr x \<Rightarrow> Finished x)
      | Err e \<Rightarrow> Crashed Unwrap_failed | Panic q \<Rightarrow> Crashed q)"
  using assms by (auto simp: advance_def split: option.splits)

lemma par_runs_indices:
  "par_runs step env c tr c' \<Longrightarrow> length (fst c') = length (fst c) \<and> (\<forall>x\<in>set tr. fst x < length (fst c))"
  by (induction rule: par_runs.induct) (auto elim!: par_step.cases split: option.splits)

lemma sum_events:
  "\<forall>x\<in>set tr. fst x < n \<Longrightarrow> (\<Sum>i<n. events ev i tr) = length (filter (\<lambda>(j, p). ev p) tr)"
proof (induction tr rule: rev_induct)
  case (snoc x tr)
  obtain j p where x: "x = (j, p)" by (cases x)
  have "(\<Sum>i<n. events ev i (tr @ [x])) = (\<Sum>i<n. events ev i tr) + (\<Sum>i<n. if j = i \<and> ev p then 1 else 0)"
    by (simp add: x sum.distrib)
  moreover have "(\<Sum>i<n. if j = i \<and> ev p then 1 else 0) = (if ev p then 1 else 0 :: nat)"
    using snoc.prems by (auto simp: x)
  ultimately show ?case using snoc by (simp add: x)
qed simp

text \<open>
  A thread that always gets somewhere: however many steps the environment takes before each of its
  own, the thread never hangs and never crashes until it is at a point and state with \<open>goal\<close>.
\<close>

inductive always_reaches ::
    "('p, 'r, 's) closure \<Rightarrow> ('s \<Rightarrow> 's) \<Rightarrow> ('p \<Rightarrow> 's \<Rightarrow> bool) \<Rightarrow> 'p \<Rightarrow> 's \<Rightarrow> bool"
  for step :: "('p, 'r, 's) closure" and env :: "'s \<Rightarrow> 's" and goal :: "'p \<Rightarrow> 's \<Rightarrow> bool" where
  arrived: "goal p s \<Longrightarrow> always_reaches step env goal p s"
| onward: "\<forall>k. \<exists>p' s'. step p ((env ^^ k) s) = Some (Ret (Inl p'), s') \<and> always_reaches step env goal p' s' \<Longrightarrow>
    always_reaches step env goal p s"

lemma always_reaches_measure:
  fixes mu :: "'p \<Rightarrow> nat"
  assumes "J p s"
    and env: "\<And>p s. J p s \<Longrightarrow> J p (env s)"
    and step: "\<And>p s. J p s \<Longrightarrow> \<not> fin p \<Longrightarrow> \<exists>p' s'. step p s = Some (Ret (Inl p'), s') \<and> J p' s' \<and> mu p' < mu p"
    and goal: "\<And>p s. J p s \<Longrightarrow> fin p \<Longrightarrow> goal p s"
  shows "always_reaches step env goal p s"
  using assms(1)
proof (induction "mu p" arbitrary: p s rule: less_induct)
  case less
  show ?case
  proof (cases "fin p")
    case True
    then show ?thesis using less.prems goal by (blast intro: arrived)
  next
    case False
    have "J p ((env ^^ k) s)" for k by (induction k) (auto intro: less.prems env)
    then have "\<exists>p' s'. step p ((env ^^ k) s) = Some (Ret (Inl p'), s') \<and> always_reaches step env goal p' s'" for k
      using step [OF _ False] less.hyps by metis
    then show ?thesis by (blast intro: onward)
  qed
qed

lemma par_runs_thread:
  assumes "par_runs step env c tr (ts, s)" and "i < length ts" and "ts ! i = Running p" and "step p s = Some (Ret (Inl p'), s')"
  shows "par_runs step env c (tr @ [(i, p)]) (ts[i := Running p'], s')"
proof -
  have "par_step step env (ts, s) (Some (i, p)) (ts[i := Running p'], s')"
    using assms(2-4) by (intro par_step.run) (simp_all add: advance_def)
  from par_runs.more [OF assms(1) this] show ?thesis by simp
qed

lemma par_runs_go:
  assumes "par_runs step env c tr ([Running p], s)" and "step p s = Some (Ret (Inl p'), s')"
  shows "par_runs step env c (tr @ [(0, p)]) ([Running p'], s')"
  using par_runs_thread [OF assms(1), of 0 p] assms(2) by simp

lemma always_reaches_mono:
  assumes "always_reaches step env goal p s" and "\<And>p s. goal p s \<Longrightarrow> goal' p s"
  shows "always_reaches step env goal' p s"
  using assms(1)
proof (induction rule: always_reaches.induct)
  case (arrived p s)
  then show ?case by (intro always_reaches.arrived assms(2))
next
  case (onward p s)
  then show ?case by (intro always_reaches.onward) blast
qed

text \<open>One thread alone with its environment.\<close>

lemma par_runs_single:
  assumes "par_runs step env ([t0], s0) tr (ts, s)" and "J 0 t0 s0"
    and env: "\<And>n t s. J n t s \<Longrightarrow> J n t (env s)"
    and step: "\<And>n p s t s'. J n (Running p) s \<Longrightarrow> advance step p s = Some (t, s') \<Longrightarrow> J (n + (if ev p then 1 else 0)) t s'"
  shows "\<exists>t. ts = [t] \<and> J (length (filter (\<lambda>(i, p). ev p) tr)) t s"
  using assms(1)
proof (induction tr "(ts, s)" arbitrary: ts s rule: par_runs.induct)
  case start
  then show ?case using assms(2) by simp
next
  case (more tr c l)
  obtain ts1 s1 where c: "c = (ts1, s1)" by (cases c)
  obtain t1 where IH: "ts1 = [t1]" "J (length (filter (\<lambda>(i, p). ev p) tr)) t1 s1" using more.hyps(2) [OF c] by auto
  from more.hyps(3) show ?case
    unfolding c
  proof (cases rule: par_step.cases)
    case (run i p t)
    then have "i = 0" "t1 = Running p" "ts = [t]" using IH(1) by auto
    then show ?thesis using step [of _ p s1 t s] run IH(2) by auto
  next
    case env
    then show ?thesis using IH assms(3) by auto
  qed
qed

lemma run_threads_go:
  assumes "step p s = Some (Ret (Inl p'), s')" and "sched k = 0"
  shows "run_threads step env sched k [Running p] s = run_threads step env sched (Suc k) [Running p'] s'"
  using assms by (subst run_threads.simps) (simp add: advance_def)

lemma run_threads_last:
  assumes "step p s = Some (Ret (Inr x), s')" and "sched k = 0"
  shows "run_threads step env sched k [Running p] s = Some ([Finished x], s')"
proof -
  have "run_threads step env sched (Suc k) [Finished x] s' = Some ([Finished x], s')" by (subst run_threads.simps) simp
  then show ?thesis using assms by (subst run_threads.simps) (simp add: advance_def)
qed

end
