(* ===== verification/Bench.thy ===== *)
theory Bench
  imports Examples Threads
begin

text \<open>
  The measurements with many requests in flight: \<^verbatim>\<open>qd_n_multithread\<close> of \<^verbatim>\<open>throughput.rs\<close> and of
  \<^verbatim>\<open>latency.rs\<close>, and \<^verbatim>\<open>qd_n_multithread_latency_nanos\<close> of \<^verbatim>\<open>latency.rs\<close>, with the two \<^verbatim>\<open>main\<close> functions.
  The device is behind a \<^verbatim>\<open>Mutex\<close>; every thread has a buffer and a queue pair of its own, on which it
  works without the lock. The points of a closure are the constructors of \<open>bench_pc\<close> and \<open>nanos_pc\<close>; the
  code between two points is one step. A call that waits for the controller is a single step: while it
  waits only the controller moves. The rate in operations per second, a floating-point number that is
  only printed, is left out.
\<close>

unbundle bit_operations_syntax

subsection \<open>What the threads share\<close>

text \<open>The device with the poison flag of its \<^verbatim>\<open>Mutex\<close>, and the vector of latencies, whose lock is only
  held for a push and so is never poisoned.\<close>

record 'm shared =
  sh_dev :: "'m nvme_device"
  sh_poisoned :: bool
  sh_latencies :: "nat list"

type_synonym ('m, 'd) sh_state = "'m shared \<times> 'd world"

text \<open>\<^verbatim>\<open>Arc::new(Mutex::new(nvme))\<close>, with an empty vector of latencies.\<close>

definition new_shared :: "'m nvme_device \<Rightarrow> 'm shared" where
  "new_shared dev = \<lparr>sh_dev = dev, sh_poisoned = False, sh_latencies = []\<rparr>"

text \<open>\<^verbatim>\<open>nvme.lock().unwrap().call().unwrap()\<close>: the guard lives to the end of the statement, so a panic
  in the call or in the last \<^verbatim>\<open>unwrap\<close> poisons the lock.\<close>

definition with_lock :: "(('m, 'd) dev_state, 'a) comp \<Rightarrow> (('m, 'd) sh_state, 'a) comp" where
  "with_lock m = (\<lambda>(sh, w).
     if sh_poisoned sh then Some (Panic Unwrap_failed, (sh, w))
     else case mexpect m (sh_dev sh, w) of
       None \<Rightarrow> None
     | Some (r, (dev, w')) \<Rightarrow>
         Some (r, (sh\<lparr>sh_dev := dev, sh_poisoned := (case r of Panic p \<Rightarrow> True | _ \<Rightarrow> False)\<rparr>, w')))"

text \<open>A call on a queue pair that a thread owns; the queue pair it leaves is part of the result.\<close>

definition on_pair :: "nvme_queue_pair \<Rightarrow> ('d qp_state, 'a) comp \<Rightarrow> ('x \<times> 'd world, 'a \<times> nvme_queue_pair) comp" where
  "on_pair qp m = (\<lambda>(x, w). case m (qp, w) of
     None \<Rightarrow> None
   | Some (Ret v, (qp', w')) \<Rightarrow> Some (Ret (v, qp'), (x, w'))
   | Some (Err e, (_, w')) \<Rightarrow> Some (Err e, (x, w'))
   | Some (Panic p, (_, w')) \<Rightarrow> Some (Panic p, (x, w')))"

definition push_latency :: "nat \<Rightarrow> (('m, 'd) sh_state, unit) comp" where
  "push_latency n = mmodify (\<lambda>(sh, w). (sh\<lparr>sh_latencies := sh_latencies sh @ [n]\<rparr>, w))"

subsection \<open>qd\_n\_multithread\<close>

text \<open>What the closures of the two programs are made of: \<open>b_alloc\<close> is the size of the buffer, \<open>b_log\<close> says
  whether latencies are collected; \<open>b_blocks\<close> is the size of the namespace in units of 4096 bytes.\<close>

record bench =
  b_depth :: usize
  b_alloc :: usize
  b_blocks :: u64
  b_duration :: nat
  b_random :: bool
  b_write :: bool
  b_log :: bool

definition throughput_bench :: "usize \<Rightarrow> nat \<Rightarrow> bool \<Rightarrow> bool \<Rightarrow> u64 \<Rightarrow> bench" where
  "throughput_bench queue_depth duration random write ns_blks =
     \<lparr>b_depth = queue_depth, b_alloc = PAGESIZE_4KIB * queue_depth, b_blocks = ns_blks,
      b_duration = duration, b_random = random, b_write = write, b_log = False\<rparr>"

definition latency_bench :: "usize \<Rightarrow> nat \<Rightarrow> bool \<Rightarrow> u64 \<Rightarrow> bench" where
  "latency_bench queue_depth duration write ns_blks =
     \<lparr>b_depth = queue_depth, b_alloc = PAGESIZE_4KIB, b_blocks = ns_blks,
      b_duration = duration, b_random = True, b_write = write, b_log = True\<rparr>"

text \<open>The local variables \<^verbatim>\<open>buffer\<close>, \<^verbatim>\<open>qpair\<close>, \<^verbatim>\<open>outstanding_ops\<close>, \<^verbatim>\<open>total_io_ops\<close> and \<^verbatim>\<open>total\<close>.\<close>

record bench_locals =
  l_buf :: dma
  l_qp :: nvme_queue_pair
  l_out :: usize
  l_ops :: u64
  l_total :: nat

datatype bench_pc =
    T_Alloc
  | T_Create dma
  | T_Fill dma nvme_queue_pair
  | T_Loop bench_locals
  | T_Poll bench_locals u64 nat
  | T_Full bench_locals u64 nat
  | T_Submit bench_locals u64 nat
  | T_Drain bench_locals
  | T_Finish bench_locals

text \<open>One operation less in flight, one more done.\<close>

definition l_done :: "bench_locals \<Rightarrow> nvme_queue_pair \<Rightarrow> bench_locals" where
  "l_done l qp = l\<lparr>l_qp := qp, l_out := l_out l - 1, l_ops := l_ops l + 1\<rparr>"

text \<open>The time since \<open>before\<close>, pushed to the latencies first where they are collected.\<close>

definition elapsed :: "'d hw \<Rightarrow> bool \<Rightarrow> nat \<Rightarrow> (('m, 'd) sh_state, nat) comp" where
  "elapsed hw log before =
     mbind (if log then mbind (instant_now hw) (\<lambda>now. push_latency (now - before)) else mret ()) (\<lambda>_.
     mbind (instant_now hw) (\<lambda>now.
     mret (now - before)))"

text \<open>\<^verbatim>\<open>qpair.submit_io(&buffer.slice(out * bytes..(out + 1) * bytes), lba * blocks, write)\<close>.\<close>

definition submit_slice :: "'d hw \<Rightarrow> dma \<Rightarrow> nvme_queue_pair \<Rightarrow> usize \<Rightarrow> u64 \<Rightarrow> bool \<Rightarrow> ('x \<times> 'd world, usize \<times> nvme_queue_pair) comp" where
  "submit_slice hw buf qp out lba write =
     mbind (mlift (dma_slice buf (out * 4096) ((out + 1) * 4096))) (\<lambda>data.
     on_pair qp (qp_submit_io hw data (lba * 8) write))"

fun bench_step ::
    "'d hw \<Rightarrow> ('m, 'd) mapping_ops \<Rightarrow> 'd rng \<Rightarrow> 'd rnd \<Rightarrow> bench \<Rightarrow> (bench_pc, u64 \<times> nat, ('m, 'd) sh_state) closure" where
  "bench_step hw ops gen rnd b T_Alloc =
     mbind (with_lock (dev_allocate ops (b_alloc b))) (\<lambda>buf. mret (Inl (T_Create buf)))"
| "bench_step hw ops gen rnd b (T_Create buf) =
     mbind (with_lock (create_io_queue_pair hw ops QUEUE_LENGTH)) (\<lambda>qp. mret (Inl (T_Fill buf qp)))"
| "bench_step hw ops gen rnd b (T_Fill buf qp) =
     mbind (world_call (rnd (unat (b_depth b * 4096)))) (\<lambda>rand_block.
     mbind (dma_copy buf rand_block) (\<lambda>_.
     mret (Inl (T_Loop \<lparr>l_buf = buf, l_qp = qp, l_out = 0, l_ops = 0, l_total = 0\<rparr>))))"
| "bench_step hw ops gen rnd b (T_Loop l) =
     (if l_total l < b_duration b
      then mbind (next_lba gen (b_random b) (b_blocks b) 0) (\<lambda>lba.
           mbind (instant_now hw) (\<lambda>before.
           mret (Inl (T_Poll l lba before))))
      else mret (Inl (T_Drain l)))"
| "bench_step hw ops gen rnd b (T_Poll l lba before) =
     mbind (on_pair (l_qp l) (qp_quick_poll hw)) (\<lambda>(v, qp). case v of
        Some _ \<Rightarrow> mret (Inl (T_Poll (l_done l qp) lba before))
      | None \<Rightarrow> mret (Inl (T_Full (l\<lparr>l_qp := qp\<rparr>) lba before)))"
| "bench_step hw ops gen rnd b (T_Full l lba before) =
     (if l_out l = b_depth b
      then mbind (on_pair (l_qp l) (qp_complete_io hw 1)) (\<lambda>(_, qp).
           mret (Inl (T_Submit (l_done l qp) lba before)))
      else mret (Inl (T_Submit l lba before)))"
| "bench_step hw ops gen rnd b (T_Submit l lba before) =
     mbind (submit_slice hw (l_buf l) (l_qp l) (l_out l) lba (b_write b)) (\<lambda>(_, qp).
     mbind (elapsed hw (b_log b) before) (\<lambda>spent.
     mret (Inl (T_Loop (l\<lparr>l_qp := qp, l_total := l_total l + spent, l_out := l_out l + 1\<rparr>)))))"
| "bench_step hw ops gen rnd b (T_Drain l) =
     mbind (if l_out l \<noteq> 0
            then mbind (instant_now hw) (\<lambda>before.
                 mbind (on_pair (l_qp l) (qp_complete_io hw (l_out l))) (\<lambda>(_, qp).
                 mbind (elapsed hw (b_log b) before) (\<lambda>spent.
                 mret (l\<lparr>l_qp := qp, l_total := l_total l + spent\<rparr>))))
            else mret l) (\<lambda>l'.
     mbind (massert (sq_is_empty (sub_queue (l_qp l')))) (\<lambda>_.
     mret (Inl (T_Finish (l'\<lparr>l_ops := l_ops l' + l_out l'\<rparr>)))))"
| "bench_step hw ops gen rnd b (T_Finish l) =
     mbind (with_lock (delete_io_queue_pair hw ops (l_qp l))) (\<lambda>_.
     mret (Inr (l_ops l, l_total l)))"

definition world_tick :: "'d hw \<Rightarrow> 'x \<times> 'd world \<Rightarrow> 'x \<times> 'd world" where
  "world_tick hw = (\<lambda>(x, w). (x, hw_tick hw w))"

text \<open>Spawn \<open>n\<close> threads and join them all. The panic of a thread is reported after all threads have ended;
  the code reports it as soon as the threads spawned before have ended.\<close>

definition spawn_join ::
    "('p, 'r, ('m, 'd) sh_state) closure \<Rightarrow> 'p \<Rightarrow> 'd hw \<Rightarrow> (nat \<Rightarrow> nat) \<Rightarrow> u64 \<Rightarrow> (('m, 'd) sh_state, 'r list) comp" where
  "spawn_join step p hw sched n = (\<lambda>s.
     case run_threads step (world_tick hw) sched 0 (replicate (unat n) (Running p)) s of
       None \<Rightarrow> None
     | Some (ts, t) \<Rightarrow> join_all ts t)"

text \<open>The device goes into the lock and comes back: \<^verbatim>\<open>into_inner\<close> fails on a poisoned lock.\<close>

definition with_shared :: "(('m, 'd) sh_state, 'a) comp \<Rightarrow> (('m, 'd) dev_state, 'a) comp" where
  "with_shared m =
     mzoom (\<lambda>(dev, w). (new_shared dev, w)) (\<lambda>(sh, w) _. (sh_dev sh, w))
       (mbind m (\<lambda>x.
        mbind (mget (\<lambda>(sh, w). sh_poisoned sh)) (\<lambda>poisoned.
        if poisoned then merr (error_from_string ''poisoned lock: another task failed inside'') else mret x)))"

definition qd_n_multithread ::
    "'d hw \<Rightarrow> ('m, 'd) mapping_ops \<Rightarrow> 'd rng \<Rightarrow> 'd rnd \<Rightarrow> (nat \<Rightarrow> nat) \<Rightarrow> usize \<Rightarrow> u64 \<Rightarrow> nat \<Rightarrow> bool \<Rightarrow> bool
      \<Rightarrow> (('m, 'd) dev_state, u64) comp" where
  "qd_n_multithread hw ops gen rnd sched queue_depth thread_count duration random write =
     mbind (lookup_namespace 1) (\<lambda>ns.
     let b = throughput_bench queue_depth duration random write (ns_blocks ns div 8)
     in with_shared (mbind (spawn_join (bench_step hw ops gen rnd b) T_Alloc hw sched thread_count) (\<lambda>rs.
        mret (sum_list (map fst rs)))))"

definition qd_n_multithread_latency ::
    "'d hw \<Rightarrow> ('m, 'd) mapping_ops \<Rightarrow> 'd rng \<Rightarrow> 'd rnd \<Rightarrow> (nat \<Rightarrow> nat) \<Rightarrow> usize \<Rightarrow> u64 \<Rightarrow> nat \<Rightarrow> bool
      \<Rightarrow> (('m, 'd) dev_state, u64 \<times> nat list) comp" where
  "qd_n_multithread_latency hw ops gen rnd sched queue_depth thread_count duration write =
     mbind (lookup_namespace 1) (\<lambda>ns.
     let b = latency_bench queue_depth duration write (ns_blocks ns div 8)
     in with_shared (mbind (spawn_join (bench_step hw ops gen rnd b) T_Alloc hw sched thread_count) (\<lambda>rs.
        mbind (mget (\<lambda>(sh, w). sh_latencies sh)) (\<lambda>latencies.
        mret (sum_list (map fst rs), latencies)))))"

subsection \<open>qd\_n\_multithread\_latency\_nanos\<close>

record nanos_locals =
  n_buf :: dma
  n_qp :: nvme_queue_pair
  n_out :: usize
  n_start :: nat

datatype nanos_pc =
    N_Alloc
  | N_Create dma
  | N_Fill dma nvme_queue_pair
  | N_Loop nanos_locals
  | N_Submit nanos_locals u64 nat
  | N_Poll nanos_locals nat
  | N_Drain nanos_locals

text \<open>The block number of a request: drawn, or the number of requests in flight.\<close>

definition nanos_lba :: "'d rng \<Rightarrow> bool \<Rightarrow> u64 \<Rightarrow> usize \<Rightarrow> ('x \<times> 'd world, u64) comp" where
  "nanos_lba gen random ns_blks out =
     (if random then next_lba gen True ns_blks 0
      else if ns_blks = 0 then mpanic Division_by_zero else mret (out mod ns_blks))"

text \<open>A completion has been taken: one request less in flight, and a latency counted from \<open>before\<close>, or from
  the present moment while the queue is drained.\<close>

definition nanos_taken :: "'d hw \<Rightarrow> nat option \<Rightarrow> nanos_locals \<Rightarrow> nvme_queue_pair \<Rightarrow> (('m, 'd) sh_state, nanos_locals) comp" where
  "nanos_taken hw before l qp =
     mbind (case before of Some t \<Rightarrow> mret t | None \<Rightarrow> instant_now hw) (\<lambda>since.
     mbind (instant_now hw) (\<lambda>now.
     mbind (push_latency (now - since)) (\<lambda>_.
     mret (l\<lparr>n_qp := qp, n_out := n_out l - 1\<rparr>))))"

text \<open>The arguments of the closure are the fields of a \<open>bench\<close>, of which \<open>b_alloc\<close> and \<open>b_log\<close> are not used.\<close>

fun nanos_step ::
    "'d hw \<Rightarrow> ('m, 'd) mapping_ops \<Rightarrow> 'd rng \<Rightarrow> 'd rnd \<Rightarrow> bench \<Rightarrow> (nanos_pc, unit, ('m, 'd) sh_state) closure" where
  "nanos_step hw ops gen rnd b N_Alloc =
     mbind (with_lock (dev_allocate ops PAGESIZE_2MIB)) (\<lambda>buf. mret (Inl (N_Create buf)))"
| "nanos_step hw ops gen rnd b (N_Create buf) =
     mbind (with_lock (create_io_queue_pair hw ops (b_depth b))) (\<lambda>qp. mret (Inl (N_Fill buf qp)))"
| "nanos_step hw ops gen rnd b (N_Fill buf qp) =
     mbind (world_call (rnd (unat (b_depth b * 4096)))) (\<lambda>rand_block.
     mbind (dma_copy buf rand_block) (\<lambda>_.
     mbind (instant_now hw) (\<lambda>start_time.
     mret (Inl (N_Loop \<lparr>n_buf = buf, n_qp = qp, n_out = 0, n_start = start_time\<rparr>)))))"
| "nanos_step hw ops gen rnd b (N_Loop l) =
     mbind (instant_now hw) (\<lambda>now.
     if now - n_start l < b_duration b
     then mbind (nanos_lba gen (b_random b) (b_blocks b) (n_out l)) (\<lambda>lba.
          mbind (instant_now hw) (\<lambda>before.
          mret (Inl (N_Submit l lba before))))
     else mret (Inl (N_Drain l)))"
| "nanos_step hw ops gen rnd b (N_Submit l lba before) =
     mbind (submit_slice hw (n_buf l) (n_qp l) (n_out l) lba (b_write b)) (\<lambda>(_, qp).
     let l' = l\<lparr>n_qp := qp, n_out := n_out l + 1\<rparr>
     in mret (Inl (if n_out l' = b_depth b then N_Poll l' before else N_Loop l')))"
| "nanos_step hw ops gen rnd b (N_Poll l before) =
     mbind (on_pair (n_qp l) (qp_quick_poll hw)) (\<lambda>(v, qp). case v of
        Some _ \<Rightarrow> mbind (nanos_taken hw (Some before) l qp) (\<lambda>l'. mret (Inl (N_Poll l' before)))
      | None \<Rightarrow> mret (Inl (N_Loop (l\<lparr>n_qp := qp\<rparr>))))"
| "nanos_step hw ops gen rnd b (N_Drain l) =
     (if 0 < n_out l
      then mbind (on_pair (n_qp l) (qp_quick_poll hw)) (\<lambda>(v, qp). case v of
             Some _ \<Rightarrow> mbind (nanos_taken hw None l qp) (\<lambda>l'. mret (Inl (N_Drain l')))
           | None \<Rightarrow>
               mbind (on_pair qp (qp_complete_io hw 1)) (\<lambda>(done, qp').
               mbind (if done = None then mpanic Unwrap_failed else mret ()) (\<lambda>_.
               mbind (nanos_taken hw None l qp') (\<lambda>l'. mret (Inl (N_Drain l'))))))
      else mbind (with_lock (delete_io_queue_pair hw ops (n_qp l))) (\<lambda>_. mret (Inr ())))"

definition qd_n_multithread_latency_nanos ::
    "'d hw \<Rightarrow> ('m, 'd) mapping_ops \<Rightarrow> 'd rng \<Rightarrow> 'd rnd \<Rightarrow> (nat \<Rightarrow> nat) \<Rightarrow> usize \<Rightarrow> u64 \<Rightarrow> nat \<Rightarrow> bool \<Rightarrow> bool
      \<Rightarrow> (('m, 'd) dev_state, nat list) comp" where
  "qd_n_multithread_latency_nanos hw ops gen rnd sched queue_depth thread_count duration random write =
     mbind (lookup_namespace 1) (\<lambda>ns.
     let b = throughput_bench queue_depth duration random write (ns_blocks ns div 8)
     in with_shared (mbind (spawn_join (nanos_step hw ops gen rnd b) N_Alloc hw sched thread_count) (\<lambda>_.
        mget (\<lambda>(sh, w). sh_latencies sh))))"

subsection \<open>The programs\<close>

definition test_throughput_random ::
    "'d hw \<Rightarrow> ('m, 'd) mapping_ops \<Rightarrow> 'd rng \<Rightarrow> 'd rnd \<Rightarrow> (nat \<Rightarrow> nat) \<Rightarrow> usize \<Rightarrow> u64 \<Rightarrow> nat \<Rightarrow> bool \<Rightarrow> bool
      \<Rightarrow> (('m, 'd) dev_state, nat) comp" where
  "test_throughput_random hw ops gen rnd sched queue_depth thread_count duration random write =
     (if queue_depth = 1 \<and> thread_count = 1
      then qd_1_singlethread hw ops gen rnd write random duration
      else mbind (qd_n_multithread hw ops gen rnd sched queue_depth thread_count duration random write) (\<lambda>n.
           mret (unat n)))"

text \<open>\<^verbatim>\<open>str::parse::<u64>\<close>: decimal digits after an optional plus sign.\<close>

definition is_dec_digit :: "char \<Rightarrow> bool" where
  "is_dec_digit c \<longleftrightarrow> (let n = of_char c :: nat in 48 \<le> n \<and> n \<le> 57)"

definition parse_u64 :: "string \<Rightarrow> u64 option" where
  "parse_u64 s =
     (let ds = (case s of c # cs \<Rightarrow> if c = CHR ''+'' then cs else s | [] \<Rightarrow> [])
      in if ds \<noteq> [] \<and> list_all is_dec_digit ds \<and> read_base 10 ds < 2 ^ 64
         then Some (of_nat (read_base 10 ds)) else None)"

text \<open>The duration in nanoseconds, if the argument is there; a panic if it is not a number.\<close>

definition duration_arg :: "string list \<Rightarrow> ('s, nat option) comp" where
  "duration_arg args = (case args of
     [] \<Rightarrow> mret None
   | secs # _ \<Rightarrow> (case parse_u64 secs of
       None \<Rightarrow> mpanic Unwrap_failed
     | Some n \<Rightarrow> mret (Some (unat n * 1000000000))))"

definition unwrap :: "'a option \<Rightarrow> ('s, 'a) comp" where
  "unwrap v = (case v of None \<Rightarrow> mpanic Unwrap_failed | Some x \<Rightarrow> mret x)"

definition throughput_main ::
    "(statics \<times> 'k) hw \<Rightarrow> 'k os \<Rightarrow> (statics \<times> 'k) rng \<Rightarrow> (statics \<times> 'k) rnd \<Rightarrow> (nat \<Rightarrow> nat) \<Rightarrow> string list
      \<Rightarrow> ('k sys, nat + nat) comp" where
  "throughput_main hw k gen rnd sched args = (case args of
     _ # addr # rest \<Rightarrow>
       mbind (duration_arg rest) (\<lambda>dur. case rest of
         _ # p # _ \<Rightarrow>
           mbind (unwrap dur) (\<lambda>duration.
           mbind (lib_init_with_page_size hw k addr (pagesize_from_str p)) (\<lambda>nvme.
           with_device nvme
             (mbind (test_throughput_random hw (memory_access_ops k) gen rnd sched 32 4 duration True True) (\<lambda>n.
              mbind (format_namespace hw (Some 1)) (\<lambda>_.
              mret (Inr n))))))
       | _ \<Rightarrow> mret (Inl 1))
   | _ \<Rightarrow> mret (Inl 1))"

text \<open>The file of latencies: \<open>create\<close> is \<^verbatim>\<open>File::create\<close>, \<open>put\<close> writes text to the file.\<close>

definition nanos_file_name :: "bool \<Rightarrow> string" where
  "nanos_file_name write = ''vroom_qd1_'' @ (if write then ''write'' else ''read'') @ ''_latencies.txt''"

definition write_nanos_to_file ::
    "(string \<Rightarrow> ('s, 'f) comp) \<Rightarrow> ('f \<Rightarrow> string \<Rightarrow> ('s, unit) comp) \<Rightarrow> nat list \<Rightarrow> bool \<Rightarrow> ('s, unit) comp" where
  "write_nanos_to_file create put latencies write =
     mbind (create (nanos_file_name write)) (\<lambda>file.
     mfold (\<lambda>lat _. put file (fmt_dec lat @ [CHR 0x0A])) latencies ())"

definition latency_main ::
    "(statics \<times> 'k) hw \<Rightarrow> 'k os \<Rightarrow> (statics \<times> 'k) rng \<Rightarrow> (statics \<times> 'k) rnd
      \<Rightarrow> (string \<Rightarrow> ('k sys, 'f) comp) \<Rightarrow> ('f \<Rightarrow> string \<Rightarrow> ('k sys, unit) comp) \<Rightarrow> string list \<Rightarrow> ('k sys, nat + unit) comp" where
  "latency_main hw k gen rnd create put args = (case args of
     _ # addr # rest \<Rightarrow>
       mbind (duration_arg rest) (\<lambda>dur.
       let page_size = (case rest of _ # p # _ \<Rightarrow> pagesize_from_str p | _ \<Rightarrow> Page2M)
       in mbind (unwrap dur) (\<lambda>duration.
          mbind (lib_init_with_page_size hw k addr page_size) (\<lambda>nvme.
          mbind (with_device nvme
                   (qd_1_singlethread_latency hw (memory_access_ops k) gen rnd False True duration)) (\<lambda>latencies.
          mbind (write_nanos_to_file create put latencies False) (\<lambda>_.
          mret (Inr ()))))))
   | _ \<Rightarrow> mret (Inl 1))"

text \<open>A call that succeeds under the lock.\<close>

lemma with_lock_Ret:
  assumes "\<not> sh_poisoned sh" and "m (sh_dev sh, w) = Some (Ret x, (dev, w'))"
  shows "with_lock m (sh, w) = Some (Ret x, (sh\<lparr>sh_dev := dev\<rparr>, w'))"
  using assms by (cases sh) (simp add: with_lock_def mexpect_def)

end
