(* ===== verification/Bench_Safety.thy ===== *)
theory Bench_Safety
  imports Bench
begin

text \<open>
  What holds of the measurements of \<open>Bench\<close> in every interleaving of their threads, whatever the
  controller does: the rings of the device and of all queue pairs stay inside their memory, no two
  threads use the same queue, memory outside the driver's regions is not written, and the operations
  that are reported are the requests that were made.
\<close>

unbundle bit_operations_syntax

subsection \<open>Queue pairs\<close>

definition pair_ok :: "nvme_queue_pair \<Rightarrow> bool" where
  "pair_ok qp \<longleftrightarrow> sq_within (sub_queue qp) \<and> cq_within (comp_queue qp)"

definition pair_frame :: "nvme_queue_pair \<Rightarrow> u16 \<times> (dma \<times> usize \<times> usize) \<times> dma \<times> usize \<times> usize" where
  "pair_frame qp = (qp_id qp, sq_frame (sub_queue qp), cq_frame (comp_queue qp))"

definition pair_inv :: "nvme_queue_pair \<Rightarrow> usize set \<Rightarrow> memory \<Rightarrow> 'd qp_state \<Rightarrow> bool" where
  "pair_inv qp0 S m0 = (\<lambda>(qp, w). pair_ok qp \<and> pair_frame qp = pair_frame qp0 \<and> mem_frame S m0 w)"

named_theorems pair_keeps \<open>operations that keep the invariant of a queue pair\<close>

definition pair_guarded :: "'d hw \<Rightarrow> usize set \<Rightarrow> nvme_queue_pair \<Rightarrow> bool" where
  "pair_guarded hw S qp \<longleftrightarrow> confined hw S \<and> region (sq_commands (sub_queue qp)) \<subseteq> S"

lemma pair_keeps_queues [pair_keeps]:
  assumes "pair_guarded hw S qp0"
  shows "keeps (pair_inv qp0 S m0) (on_sub_queue (sq_submit_checked e))" "keeps (pair_inv qp0 S m0) (on_comp_queue cq_complete)"
    "keeps (pair_inv qp0 S m0) (on_comp_queue (cq_complete_n hw n))" "keeps (pair_inv qp0 S m0) (write_volatile32 hw a v)"
    "keeps (pair_inv qp0 S m0) (mmodify (\<lambda>(qp, w). (qp\<lparr>sub_queue := (sub_queue qp)\<lparr>sq_head := h\<rparr>\<rparr>, w)))"
proof -
  have hw: "confined hw S" and r: "region (sq_commands (sub_queue qp0)) \<subseteq> S" using assms by (simp_all add: pair_guarded_def)
  show "keeps (pair_inv qp0 S m0) (on_sub_queue (sq_submit_checked e))"
    unfolding on_sub_queue_def
    by (rule keeps_zoom [OF sq_submit_checked_keeps [OF r]]) (auto simp: pair_inv_def pair_ok_def pair_frame_def)
  show "keeps (pair_inv qp0 S m0) (on_comp_queue cq_complete)"
    unfolding on_comp_queue_def
    by (rule keeps_zoom [OF cq_complete_keeps [of "comp_queue qp0"]]) (auto simp: pair_inv_def pair_ok_def pair_frame_def)
  show "keeps (pair_inv qp0 S m0) (on_comp_queue (cq_complete_n hw n))"
    unfolding on_comp_queue_def
    by (rule keeps_zoom [OF cq_complete_n_keeps [OF hw, of "comp_queue qp0"]]) (auto simp: pair_inv_def pair_ok_def pair_frame_def)
  show "keeps (pair_inv qp0 S m0) (write_volatile32 hw a v)"
    unfolding write_volatile32_def using confined_keeps(2) [OF hw]
    by (intro keeps_modify) (auto simp: pair_inv_def)
  show "keeps (pair_inv qp0 S m0) (mmodify (\<lambda>(qp, w). (qp\<lparr>sub_queue := (sub_queue qp)\<lparr>sq_head := h\<rparr>\<rparr>, w)))"
    by (intro keeps_modify) (auto simp: pair_inv_def pair_ok_def pair_frame_def sq_within_def sq_frame_def)
qed

lemma pair_keeps_take [pair_keeps]:
  assumes "pair_guarded hw S qp0"
  shows "keeps (pair_inv qp0 S m0) (qp_take hw tail c)"
  unfolding qp_take_def by (intro keeps_intros pair_keeps [OF assms])

lemma pair_keeps_submit_chunks:
  assumes "pair_guarded hw S qp0"
  shows "keeps (pair_inv qp0 S m0) (qp_submit_chunks hw write cs lba reqs)"
  by (induction cs arbitrary: lba reqs)
    (auto simp: qp_submit_entry_def intro!: keeps_intros pair_keeps [OF assms])

lemma pair_keeps_calls [pair_keeps]:
  assumes "pair_guarded hw S qp0"
  shows "keeps (pair_inv qp0 S m0) (qp_submit_io hw data lba write)" "keeps (pair_inv qp0 S m0) (qp_complete_io hw n)"
    "keeps (pair_inv qp0 S m0) (qp_quick_poll hw)" "keeps (pair_inv qp0 S m0) (qp_quick_poll_result hw)"
proof -
  show "keeps (pair_inv qp0 S m0) (qp_submit_io hw data lba write)"
    using pair_keeps_submit_chunks [OF assms]
    by (cases "dma_chunks_collect (chunks data (2 * 4096))") (simp_all add: qp_submit_io_def keeps_def)
qed (unfold qp_complete_io_def qp_quick_poll_def qp_quick_poll_result_def, (intro keeps_intros pair_keeps [OF assms])+)

subsection \<open>Memory and rings\<close>

text \<open>Named assumptions: an allocator whose regions lie in \<open>S\<close> and are as large as asked for, and a
  source of random numbers that gives as many bytes as asked for and writes no memory outside \<open>S\<close>.\<close>

definition grants :: "('m, 'd) mapping_ops \<Rightarrow> usize set \<Rightarrow> bool" where
  "grants ops S \<longleftrightarrow> (\<forall>mem n w d w'. op_allocate ops mem n w = Some (Ret d, w') \<longrightarrow> n \<le> dsize d \<and> region d \<subseteq> S)"

definition rand_confined :: "'d rng \<Rightarrow> 'd rnd \<Rightarrow> usize set \<Rightarrow> bool" where
  "rand_confined gen rnd S \<longleftrightarrow> (\<forall>w x. x \<notin> S \<longrightarrow> (\<forall>lo hi. wmem (snd (gen lo hi w)) x = wmem w x) \<and> (\<forall>n. wmem (snd (rnd n w)) x = wmem w x))
     \<and> (\<forall>n w. length (fst (rnd n w)) = n)"

definition sh_inv :: "'m nvme_device \<Rightarrow> usize set \<Rightarrow> memory \<Rightarrow> ('m, 'd) sh_state \<Rightarrow> bool" where
  "sh_inv dev0 S m0 = (\<lambda>(sh, w). dev_inv dev0 S m0 (sh_dev sh, w))"

definition pair_safe :: "usize set \<Rightarrow> nvme_queue_pair \<Rightarrow> bool" where
  "pair_safe S qp \<longleftrightarrow> pair_ok qp \<and> region (sq_commands (sub_queue qp)) \<subseteq> S"

fun pc_safe :: "usize set \<Rightarrow> bench_pc \<Rightarrow> bool" where
  "pc_safe S T_Alloc \<longleftrightarrow> True"
| "pc_safe S (T_Create buf) \<longleftrightarrow> region buf \<subseteq> S"
| "pc_safe S (T_Fill buf qp) \<longleftrightarrow> region buf \<subseteq> S \<and> pair_safe S qp"
| "pc_safe S (T_Loop l) \<longleftrightarrow> region (l_buf l) \<subseteq> S \<and> pair_safe S (l_qp l)"
| "pc_safe S (T_Poll l lba before) \<longleftrightarrow> region (l_buf l) \<subseteq> S \<and> pair_safe S (l_qp l)"
| "pc_safe S (T_Full l lba before) \<longleftrightarrow> region (l_buf l) \<subseteq> S \<and> pair_safe S (l_qp l)"
| "pc_safe S (T_Submit l lba before) \<longleftrightarrow> region (l_buf l) \<subseteq> S \<and> pair_safe S (l_qp l)"
| "pc_safe S (T_Drain l) \<longleftrightarrow> region (l_buf l) \<subseteq> S \<and> pair_safe S (l_qp l)"
| "pc_safe S (T_Finish l) \<longleftrightarrow> region (l_buf l) \<subseteq> S \<and> pair_safe S (l_qp l)"

text \<open>The queue a thread uses.\<close>

fun pc_qid :: "bench_pc \<Rightarrow> u16 option" where
  "pc_qid T_Alloc = None"
| "pc_qid (T_Create buf) = None"
| "pc_qid (T_Fill buf qp) = Some (qp_id qp)"
| "pc_qid (T_Loop l) = Some (qp_id (l_qp l))"
| "pc_qid (T_Poll l lba before) = Some (qp_id (l_qp l))"
| "pc_qid (T_Full l lba before) = Some (qp_id (l_qp l))"
| "pc_qid (T_Submit l lba before) = Some (qp_id (l_qp l))"
| "pc_qid (T_Drain l) = Some (qp_id (l_qp l))"
| "pc_qid (T_Finish l) = Some (qp_id (l_qp l))"

text \<open>Everything the memory invariant rests on.\<close>

definition surroundings :: "'d hw \<Rightarrow> ('m, 'd) mapping_ops \<Rightarrow> 'd rng \<Rightarrow> 'd rnd \<Rightarrow> usize set \<Rightarrow> 'm nvme_device \<Rightarrow> bool" where
  "surroundings hw ops gen rnd S dev \<longleftrightarrow> confined hw S \<and> dev_memory dev \<subseteq> S \<and> confined_ops ops S \<and> grants ops S
     \<and> rand_confined gen rnd S"

lemma ends_with_lock:
  assumes "ends (dev_inv dev0 S m0) m (sh_dev sh, w) (\<lambda>x _. Q x)" and "sh_inv dev0 S m0 (sh, w)"
  shows "ends (sh_inv dev0 S m0) (with_lock m) (sh, w) (\<lambda>x _. Q x)"
proof (rule endsI)
  fix r t assume run: "with_lock m (sh, w) = Some (r, t)"
  show "sh_inv dev0 S m0 t"
  proof (cases "sh_poisoned sh")
    case False
    then obtain r' dev w' where m: "m (sh_dev sh, w) = Some (r', (dev, w'))" "sh_dev (fst t) = dev" "snd t = w'"
      using run by (auto simp: with_lock_def mexpect_def split: option.splits outcome.splits)
    then show ?thesis using endsD(1) [OF assms(1) m(1)] by (cases t) (simp add: sh_inv_def)
  qed (use run assms(2) in \<open>auto simp: with_lock_def\<close>)
next
  fix x t assume "with_lock m (sh, w) = Some (Ret x, t)"
  then obtain s where "m (sh_dev sh, w) = Some (Ret x, s)"
    by (auto simp: with_lock_def mexpect_def split: option.splits outcome.splits if_splits)
  then show "Q x" by (rule endsD(2) [OF assms(1)])
qed

lemma on_pair_run:
  assumes "on_pair qp m (x, w) = Some (r, t)"
  obtains r' qp' w' where "m (qp, w) = Some (r', (qp', w'))" "t = (x, w')" "\<And>v. r = Ret v \<Longrightarrow> r' = Ret (fst v) \<and> snd v = qp'"
proof -
  obtain r' qp' w' where m: "m (qp, w) = Some (r', (qp', w'))" using assms by (auto simp: on_pair_def split: option.splits)
  then have "t = (x, w')" "\<And>v. r = Ret v \<Longrightarrow> r' = Ret (fst v) \<and> snd v = qp'"
    using assms by (cases r'; auto simp: on_pair_def)+
  then show ?thesis using that m by blast
qed

lemma ends_on_pair:
  assumes "keeps (pair_inv qp S m0) m" and "pair_safe S qp" and "sh_inv dev0 S m0 (sh, w)"
  shows "ends (sh_inv dev0 S m0) (on_pair qp m) (sh, w) (\<lambda>v _. pair_safe S (snd v) \<and> qp_id (snd v) = qp_id qp)"
proof -
  have i: "pair_inv qp S m0 (qp, w)" using assms(2,3) by (auto simp: pair_inv_def pair_safe_def sh_inv_def dev_inv_def)
  have e: "pair_safe S qp' \<and> qp_id qp' = qp_id qp \<and> sh_inv dev0 S m0 (sh, w')" if "m (qp, w) = Some (r, (qp', w'))" for r qp' w'
    using keepsD [OF assms(1) that i] assms(2,3)
    by (auto simp: pair_inv_def pair_safe_def sh_inv_def dev_inv_def pair_frame_def sq_frame_def)
  show ?thesis
  proof (rule endsI)
    fix r t assume "on_pair qp m (sh, w) = Some (r, t)"
    then show "sh_inv dev0 S m0 t" by (rule on_pair_run) (auto dest: e)
  next
    fix v t assume "on_pair qp m (sh, w) = Some (Ret v, t)"
    then show "pair_safe S (snd v) \<and> qp_id (snd v) = qp_id qp" by (rule on_pair_run) (auto dest: e)
  qed
qed

lemma sh_keeps_world:
  assumes "\<And>w. mem_frame S m0 w \<Longrightarrow> mem_frame S m0 (snd (f w))"
  shows "keeps (sh_inv dev0 S m0) (world_call f)"
  using assms by (auto simp: keeps_def world_call_def sh_inv_def dev_inv_def split: prod.splits) (metis snd_conv)

lemma ends_allocate:
  assumes "surroundings hw ops gen rnd S dev0" and "dev_inv dev0 S m0 s"
  shows "ends (dev_inv dev0 S m0) (on_world (op_allocate ops mem n)) s (\<lambda>d t. region d \<subseteq> S \<and> n \<le> dsize d)"
    and "ends (dev_inv dev0 S m0) (dev_allocate ops n) s (\<lambda>d _. region d \<subseteq> S)"
proof -
  have a: "ends (dev_inv dev0 S m0) (on_world (op_allocate ops mem n)) s (\<lambda>d t. region d \<subseteq> S \<and> n \<le> dsize d)"
    if "dev_inv dev0 S m0 s" for mem s
  proof (rule endsI)
    show "dev_inv dev0 S m0 t" if "on_world (op_allocate ops mem n) s = Some (r, t)" for r t
      using keepsD [OF keeps_allocator(1) that \<open>dev_inv dev0 S m0 s\<close>] assms(1) by (simp add: surroundings_def)
    show "region d \<subseteq> S \<and> n \<le> dsize d" if run: "on_world (op_allocate ops mem n) s = Some (Ret d, t)" for d t
    proof -
      obtain w w' where "op_allocate ops mem n w = Some (Ret d, w')"
        using run by (auto simp: on_world_def mzoom_run split: option.splits prod.splits)
      then show ?thesis using assms(1) unfolding surroundings_def grants_def by blast
    qed
  qed
  then show "ends (dev_inv dev0 S m0) (on_world (op_allocate ops mem n)) s (\<lambda>d t. region d \<subseteq> S \<and> n \<le> dsize d)"
    using assms(2) by blast
  show "ends (dev_inv dev0 S m0) (dev_allocate ops n) s (\<lambda>d _. region d \<subseteq> S)"
    unfolding dev_allocate_def using assms(2) by (intro ends_bind) (simp add: ends_mono [OF a])
qed

lemma on_world_seq: "on_world (mbind m f) = mbind (on_world m) (\<lambda>x. on_world (f x))" "on_world (mret x) = mret x"
  by (auto simp: on_world_def fun_eq_iff mbind_run mzoom_run mret_def split: option.splits outcome.splits prod.splits)

lemma ends_new_queues:
  assumes "surroundings hw ops gen rnd S dev0" and "dev_inv dev0 S m0 s" and "0 < len"
  shows "ends (dev_inv dev0 S m0) (on_world (cq_new (op_allocate ops mem) len db)) s (\<lambda>cq _. cq_within cq)"
    and "ends (dev_inv dev0 S m0) (on_world (sq_new (op_allocate ops mem) len db)) s
      (\<lambda>sq _. sq_within sq \<and> region (sq_commands sq) \<subseteq> S)"
proof -
  have len: "0 < min len 16384" "min len 16384 \<le> 16384" using assms(3) by (auto simp: min_def)
  show "ends (dev_inv dev0 S m0) (on_world (cq_new (op_allocate ops mem) len db)) s (\<lambda>cq _. cq_within cq)"
    unfolding cq_new_def on_world_seq
    by (rule ends_seq [OF ends_allocate(1) [OF assms(1,2)]]) (use len in \<open>auto simp: cq_within_def word_le_nat_alt\<close>)
  show "ends (dev_inv dev0 S m0) (on_world (sq_new (op_allocate ops mem) len db)) s
      (\<lambda>sq _. sq_within sq \<and> region (sq_commands sq) \<subseteq> S)"
    unfolding sq_new_def on_world_seq
    by (rule ends_seq [OF ends_allocate(1) [OF assms(1,2)]]) (use len in \<open>auto simp: sq_within_def word_le_nat_alt\<close>)
qed

lemma ends_create:
  assumes "surroundings hw ops gen rnd S dev0" and "dev_inv dev0 S m0 s" and "0 < len"
  shows "ends (dev_inv dev0 S m0) (create_io_queue_pair hw ops len) s (\<lambda>qp _. pair_safe S qp)"
proof -
  have g: "guarded hw S dev0" using assms(1) by (simp add: surroundings_def guarded_def)
  note admin = ends_keeps [OF keeps_admin [OF g], where Q = "\<lambda>_ _. True"]
    and q = ends_keeps [OF keeps_device_fields(3) [OF g], where Q = "\<lambda>_ _. True"]
    and new = ends_new_queues [OF assms(1) _ assms(3)]
  show ?thesis
    unfolding create_io_queue_pair_def Let_def
    apply (rule ends_get)
    apply (rule ends_seq [where P = "\<lambda>_ _. True"], simp add: assms(2))
    apply (rule ends_seq [OF new(1)], assumption)
    apply (rule ends_seq [OF admin], assumption, assumption, simp)
    apply (rule ends_seq [OF new(2)], assumption)
    apply (rule ends_seq [OF admin], assumption, assumption, simp)
    apply (rule ends_seq [OF q], assumption, assumption, simp)
    apply (simp add: pair_safe_def pair_ok_def)
    done
qed

lemma sh_keeps_now:
  assumes "surroundings hw ops gen rnd S dev0"
  shows "keeps (sh_inv dev0 S m0) (instant_now hw)" "keeps (sh_inv dev0 S m0) (next_lba gen r n lba)"
    "keeps (sh_inv dev0 S m0) (push_latency k)" "keeps (sh_inv dev0 S m0) (elapsed hw log before)"
proof -
  have c: "confined hw S" "rand_confined gen rnd S" using assms by (simp_all add: surroundings_def)
  show now: "keeps (sh_inv dev0 S m0) (instant_now hw)"
    using confined_keeps(6) [OF c(1)]
    by (auto simp: keeps_def instant_now_def sh_inv_def dev_inv_def split: prod.splits) (metis snd_conv)
  show "keeps (sh_inv dev0 S m0) (next_lba gen r n lba)"
    using c(2) unfolding next_lba_def
    by (intro keeps_intros sh_keeps_world) (simp add: rand_confined_def mem_frame_def)
  show push: "keeps (sh_inv dev0 S m0) (push_latency k)" for k
    unfolding push_latency_def by (intro keeps_modify) (auto simp: sh_inv_def)
  show "keeps (sh_inv dev0 S m0) (elapsed hw log before)"
    unfolding elapsed_def by (intro keeps_intros now push)
qed

lemma ends_fill:
  assumes "surroundings hw ops gen rnd S dev0" and "sh_inv dev0 S m0 s" and "region buf \<subseteq> S" and "n < 2 ^ 64"
  shows "ends (sh_inv dev0 S m0) (mbind (world_call (rnd n)) (dma_copy buf)) s (\<lambda>_ _. True)"
proof -
  obtain sh w bs w' where s: "s = (sh, w)" and r: "rnd n w = (bs, w')" by (metis surj_pair)
  have c: "rand_confined gen rnd S" using assms(1) by (simp add: surroundings_def)
  then have len: "length bs = n" using r unfolding rand_confined_def by (metis fst_conv)
  have m: "mem_frame S m0 w'"
    using c assms(2) r by (auto simp: rand_confined_def mem_frame_def sh_inv_def dev_inv_def s) (metis snd_conv)
  have "mem_frame S m0 (w'\<lparr>wmem := mem_write (wmem w') (virt buf) bs\<rparr>)" if "len_u64 bs \<le> dsize buf"
    using mem_frame_write [OF m assms(3)] mem_write_region [OF that] len assms(4) by simp
  then show ?thesis
    using assms(2) m r
    by (auto simp: ends_def s sh_inv_def dev_inv_def world_call_def dma_copy_def dma_index_to_def dma_index_range_def mbind_run split: if_splits)
qed

lemma ends_call:
  assumes "surroundings hw ops gen rnd S dev0" and "pair_safe S qp" and "sh_inv dev0 S m0 s"
    and "pair_guarded hw S qp \<Longrightarrow> keeps (pair_inv qp S m0) m"
  shows "ends (sh_inv dev0 S m0) (on_pair qp m) s (\<lambda>v _. pair_safe S (snd v) \<and> qp_id (snd v) = qp_id qp)"
proof -
  have "pair_guarded hw S qp" using assms(1,2) by (simp add: pair_guarded_def pair_safe_def surroundings_def)
  from ends_on_pair [OF assms(4) [OF this] assms(2), of dev0 "fst s" "snd s"] assms(3)
  show ?thesis by simp
qed

lemma ends_submit_slice:
  assumes "surroundings hw ops gen rnd S dev0" and "pair_safe S qp" and "sh_inv dev0 S m0 s"
  shows "ends (sh_inv dev0 S m0) (submit_slice hw buf qp out lba write) s (\<lambda>v _. pair_safe S (snd v) \<and> qp_id (snd v) = qp_id qp)"
  unfolding submit_slice_def
  by (intro ends_bind ends_lift assms(3) ends_call [OF assms] pair_keeps)

text \<open>Where a step from \<open>pc\<close> may lead.\<close>

abbreviation pc_end :: "usize set \<Rightarrow> bench_pc \<Rightarrow> bench_pc + 'r \<Rightarrow> 's \<Rightarrow> bool" where
  "pc_end S pc v t \<equiv> (case v of
     Inl pc' \<Rightarrow> pc_safe S pc' \<and> (pc_qid pc \<noteq> None \<longrightarrow> pc_qid pc' = pc_qid pc) \<and> (pc = T_Alloc \<longrightarrow> pc_qid pc' = None)
   | Inr _ \<Rightarrow> True)"

lemma bench_drain_safe:
  assumes "surroundings hw ops gen rnd S dev0" and "sh_inv dev0 S m0 s" and "pc_safe S (T_Drain l)"
  shows "ends (sh_inv dev0 S m0) (bench_step hw ops gen rnd b (T_Drain l)) s (pc_end S (T_Drain l))"
proof -
  note now = ends_keeps [OF sh_keeps_now(1) [OF assms(1)] _ _ TrueI]
    and el = ends_keeps [OF sh_keeps_now(4) [OF assms(1)] _ _ TrueI]
  have l: "region (l_buf l) \<subseteq> S" "pair_safe S (l_qp l)" using assms(3) by simp_all
  show ?thesis
    unfolding bench_step.simps
  proof (rule ends_seq [where P = "\<lambda>l' _. region (l_buf l') \<subseteq> S \<and> pair_safe S (l_qp l') \<and> qp_id (l_qp l') = qp_id (l_qp l)"])
    show "ends (sh_inv dev0 S m0) (if l_out l \<noteq> 0
        then mbind (instant_now hw) (\<lambda>before. mbind (on_pair (l_qp l) (qp_complete_io hw (l_out l))) (\<lambda>(_, qp).
             mbind (elapsed hw (b_log b) before) (\<lambda>spent. mret (l\<lparr>l_qp := qp, l_total := l_total l + spent\<rparr>))))
        else mret l) s (\<lambda>l' _. region (l_buf l') \<subseteq> S \<and> pair_safe S (l_qp l') \<and> qp_id (l_qp l') = qp_id (l_qp l))"
      using assms(2) l
      by (auto intro!: ends_seq [OF now] ends_seq [OF ends_call [OF assms(1) l(2) _ pair_keeps_calls(2)]] ends_seq [OF el])
  qed (auto intro!: ends_bind)
qed

lemma bench_step_safe:
  assumes "surroundings hw ops gen rnd S dev0" and "sh_inv dev0 S m0 s" and "pc_safe S pc"
  shows "ends (sh_inv dev0 S m0) (bench_step hw ops gen rnd b pc) s (pc_end S pc)"
proof -
  have g: "guarded hw S dev0" "confined_ops ops S" using assms(1) by (simp_all add: surroundings_def guarded_def)
  obtain sh w where s: "s = (sh, w)" by (cases s)
  then have d: "dev_inv dev0 S m0 (sh_dev sh, w)" using assms(2) by (simp add: sh_inv_def)
  note now = ends_keeps [OF sh_keeps_now(1) [OF assms(1)] _ _ TrueI]
    and lba = ends_keeps [OF sh_keeps_now(2) [OF assms(1)] _ _ TrueI]
    and el = ends_keeps [OF sh_keeps_now(4) [OF assms(1)] _ _ TrueI]
    and call = ends_call [OF assms(1)] and sub = ends_submit_slice [OF assms(1)]
  show ?thesis
  proof (cases pc)
    case T_Alloc
    then show ?thesis using ends_with_lock [OF ends_allocate(2) [OF assms(1) d]] assms(2) s
      by (auto intro!: ends_seq simp del: mret_run)
  next
    case (T_Create buf)
    have "ends (sh_inv dev0 S m0) (with_lock (create_io_queue_pair hw ops QUEUE_LENGTH)) s (\<lambda>qp _. pair_safe S qp)"
      using ends_with_lock [OF ends_create [OF assms(1) d]] assms(2) s by simp
    then show ?thesis unfolding T_Create bench_step.simps by (rule ends_seq) (use assms(3) T_Create in simp)
  next
    case (T_Fill buf qp)
    have "unat (b_depth b * 4096) < 2 ^ 64" by simp
    from ends_fill [OF assms(1,2) _ this, of buf] show ?thesis using assms(3)
      by (auto simp: T_Fill mbind_assoc intro!: ends_seq [of _ "mbind (world_call (rnd (unat (b_depth b * 4096)))) (dma_copy buf)"]
          simp flip: mbind_assoc simp del: mret_run)
  next
    case (T_Loop l)
    then show ?thesis using assms(2,3) by (auto intro!: ends_seq [OF lba] ends_seq [OF now] simp del: mret_run)
  next
    case (T_Poll l lba before)
    then show ?thesis using assms(2,3)
      by (auto intro!: ends_seq [OF call [OF _ _ pair_keeps_calls(3)]] simp: l_done_def simp del: mret_run split: option.splits)
  next
    case (T_Full l lba before)
    then show ?thesis using assms(2,3)
      by (auto intro!: ends_seq [OF call [OF _ _ pair_keeps_calls(2)]] simp: l_done_def simp del: mret_run)
  next
    case (T_Submit l lba before)
    then show ?thesis using assms(2,3) by (auto intro!: ends_seq [OF sub] ends_seq [OF el] simp del: mret_run)
  next
    case (T_Drain l)
    show ?thesis unfolding T_Drain by (rule bench_drain_safe [OF assms(1,2) assms(3) [unfolded T_Drain]])
  next
    case (T_Finish l)
    have "ends (dev_inv dev0 S m0) (delete_io_queue_pair hw ops (l_qp l)) (sh_dev sh, w) (\<lambda>_ _. True)"
      by (rule ends_keeps [OF keeps_pairs(2) [OF g] d _ TrueI])
    from ends_with_lock [OF this] show ?thesis using T_Finish assms(2) s by (auto intro!: ends_seq simp del: mret_run)
  qed
qed

subsection \<open>The lock and the queue identifiers\<close>

text \<open>Outside the lock a thread touches neither the device nor the flag of its lock.\<close>

named_theorems local_keeps \<open>computations of a thread that do not take the lock\<close>

abbreviation lock_view :: "('m nvme_device \<Rightarrow> bool \<Rightarrow> bool) \<Rightarrow> ('m, 'd) sh_state \<Rightarrow> bool" where
  "lock_view P \<equiv> (\<lambda>(sh, w). P (sh_dev sh) (sh_poisoned sh))"

lemma local_keeps_basic [local_keeps]:
  "keeps (lock_view P) (on_pair qp m)" "keeps (lock_view P) (world_call f)" "keeps (lock_view P) (instant_now hw)"
  "keeps (lock_view P) (push_latency n)" "keeps (lock_view P) (dma_copy buf bs)"
proof -
  show "keeps (lock_view P) (on_pair qp m)" by (auto intro!: keepsI elim: on_pair_run)
  show "keeps (lock_view P) (dma_copy buf bs)"
    unfolding dma_copy_def by (intro keeps_intros keeps_modify) auto
qed (auto simp: keeps_def world_call_def instant_now_def push_latency_def split: prod.splits)

lemma local_keeps_calls [local_keeps]:
  "keeps (lock_view P) (next_lba gen r n lba)" "keeps (lock_view P) (elapsed hw log before)"
  "keeps (lock_view P) (submit_slice hw buf qp out lba wr)"
  unfolding next_lba_def elapsed_def submit_slice_def by (intro keeps_intros local_keeps)+

lemma with_lock_ends:
  assumes "keeps (\<lambda>(dev, w). D dev) m" and "D (sh_dev sh)"
  shows "ends (\<lambda>(sh, w). D (sh_dev sh)) (with_lock m) (sh, w) (\<lambda>_ (sh', w). sh_poisoned sh' \<longrightarrow> sh_poisoned sh)"
proof -
  have "D dev" if "m (sh_dev sh, w) = Some (r, (dev, w'))" for r dev w'
    using keepsD [OF assms(1) that] assms(2) by simp
  then show ?thesis using assms(2)
    by (auto simp: ends_def with_lock_def mexpect_def split: option.splits outcome.splits if_splits)
qed

lemma q_id_keeps:
  "keeps (\<lambda>(dev, w). dev_q_id dev = q) (dev_allocate ops n)" "keeps (\<lambda>(dev, w). dev_q_id dev = q) (submit_and_complete_admin hw cmd)"
  "keeps (\<lambda>(dev, w). dev_q_id dev = q) (on_world m)" "keeps (\<lambda>(dev, w). dev_q_id dev = q) (delete_io_queue_pair hw ops qp)"
proof -
  show a: "keeps (\<lambda>(dev, w). dev_q_id dev = q) (on_world m)" for m
    unfolding on_world_def by (rule keeps_zoom [OF keepsI [of "\<lambda>_. True"]]) auto
  show "keeps (\<lambda>(dev, w). dev_q_id dev = q) (dev_allocate ops n)"
    unfolding dev_allocate_def by (intro keeps_intros a)
  have sq: "keeps (\<lambda>(dev, w). dev_q_id dev = q) (on_admin_sq m)" for m
    unfolding on_admin_sq_def by (rule keeps_zoom [OF keepsI [of "\<lambda>_. True"]]) auto
  have cq: "keeps (\<lambda>(dev, w). dev_q_id dev = q) (on_admin_cq m)" for m
    unfolding on_admin_cq_def by (rule keeps_zoom [OF keepsI [of "\<lambda>_. True"]]) auto
  have reg: "keeps (\<lambda>(dev, w). dev_q_id dev = q) (write_reg_idx hw reg i v)" for reg i v
    unfolding write_reg_idx_def write_volatile32_def
    by (cases reg) (auto intro!: keeps_intros keeps_modify)
  show adm: "keeps (\<lambda>(dev, w). dev_q_id dev = q) (submit_and_complete_admin hw cmd)" for cmd
    unfolding submit_and_complete_admin_def by (intro keeps_intros sq cq reg)
  show "keeps (\<lambda>(dev, w). dev_q_id dev = q) (delete_io_queue_pair hw ops qp)"
    unfolding delete_io_queue_pair_def dev_deallocate_def by (intro keeps_intros adm a)
qed

text \<open>Creating a queue pair takes the next identifier, or none if it fails.\<close>

definition takes_id :: "u16 \<Rightarrow> (('m, 'd) dev_state, nvme_queue_pair) comp \<Rightarrow> bool" where
  "takes_id q m \<longleftrightarrow> (\<forall>s r t. dev_q_id (fst s) = q \<longrightarrow> m s = Some (r, t) \<longrightarrow>
     (case r of Ret qp \<Rightarrow> qp_id qp = q \<and> dev_q_id (fst t) = q + 1 | _ \<Rightarrow> dev_q_id (fst t) = q))"

lemma takes_idD:
  "takes_id q m \<Longrightarrow> m s = Some (r, t) \<Longrightarrow> dev_q_id (fst s) = q \<Longrightarrow>
    case r of Ret qp \<Rightarrow> qp_id qp = q \<and> dev_q_id (fst t) = q + 1 | _ \<Rightarrow> dev_q_id (fst t) = q"
  unfolding takes_id_def by blast

lemma takes_id_bind:
  assumes "keeps (\<lambda>(dev, w). dev_q_id dev = q) m" and "\<And>x. takes_id q (f x)"
  shows "takes_id q (mbind m f)"
  unfolding takes_id_def
proof (intro allI impI)
  fix s r t assume s: "dev_q_id (fst s) = q" and run: "mbind m f s = Some (r, t)"
  obtain r' t' where m: "m s = Some (r', t')" using run by (cases "m s") (auto simp: mbind_run)
  then have "dev_q_id (fst t') = q" using keepsD [OF assms(1) m] s by (simp add: case_prod_beta)
  then show "case r of Ret qp \<Rightarrow> qp_id qp = q \<and> dev_q_id (fst t) = q + 1 | _ \<Rightarrow> dev_q_id (fst t) = q"
    using run m takes_idD [OF assms(2)] by (cases r') (auto simp: mbind_run)
qed

lemma takes_id_get:
  assumes "\<And>s0. dev_q_id (fst s0) = q \<Longrightarrow> takes_id q (f (g s0))"
  shows "takes_id q (mbind (mget g) f)"
  using assms by (fastforce simp: takes_id_def mbind_run)

lemma create_takes_id: "takes_id q (create_io_queue_pair hw ops len)"
proof -
  have last: "takes_id q (mbind (mmodify (\<lambda>(dev, w). (dev\<lparr>dev_q_id := dev_q_id dev + 1\<rparr>, w)))
      (\<lambda>_. mret \<lparr>qp_id = q, sub_queue = sq, comp_queue = cq\<rparr>))" for sq cq
    by (auto simp: takes_id_def mbind_run)
  show ?thesis
    unfolding create_io_queue_pair_def Let_def
    by (rule takes_id_get) (simp, intro takes_id_bind keeps_intros q_id_keeps last)
qed

lemma create_step_id:
  assumes "bench_step hw ops gen rnd b (T_Create buf) (sh, w) = Some (r, (sh', w'))"
  shows "case r of Ret v \<Rightarrow> (\<exists>qp. v = Inl (T_Fill buf qp) \<and> qp_id qp = dev_q_id (sh_dev sh))
        \<and> dev_q_id (sh_dev sh') = dev_q_id (sh_dev sh) + 1 \<and> (sh_poisoned sh' \<longrightarrow> sh_poisoned sh)
      | _ \<Rightarrow> dev_q_id (sh_dev sh') = dev_q_id (sh_dev sh)"
proof (cases "sh_poisoned sh")
  case True
  then show ?thesis using assms by (auto simp: with_lock_def mbind_run)
next
  case False
  then obtain r1 dev1 w1 where c: "create_io_queue_pair hw ops QUEUE_LENGTH (sh_dev sh, w) = Some (r1, (dev1, w1))"
    using assms by (auto simp: with_lock_def mexpect_def mbind_run split: option.splits)
  have "case r1 of Ret qp \<Rightarrow> qp_id qp = dev_q_id (sh_dev sh) \<and> dev_q_id dev1 = dev_q_id (sh_dev sh) + 1
      | _ \<Rightarrow> dev_q_id dev1 = dev_q_id (sh_dev sh)"
    using takes_idD [OF create_takes_id c refl] by (cases r1) simp_all
  then show ?thesis using False assms c
    by (cases r1) (auto simp: with_lock_def mexpect_def mbind_run)
qed

lemma local_steps:
  assumes "pc \<noteq> T_Alloc" and "\<forall>buf. pc \<noteq> T_Create buf" and "\<forall>l. pc \<noteq> T_Finish l"
  shows "keeps (lock_view P) (bench_step hw ops gen rnd b pc)"
  using assms by (cases pc) (simp_all del: mret_run add: keeps_intros local_keeps)

lemma other_step_id:
  assumes "\<forall>buf. pc \<noteq> T_Create buf"
  shows "ends (\<lambda>(sh', w). dev_q_id (sh_dev sh') = dev_q_id (sh_dev sh)) (bench_step hw ops gen rnd b pc) (sh, w)
    (\<lambda>_ (sh', w). sh_poisoned sh' \<longrightarrow> sh_poisoned sh)"
proof -
  let ?P = "\<lambda>dev poisoned. dev_q_id dev = dev_q_id (sh_dev sh) \<and> (poisoned \<longrightarrow> sh_poisoned sh)"
  have local: ?thesis if "pc \<noteq> T_Alloc" "\<forall>l. pc \<noteq> T_Finish l"
    by (rule ends_keeps [OF local_steps [where P = ?P, OF that(1) assms that(2)]]) auto
  note lock = with_lock_ends [where D = "\<lambda>dev. dev_q_id dev = dev_q_id (sh_dev sh)", OF q_id_keeps(1) refl]
    with_lock_ends [where D = "\<lambda>dev. dev_q_id dev = dev_q_id (sh_dev sh)", OF q_id_keeps(4) refl]
  show ?thesis
  proof (cases pc)
    case T_Alloc
    then show ?thesis by (auto intro!: ends_seq [OF lock(1)] simp del: mret_run split: prod.splits)
  next
    case (T_Finish l)
    then show ?thesis by (auto intro!: ends_seq [OF lock(2)] simp del: mret_run split: prod.splits)
  qed (rule local; simp)+
qed

subsection \<open>All interleavings\<close>

definition thread_qid :: "(bench_pc, 'r) thread \<Rightarrow> u16 option" where
  "thread_qid t = (case t of Running pc \<Rightarrow> pc_qid pc | _ \<Rightarrow> None)"

definition is_begun :: "(bench_pc, 'r) thread \<Rightarrow> bool" where
  "is_begun t \<longleftrightarrow> (case t of Running pc \<Rightarrow> pc_qid pc \<noteq> None | _ \<Rightarrow> True)"

definition begun :: "(bench_pc, 'r) thread list \<Rightarrow> nat set" where
  "begun ts = {i. i < length ts \<and> is_begun (ts ! i)}"

lemma begun_update:
  "i < length ts \<Longrightarrow> begun (ts[i := t]) = (if is_begun t then insert i (begun ts) else begun ts - {i})"
  by (auto simp: begun_def nth_list_update split: if_splits)

lemma finite_begun [simp]: "finite (begun ts)"
  by (simp add: begun_def)

text \<open>\<open>K\<close> identifiers have been given out, from \<open>q0\<close> on, and the threads that run have different ones.\<close>

definition ids_ok :: "u16 \<Rightarrow> (bench_pc, 'r) thread list \<Rightarrow> u16 \<Rightarrow> bool" where
  "ids_ok q0 ts q \<longleftrightarrow> (\<exists>K. q = q0 + of_nat K \<and> K \<le> card (begun ts)
     \<and> (\<forall>i < length ts. \<forall>x. thread_qid (ts ! i) = Some x \<longrightarrow> (\<exists>k<K. x = q0 + of_nat k))
     \<and> (\<forall>i < length ts. \<forall>j < length ts. \<forall>x. i \<noteq> j \<longrightarrow> thread_qid (ts ! i) = Some x \<longrightarrow> thread_qid (ts ! j) \<noteq> Some x))"

lemma of_nat_u16_eq: "k < K \<Longrightarrow> K < 65536 \<Longrightarrow> (of_nat k :: u16) \<noteq> of_nat K"
  by (auto dest!: arg_cong [where f = unat] simp: unat_of_nat)

lemma ids_ok_same:
  assumes "ids_ok q0 ts q" and "i < length ts" and "thread_qid t = None \<or> thread_qid t = thread_qid (ts ! i)"
    and "i \<in> begun ts \<longrightarrow> is_begun t"
  shows "ids_ok q0 (ts[i := t]) q"
proof -
  obtain K where K: "q = q0 + of_nat K" "K \<le> card (begun ts)"
      "\<And>j x. j < length ts \<Longrightarrow> thread_qid (ts ! j) = Some x \<Longrightarrow> \<exists>k<K. x = q0 + of_nat k"
      "\<And>j j' x. j < length ts \<Longrightarrow> j' < length ts \<Longrightarrow> j \<noteq> j' \<Longrightarrow> thread_qid (ts ! j) = Some x \<Longrightarrow> thread_qid (ts ! j') \<noteq> Some x"
    using assms(1) unfolding ids_ok_def by blast
  have q: "thread_qid (ts[i := t] ! j) = Some x \<Longrightarrow> thread_qid (ts ! j) = Some x" for j x
    using assms(2,3) by (cases "i = j") auto
  have "begun ts \<subseteq> begun (ts[i := t])" using assms(4) by (auto simp: begun_update [OF assms(2)])
  then have "K \<le> card (begun (ts[i := t]))" using K(2) card_mono [OF finite_begun] by (meson le_trans)
  then show ?thesis unfolding ids_ok_def using K q by (intro exI [of _ K]) (metis length_list_update)
qed

lemma ids_ok_fresh:
  assumes "ids_ok q0 ts q" and "i < length ts" and "i \<notin> begun ts" and "length ts \<le> 65536" and "thread_qid t = Some q"
  shows "ids_ok q0 (ts[i := t]) (q + 1)"
proof -
  obtain K where K: "q = q0 + of_nat K" "K \<le> card (begun ts)"
      "\<And>j x. j < length ts \<Longrightarrow> thread_qid (ts ! j) = Some x \<Longrightarrow> \<exists>k<K. x = q0 + of_nat k"
      "\<And>j j' x. j < length ts \<Longrightarrow> j' < length ts \<Longrightarrow> j \<noteq> j' \<Longrightarrow> thread_qid (ts ! j) = Some x \<Longrightarrow> thread_qid (ts ! j') \<noteq> Some x"
    using assms(1) unfolding ids_ok_def by blast
  have sub: "begun ts \<subseteq> {..<length ts} - {i}" using assms(3) by (auto simp: begun_def)
  have "card (begun ts) \<le> length ts - 1" using card_mono [OF _ sub] assms(2) by simp
  then have "K < 65536" using K(2) assms(2,4) by linarith
  then have new: "x \<noteq> q" if "j < length ts" "thread_qid (ts ! j) = Some x" for j x
    using K(3) [OF that] K(1) of_nat_u16_eq by auto
  have "is_begun t" using assms(5) by (auto simp: thread_qid_def is_begun_def split: thread.splits)
  then have "Suc K \<le> card (begun (ts[i := t]))" using K(2) assms(3) by (simp add: begun_update [OF assms(2)])
  moreover have "\<exists>k<Suc K. x = q0 + of_nat k" if "j < length ts" "thread_qid (ts[i := t] ! j) = Some x" for j x
    using that K(1) K(3) [of j x] assms(5) by (cases "j = i") (auto intro: less_SucI)
  moreover have "thread_qid (ts[i := t] ! j') \<noteq> Some x"
    if "j < length ts" "j' < length ts" "j \<noteq> j'" "thread_qid (ts[i := t] ! j) = Some x" for j j' x
    using that K(4) [of j j' x] new assms(5) by (cases "j = i"; cases "j' = i") auto
  ultimately show ?thesis unfolding ids_ok_def using K(1) by (intro exI [of _ "Suc K"]) (auto simp: add.assoc)
qed

text \<open>The invariant of all threads together.\<close>

definition threads_ok :: "'m nvme_device \<Rightarrow> usize set \<Rightarrow> memory \<Rightarrow> (bench_pc, 'r, ('m, 'd) sh_state) threads \<Rightarrow> bool" where
  "threads_ok dev0 S m0 = (\<lambda>(ts, sh, w). sh_inv dev0 S m0 (sh, w) \<and> length ts \<le> 65536
     \<and> (\<forall>pc. Running pc \<in> set ts \<longrightarrow> pc_safe S pc) \<and> ids_ok (dev_q_id dev0) ts (dev_q_id (sh_dev sh)))"

lemma bench_thread_ok:
  assumes "surroundings hw ops gen rnd S dev0" and ok: "threads_ok dev0 S m0 (ts, sh, w)"
    and i: "i < length ts" "ts ! i = Running pc" and adv: "advance (bench_step hw ops gen rnd b) pc (sh, w) = Some (t, (sh', w'))"
  shows "threads_ok dev0 S m0 (ts[i := t], sh', w')"
proof -
  have safe: "sh_inv dev0 S m0 (sh, w)" "pc_safe S pc" "length ts \<le> 65536" "ids_ok (dev_q_id dev0) ts (dev_q_id (sh_dev sh))"
    using ok nth_mem [OF i(1)] i(2) by (auto simp: threads_ok_def)
  from adv obtain r where run: "bench_step hw ops gen rnd b pc (sh, w) = Some (r, (sh', w'))"
    and t: "t = (case r of Ret v \<Rightarrow> (case v of Inl p' \<Rightarrow> Running p' | Inr x \<Rightarrow> Finished x)
      | Err e \<Rightarrow> Crashed Unwrap_failed | Panic q \<Rightarrow> Crashed q)"
    by (rule advance_cases)
  note e = bench_step_safe [OF assms(1) safe(1,2), where b = b]
  have inv: "sh_inv dev0 S m0 (sh', w')" by (rule endsD(1) [OF e run])
  have next_pc: "pc_end S pc (Inl pc') (sh', w')" if "t = Running pc'" for pc'
  proof -
    have "r = Ret (Inl pc')" using t that by (cases r) (auto split: sum.splits)
    then show ?thesis using endsD(2) [OF e, of "Inl pc'"] run by simp
  qed
  have "ids_ok (dev_q_id dev0) (ts[i := t]) (dev_q_id (sh_dev sh'))"
  proof (cases "\<exists>buf. pc = T_Create buf")
    case True
    then obtain buf where pc: "pc = T_Create buf" by blast
    note c = create_step_id [OF run [unfolded pc]]
    show ?thesis
    proof (cases "\<exists>v. r = Ret v")
      case True
      then obtain qp where "r = Ret (Inl (T_Fill buf qp))" "qp_id qp = dev_q_id (sh_dev sh)"
          "dev_q_id (sh_dev sh') = dev_q_id (sh_dev sh) + 1"
        using c by auto
      then show ?thesis using ids_ok_fresh [OF safe(4) i(1) _ safe(3), of t] i t pc
        by (simp add: begun_def is_begun_def thread_qid_def)
    next
      case False
      then have "dev_q_id (sh_dev sh') = dev_q_id (sh_dev sh)" "\<exists>q. t = Crashed q" using c t by (cases r; auto)+
      then show ?thesis using ids_ok_same [OF safe(4) i(1), of t] by (auto simp: thread_qid_def is_begun_def)
    qed
  next
    case False
    then have "dev_q_id (sh_dev sh') = dev_q_id (sh_dev sh)"
      using endsD(1) [OF other_step_id run] by simp
    moreover have "thread_qid t = None \<or> thread_qid t = thread_qid (ts ! i)" "i \<in> begun ts \<longrightarrow> is_begun t"
      using next_pc i False by (cases t; cases pc; auto simp: thread_qid_def begun_def is_begun_def)+
    ultimately show ?thesis using ids_ok_same [OF safe(4) i(1)] by simp
  qed
  then show ?thesis
    using ok inv next_pc by (auto simp: threads_ok_def dest!: subsetD [OF set_update_subset_insert])
qed

text \<open>
  C15. Many threads, one device. In every interleaving of up to 65536 threads of the measurement, with
  every controller, allocator and source of random numbers that write only inside \<open>S\<close>, whatever
  fails on the way: the device keeps its invariant and its layout; every thread's rings stay inside
  their memory and its buffer inside \<open>S\<close>; no two threads work on a queue with the same identifier; and
  no byte outside \<open>S\<close> changes.
\<close>

theorem threads_share_safely:
  assumes "par_runs (bench_step hw ops gen rnd b) (world_tick hw)
      (replicate n (Running T_Alloc), (new_shared dev, w)) tr (ts, (sh, w'))"
    and "dev_ok dev" and "surroundings hw ops gen rnd S dev" and "n \<le> 65536"
  shows "dev_ok (sh_dev sh) \<and> same_layout dev (sh_dev sh) \<and> (\<forall>x. x \<notin> S \<longrightarrow> wmem w' x = wmem w x)
    \<and> (\<forall>pc. Running pc \<in> set ts \<longrightarrow> pc_safe S pc)
    \<and> (\<forall>i < length ts. \<forall>j < length ts. \<forall>q. i \<noteq> j \<longrightarrow> thread_qid (ts ! i) = Some q \<longrightarrow> thread_qid (ts ! j) \<noteq> Some q)"
proof -
  have "ids_ok (dev_q_id dev) (replicate n (Running T_Alloc)) (dev_q_id dev)"
    unfolding ids_ok_def by (rule exI [of _ 0]) (simp add: thread_qid_def)
  then have "threads_ok dev S (wmem w) (replicate n (Running T_Alloc), new_shared dev, w)"
    using assms(2,4) by (auto simp: threads_ok_def sh_inv_def dev_inv_def same_layout_def mem_frame_def new_shared_def)
  from assms(1) this have "threads_ok dev S (wmem w) (ts, sh, w')"
  proof (rule par_runs_keeps)
    fix c l c'
    assume ok: "threads_ok dev S (wmem w) c" and "par_step (bench_step hw ops gen rnd b) (world_tick hw) c l c'"
    from this(2) show "threads_ok dev S (wmem w) c'"
    proof cases
      case (run i ts p s t s')
      then show ?thesis using bench_thread_ok [OF assms(3)] ok by (cases s; cases s') auto
    next
      case (env ts s)
      obtain sh w1 where s: "s = (sh, w1)" by (cases s)
      have "mem_frame S (wmem w) (hw_tick hw w1)" if "mem_frame S (wmem w) w1"
        using confined_keeps(1) that assms(3) by (auto simp: surroundings_def)
      then show ?thesis using ok env s by (simp add: threads_ok_def sh_inv_def dev_inv_def world_tick_def)
    qed
  qed
  then show ?thesis unfolding threads_ok_def sh_inv_def dev_inv_def mem_frame_def ids_ok_def by blast
qed

subsection \<open>What is reported\<close>

fun is_submit :: "bench_pc \<Rightarrow> bool" where
  "is_submit (T_Submit l lba before) = True"
| "is_submit _ = False"

text \<open>A thread that has made \<open>n\<close> requests: what its counters say, and that it stops only when the time is up.\<close>

fun pc_counts :: "bench \<Rightarrow> nat \<Rightarrow> bench_pc \<Rightarrow> bool" where
  "pc_counts b n T_Alloc \<longleftrightarrow> n = 0"
| "pc_counts b n (T_Create buf) \<longleftrightarrow> n = 0"
| "pc_counts b n (T_Fill buf qp) \<longleftrightarrow> n = 0"
| "pc_counts b n (T_Loop l) \<longleftrightarrow> l_ops l + l_out l = of_nat n"
| "pc_counts b n (T_Poll l lba before) \<longleftrightarrow> l_ops l + l_out l = of_nat n"
| "pc_counts b n (T_Full l lba before) \<longleftrightarrow> l_ops l + l_out l = of_nat n"
| "pc_counts b n (T_Submit l lba before) \<longleftrightarrow> l_ops l + l_out l = of_nat n"
| "pc_counts b n (T_Drain l) \<longleftrightarrow> l_ops l + l_out l = of_nat n \<and> b_duration b \<le> l_total l"
| "pc_counts b n (T_Finish l) \<longleftrightarrow> l_ops l = of_nat n \<and> b_duration b \<le> l_total l"

definition counts :: "bench \<Rightarrow> nat \<Rightarrow> (bench_pc, u64 \<times> nat) thread \<Rightarrow> bool" where
  "counts b n t = (case t of
     Running pc \<Rightarrow> pc_counts b n pc
   | Finished r \<Rightarrow> fst r = of_nat n \<and> b_duration b \<le> snd r
   | Crashed p \<Rightarrow> True)"

lemma bench_step_counts:
  assumes "pc_counts b n pc"
  shows "ends (\<lambda>_. True) (bench_step hw ops gen rnd b pc) s
    (\<lambda>v _. counts b (n + (if is_submit pc then 1 else 0)) (case v of Inl p \<Rightarrow> Running p | Inr r \<Rightarrow> Finished r))"
proof (cases pc)
  case (T_Drain l)
  show ?thesis
    unfolding T_Drain bench_step.simps
  proof (rule ends_seq [where P = "\<lambda>l' _. l_ops l' = l_ops l \<and> l_out l' = l_out l \<and> l_total l \<le> l_total l'"])
    show "ends (\<lambda>_. True) (if l_out l \<noteq> 0
        then mbind (instant_now hw) (\<lambda>before. mbind (on_pair (l_qp l) (qp_complete_io hw (l_out l))) (\<lambda>(_, qp).
             mbind (elapsed hw (b_log b) before) (\<lambda>spent. mret (l\<lparr>l_qp := qp, l_total := l_total l + spent\<rparr>))))
        else mret l) s (\<lambda>l' _. l_ops l' = l_ops l \<and> l_out l' = l_out l \<and> l_total l \<le> l_total l')"
      by (auto intro!: ends_any simp del: mret_run)
  qed (use assms T_Drain in \<open>auto simp: counts_def intro!: ends_bind\<close>)
qed (use assms in \<open>auto simp: counts_def l_done_def intro!: ends_any simp del: mret_run split: option.splits\<close>)

text \<open>The lock is poisoned only if a thread has crashed.\<close>

lemma poisoned_crashed:
  assumes "par_runs (bench_step hw ops gen rnd b) (world_tick hw) (ts0, (sh0, w0)) tr (ts, (sh, w))"
    and "\<not> sh_poisoned sh0" and "sh_poisoned sh"
  shows "\<exists>p. Crashed p \<in> set ts"
proof -
  let ?P = "\<lambda>(ts, sh, w). sh_poisoned sh \<longrightarrow> (\<exists>p. Crashed p \<in> set ts)"
  have "?P (ts, sh, w)"
    using assms(1)
  proof (rule par_runs_keeps)
    show "?P (ts0, sh0, w0)" using assms(2) by simp
    fix c l c' assume P: "?P c" and "par_step (bench_step hw ops gen rnd b) (world_tick hw) c l c'"
    from this(2) show "?P c'"
    proof cases
      case (run i ts pc s t s')
      obtain sh w sh' w' where s: "s = (sh, w)" "s' = (sh', w')" by (metis surj_pair)
      obtain r where r: "bench_step hw ops gen rnd b pc (sh, w) = Some (r, (sh', w'))"
        and t: "t = (case r of Ret v \<Rightarrow> (case v of Inl p' \<Rightarrow> Running p' | Inr x \<Rightarrow> Finished x)
          | Err e \<Rightarrow> Crashed Unwrap_failed | Panic q \<Rightarrow> Crashed q)"
        using run(6) unfolding s by (rule advance_cases)
      show ?thesis
      proof (cases "\<exists>v. r = Ret v")
        case True
        then have "sh_poisoned sh' \<longrightarrow> sh_poisoned sh"
          using r create_step_id [of hw ops gen rnd b _ sh w] endsD(2) [OF other_step_id [of pc]]
          by (cases "\<exists>buf. pc = T_Create buf") fastforce+
        moreover have "Crashed p \<in> set (ts[i := t])" if "Crashed p \<in> set ts" for p
          using that run(4,5) by (metis in_set_conv_nth length_list_update nth_list_update_neq thread.distinct(3))
        ultimately show ?thesis using P run(1,3) s by auto
      next
        case False
        then have "\<exists>p. t = Crashed p" using t by (cases r) auto
        then show ?thesis using run(3,4) s by (auto dest: set_update_memI)
      qed
    next
      case (env ts s)
      then show ?thesis using P by (cases s) (simp add: world_tick_def)
    qed
  qed
  then show ?thesis using assms(3) by simp
qed

lemma spawn_join_Ret:
  assumes "spawn_join step p hw sched n s = Some (r, t)"
  obtains ts tr where "par_runs step (world_tick hw) (replicate (unat n) (Running p), s) tr (ts, t)"
    "\<And>p. Running p \<notin> set ts" "join_all ts t = Some (r, t)"
proof -
  obtain ts u where run: "run_threads step (world_tick hw) sched 0 (replicate (unat n) (Running p)) s = Some (ts, u)"
      and j: "join_all ts u = Some (r, t)"
    using assms by (auto simp: spawn_join_def split: option.splits)
  have "t = u" using j by (induction ts arbitrary: r t) (auto simp: mbind_run split: thread.splits option.splits outcome.splits)
  then show ?thesis using that run_threads_par_runs [OF run] j by auto
qed

lemma join_all_outcome:
  "(\<And>p. Running p \<notin> set ts) \<Longrightarrow> \<exists>r. join_all ts s = Some (r, s) \<and> (case r of
     Ret rs \<Rightarrow> ts = map Finished rs | Err e \<Rightarrow> False | Panic p \<Rightarrow> p = Unwrap_failed \<and> (\<exists>q. Crashed q \<in> set ts))"
proof (induction ts)
  case (Cons t ts)
  then obtain r where r: "join_all ts s = Some (r, s)" "case r of
     Ret rs \<Rightarrow> ts = map Finished rs | Err e \<Rightarrow> False | Panic p \<Rightarrow> p = Unwrap_failed \<and> (\<exists>q. Crashed q \<in> set ts)"
    by auto
  then show ?case using Cons.prems by (cases t; cases r) (auto simp: mbind_run)
qed simp

text \<open>The sum of what the threads report.\<close>

lemma bench_total:
  assumes "par_runs (bench_step hw ops gen rnd b) (world_tick hw) (replicate n (Running T_Alloc), s) tr (map Finished rs, t)"
  shows "sum_list (map fst rs) = of_nat (length (filter (\<lambda>(j, pc). is_submit pc) tr)) \<and> (\<forall>r\<in>set rs. b_duration b \<le> snd r)"
proof -
  have "True \<and> length (map Finished rs :: (bench_pc, _) thread list) = length (replicate n (Running T_Alloc :: (bench_pc, u64 \<times> nat) thread))
      \<and> (\<forall>i < length (map Finished rs :: (bench_pc, _) thread list). counts b (events is_submit i tr) (map Finished rs ! i))"
    using assms
  proof (rule par_runs_invariant [where G = "\<lambda>_. True" and L = "counts b" and ev = is_submit])
    fix k p s t s'
    assume "counts b k (Running p)" and adv: "advance (bench_step hw ops gen rnd b) p s = Some (t, s')"
    then have c: "pc_counts b k p" by (simp add: counts_def)
    from adv obtain r where "bench_step hw ops gen rnd b p s = Some (r, s')"
      and t: "t = (case r of Ret v \<Rightarrow> (case v of Inl p' \<Rightarrow> Running p' | Inr x \<Rightarrow> Finished x)
        | Err e \<Rightarrow> Crashed Unwrap_failed | Panic q \<Rightarrow> Crashed q)"
      by (rule advance_cases)
    then show "True \<and> counts b (k + (if is_submit p then 1 else 0)) t"
      using endsD(2) [OF bench_step_counts [OF c], of hw ops gen rnd s] by (cases r) (auto simp: counts_def split: sum.splits)
  qed (simp_all add: counts_def)
  then have n: "length rs = n" and c: "\<And>i. i < n \<Longrightarrow> fst (rs ! i) = of_nat (events is_submit i tr) \<and> b_duration b \<le> snd (rs ! i)"
    by (auto simp: counts_def)
  have "sum_list (map fst rs) = (\<Sum>i<n. fst (rs ! i))" by (simp add: sum_list_sum_nth n lessThan_atLeast0)
  also have "\<dots> = of_nat (\<Sum>i<n. events is_submit i tr)" using c by simp
  also have "\<dots> = of_nat (length (filter (\<lambda>(j, pc). is_submit pc) tr))"
    using par_runs_indices [OF assms] by (subst sum_events) auto
  finally show ?thesis using c n by (metis in_set_conv_nth)
qed

text \<open>
  C18. What the multi-threaded throughput measurement prints. If it returns, then with a value, never
  with an error: a thread that fails makes the join panic, and the poisoned lock is never reached. The
  value is the number of requests that all threads have handed to \<^verbatim>\<open>submit_io\<close>, up to wrap-around at
  64 bits, in some interleaving of their steps; and every thread has measured for at least the duration.
\<close>

theorem multithread_reports_requests:
  assumes "qd_n_multithread hw ops gen rnd sched queue_depth threads duration random write (dev, w) = Some (r, (dev', w'))"
  shows "(\<forall>e. r \<noteq> Err e) \<and> (\<forall>n. r = Ret n \<longrightarrow> (\<exists>ns tr rs sh.
      namespaces dev 1 = Some ns \<and> dev' = sh_dev sh \<and> length rs = unat threads
    \<and> par_runs (bench_step hw ops gen rnd (throughput_bench queue_depth duration random write (ns_blocks ns div 8))) (world_tick hw)
        (replicate (unat threads) (Running T_Alloc), (new_shared dev, w)) tr (map Finished rs, (sh, w'))
    \<and> n = of_nat (length (filter (\<lambda>(i, pc). is_submit pc) tr)) \<and> (\<forall>res\<in>set rs. duration \<le> snd res)))"
proof (cases "namespaces dev 1")
  case None
  then have "r = Panic Unwrap_failed" using assms by (auto simp: qd_n_multithread_def lookup_namespace_def mbind_run)
  then show ?thesis by simp
next
  case (Some ns)
  define b where "b = throughput_bench queue_depth duration random write (ns_blocks ns div 8)"
  let ?step = "bench_step hw ops gen rnd b"
  have "with_shared (mbind (spawn_join ?step T_Alloc hw sched threads) (\<lambda>rs. mret (sum_list (map fst rs)))) (dev, w) = Some (r, (dev', w'))"
    using assms Some by (simp add: qd_n_multithread_def lookup_namespace_def mbind_run b_def Let_def)
  then obtain r1 sh where sj: "spawn_join ?step T_Alloc hw sched threads (new_shared dev, w) = Some (r1, (sh, w'))"
      and dev': "dev' = sh_dev sh" and r: "r = (case r1 of Ret rs \<Rightarrow>
        if sh_poisoned sh then Err (error_from_string ''poisoned lock: another task failed inside'') else Ret (sum_list (map fst rs))
      | Err e \<Rightarrow> Err e | Panic p \<Rightarrow> Panic p)"
    by (auto simp: with_shared_def mzoom_run mbind_run split: option.splits outcome.splits if_splits)
  from sj obtain ts tr where runs: "par_runs ?step (world_tick hw) (replicate (unat threads) (Running T_Alloc), (new_shared dev, w)) tr (ts, (sh, w'))"
      "\<And>p. Running p \<notin> set ts" "join_all ts (sh, w') = Some (r1, (sh, w'))"
    by (rule spawn_join_Ret) blast
  from join_all_outcome [OF runs(2), of "(sh, w')"] runs(3) have j: "case r1 of Ret rs \<Rightarrow> ts = map Finished rs | Err e \<Rightarrow> False | Panic p \<Rightarrow> True"
    by (auto split: outcome.splits)
  show ?thesis
  proof (cases r1)
    case (Ret rs)
    then have ts: "ts = map Finished rs" using j by simp
    then have "\<not> sh_poisoned sh" using poisoned_crashed [OF runs(1)] by (auto simp: new_shared_def)
    then have "r = Ret (sum_list (map fst rs))" using r Ret by simp
    moreover note bench_total [OF runs(1) [unfolded ts]]
    moreover have "length rs = unat threads" using par_runs_indices [OF runs(1)] ts by simp
    moreover have "b_duration b = duration" by (simp add: b_def throughput_bench_def)
    ultimately show ?thesis using runs(1) ts dev' Some unfolding b_def
      by (intro conjI allI impI) (simp, intro exI [of _ ns] exI [of _ tr] exI [of _ rs] exI [of _ sh], simp)
  qed (use j r in auto)
qed

subsection \<open>Concrete runs\<close>

text \<open>An allocator that fails above 2 MiB, and a controller that answers admin commands at once.\<close>

definition small_ops :: "(unit, 'd) mapping_ops" where
  "small_ops = demo_ops\<lparr>op_allocate := \<lambda>_ n. if n \<le> PAGESIZE_2MIB
     then mret \<lparr>virt = 0x1000000, phys = 0x1000000, dsize = n\<rparr> else merr (Allocation ''too large'')\<rparr>"

lemma small_ops_allocates: "allocates small_ops m I"
  by (simp add: allocates_def small_ops_def)

text \<open>A device that differs from \<open>demo_dev\<close> by admin commands and the next identifier.\<close>

definition demo_like :: "nvme_command list \<Rightarrow> unit nvme_device \<Rightarrow> nvme_command list world \<Rightarrow> bool" where
  "demo_like cs dev w \<longleftrightarrow> doorbell dev = doorbell demo_dev \<and> dstrd dev = 0 \<and> dev_len dev = 0x4000 \<and> dev_q_id dev < 100
     \<and> sync_state (admin_sq demo_dev) (admin_cq demo_dev) cs (admin_sq dev) (admin_cq dev) w"

lemma demo_like_memory: "demo_like cs dev (w\<lparr>wmem := m\<rparr>) = demo_like cs dev w"
  by (simp add: demo_like_def sync_state_def)

lemma create_demo:
  assumes "demo_like cs dev w" and "dev_q_id dev < 99"
  shows "\<exists>qp cs' dev' w'. create_io_queue_pair demo_admin_hw small_ops QUEUE_LENGTH (dev, w) = Some (Ret qp, (dev', w'))
    \<and> demo_like cs' dev' w' \<and> qp_id qp = dev_q_id dev \<and> dev_q_id dev' = dev_q_id dev + 1 \<and> sq_is_empty (sub_queue qp)"
proof -
  have q: "unat (dev_q_id dev) < 99" using assms(2) by (simp add: word_less_nat_alt)
  have srv: "admin_service demo_admin_hw dev (sync_state (admin_sq demo_dev) (admin_cq demo_dev))"
    using demo_admin_serves assms(1) by (simp add: demo_like_def)
  have b: "unat (dstrd dev) < 16" "2 * unat (dev_q_id dev) + 1 < 2 ^ 16"
    "0x1000 + (2 * unat (dev_q_id dev) + 1) * 2 ^ (2 + unat (dstrd dev)) + 4 \<le> unat (dev_len dev)"
    using assms(1) q by (simp_all add: demo_like_def)
  have len: "0 < QUEUE_LENGTH" "QUEUE_LENGTH \<le> 65536" by simp_all
  have I: "sync_state (admin_sq demo_dev) (admin_cq demo_dev) cs (admin_sq dev) (admin_cq dev) w" using assms(1) by (simp add: demo_like_def)
  obtain qp dev' w' cs' where c: "create_io_queue_pair demo_admin_hw small_ops QUEUE_LENGTH (dev, w) = Some (Ret qp, (dev', w'))"
      "qp_id qp = dev_q_id dev" "dev_q_id dev' = dev_q_id dev + 1" "sq_is_empty (sub_queue qp)"
      "sync_state (admin_sq demo_dev) (admin_cq demo_dev) cs' (admin_sq dev') (admin_cq dev') w'"
      "\<exists>e1 e2. dev' = (dev_admin e2 (dev_admin e1 dev))\<lparr>dev_q_id := dev_q_id dev + 1\<rparr>"
    using create_served [OF srv I small_ops_allocates len b] by blast
  have "dev_q_id dev + 1 < 100"
  proof -
    have "unat (dev_q_id dev + 1) = unat (dev_q_id dev) + 1" using q by (subst unat_add_no_wrap) simp_all
    then show ?thesis using q by (simp add: word_less_nat_alt)
  qed
  then have "demo_like cs' dev' w'" using c(3,5,6) assms(1) by (auto simp: demo_like_def)
  then show ?thesis using c by blast
qed

lemma delete_demo:
  assumes "demo_like cs dev w"
  shows "\<exists>dev' w'. delete_io_queue_pair demo_admin_hw small_ops qp (dev, w) = Some (Ret (), (dev', w'))"
proof -
  let ?I = "sync_state (admin_sq demo_dev) (admin_cq demo_dev)"
  have admin: "\<exists>c dev' w'. submit_and_complete_admin demo_admin_hw cmd (dev, w) = Some (Ret c, (dev', w')) \<and> demo_like cs' dev' w'"
    if "demo_like cs dev w" "cs' = cs @ [cmd (ucast (sq_tail (admin_sq dev))) (phys (buffer dev))]" for cmd cs cs' dev w
  proof -
    have "admin_service demo_admin_hw dev ?I" "?I cs (admin_sq dev) (admin_cq dev) w"
      using that(1) demo_admin_serves by (simp_all add: demo_like_def)
    from admin_served [OF this refl, of cmd] show ?thesis using that by (fastforce simp: demo_like_def)
  qed
  obtain c dev1 w1 cs1 where 1: "submit_and_complete_admin demo_admin_hw (\<lambda>cid _. cmd_delete_io_submission_queue cid (qp_id qp)) (dev, w)
      = Some (Ret c, (dev1, w1))" "demo_like cs1 dev1 w1"
    using admin [OF assms refl, of "\<lambda>cid _. cmd_delete_io_submission_queue cid (qp_id qp)"] by blast
  obtain c2 dev2 w2 where 2: "submit_and_complete_admin demo_admin_hw (\<lambda>cid _. cmd_delete_io_completion_queue cid (qp_id qp)) (dev1, w1)
      = Some (Ret c2, (dev2, w2))"
    using admin [OF 1(2) refl, of "\<lambda>cid _. cmd_delete_io_completion_queue cid (qp_id qp)"] by blast
  show ?thesis
    using 1(1) 2 by (simp add: delete_io_queue_pair_def dev_deallocate_def small_ops_def demo_ops_def on_world_def mbind_run mzoom_run)
qed

definition demo_memory_area :: "usize set" where
  "demo_memory_area = dev_memory demo_dev \<union> region (cq_commands (admin_cq demo_dev)) \<union> region \<lparr>virt = 0x1000000, phys = 0x1000000, dsize = 2097152\<rparr>"

abbreviation zero_gen :: "'d rng" where "zero_gen \<equiv> \<lambda>lo hi w. (lo, w)"
abbreviation zero_rnd :: "'d rnd" where "zero_rnd \<equiv> \<lambda>n w. (replicate n 0, w)"

lemma demo_surroundings: "surroundings demo_admin_hw small_ops zero_gen zero_rnd demo_memory_area demo_dev"
proof -
  have "confined demo_admin_hw demo_memory_area"
    unfolding demo_admin_hw_def by (rule sync_hw_confined) (auto simp: demo_dev_def demo_cring_def demo_memory_area_def)
  moreover have "region \<lparr>virt = 0x1000000, phys = 0x1000000, dsize = n\<rparr> \<subseteq> demo_memory_area" if "n \<le> 2097152" for n
    using that by (auto simp: demo_memory_area_def region_def addr_range_def word_le_nat_alt)
  moreover have "confined_ops small_ops demo_memory_area"
    by (simp add: confined_ops_def small_ops_def demo_ops_def keeps_intros)
  ultimately show ?thesis
    by (auto simp: surroundings_def grants_def small_ops_def rand_confined_def demo_memory_area_def split: if_splits)
qed

lemma demo_dev_ok: "dev_ok demo_dev"
  by (simp add: dev_ok_def demo_dev_def demo_ring_def demo_cring_def sq_within_def cq_within_def)

lemma demo_like_start: "demo_like [] demo_dev (blank_world [])"
  using demo_dev_state(1) by (simp add: demo_like_def demo_dev_def)

abbreviation demo_step :: "bench \<Rightarrow> (bench_pc, u64 \<times> nat, (unit, nvme_command list) sh_state) closure" where
  "demo_step \<equiv> bench_step demo_admin_hw small_ops zero_gen zero_rnd"

lemma alloc_step_demo:
  assumes "\<not> sh_poisoned sh" and "b_alloc b \<le> 2097152"
  shows "demo_step b T_Alloc (sh, w) = Some (Ret (Inl (T_Create \<lparr>virt = 0x1000000, phys = 0x1000000, dsize = b_alloc b\<rparr>)), (sh, w))"
  using assms with_lock_Ret [OF assms(1), of "dev_allocate small_ops (b_alloc b)" w]
  by (simp add: dev_allocate_def on_world_def small_ops_def mbind_run mzoom_run)

lemma create_step_demo:
  assumes "\<not> sh_poisoned sh" and "demo_like cs (sh_dev sh) w" and "dev_q_id (sh_dev sh) < 99"
  shows "\<exists>qp cs' dev' w'. demo_step b (T_Create buf) (sh, w) = Some (Ret (Inl (T_Fill buf qp)), (sh\<lparr>sh_dev := dev'\<rparr>, w'))
    \<and> demo_like cs' dev' w' \<and> qp_id qp = dev_q_id (sh_dev sh) \<and> dev_q_id dev' = dev_q_id (sh_dev sh) + 1 \<and> sq_is_empty (sub_queue qp)"
proof -
  obtain qp cs' dev' w' where c: "create_io_queue_pair demo_admin_hw small_ops QUEUE_LENGTH (sh_dev sh, w) = Some (Ret qp, (dev', w'))"
      "demo_like cs' dev' w' \<and> qp_id qp = dev_q_id (sh_dev sh) \<and> dev_q_id dev' = dev_q_id (sh_dev sh) + 1 \<and> sq_is_empty (sub_queue qp)"
    using create_demo [OF assms(2,3)] by blast
  from with_lock_Ret [where m = "create_io_queue_pair demo_admin_hw small_ops QUEUE_LENGTH", OF assms(1) c(1)] show ?thesis using c(2) by (fastforce simp: mbind_run)
qed

theorem threads_share_safely_witness:
  "\<exists>tr ts sh w'. par_runs (demo_step (throughput_bench 32 5 True True 100)) (world_tick demo_admin_hw)
      (replicate 2 (Running T_Alloc), (new_shared demo_dev, blank_world [])) tr (ts, (sh, w'))
    \<and> thread_qid (ts ! 0) = Some 3 \<and> thread_qid (ts ! 1) = Some 2 \<and> dev_ok (sh_dev sh)
    \<and> (\<forall>x. x \<notin> demo_memory_area \<longrightarrow> wmem w' x = 0)"
proof -
  let ?b = "throughput_bench 32 5 True True 100" and ?d = "\<lparr>virt = 0x1000000, phys = 0x1000000, dsize = 131072\<rparr>"
  let ?step = "demo_step ?b" and ?env = "world_tick demo_admin_hw" and ?sh = "new_shared demo_dev"
  let ?w = "blank_world [] :: nvme_command list world" and ?c = "(replicate 2 (Running T_Alloc), (new_shared demo_dev, blank_world []))"
  have a: "?step T_Alloc (?sh, ?w) = Some (Ret (Inl (T_Create ?d)), (?sh, ?w))"
    using alloc_step_demo [of ?sh ?b ?w] by (simp add: new_shared_def throughput_bench_def)
  have q: "dev_q_id demo_dev = 2" by (simp add: demo_dev_def)
  obtain qp1 cs1 dev1 w1 where 1: "?step (T_Create ?d) (?sh, ?w) = Some (Ret (Inl (T_Fill ?d qp1)), (?sh\<lparr>sh_dev := dev1\<rparr>, w1))"
      "demo_like cs1 dev1 w1" "qp_id qp1 = 2" "dev_q_id dev1 = 3"
    using create_step_demo [of ?sh "[]" ?w ?b ?d] demo_like_start q by (auto simp: new_shared_def)
  let ?sh1 = "?sh\<lparr>sh_dev := dev1\<rparr>"
  obtain qp2 cs2 dev2 w2 where 2: "?step (T_Create ?d) (?sh1, w1) = Some (Ret (Inl (T_Fill ?d qp2)), (?sh1\<lparr>sh_dev := dev2\<rparr>, w2))"
      "qp_id qp2 = 3"
    using create_step_demo [of ?sh1 cs1 w1 ?b ?d] 1(2,4) by (auto simp: new_shared_def)
  have r1: "par_runs ?step ?env ?c ([] @ [(1, T_Alloc)]) ([Running T_Alloc, Running (T_Create ?d)], (?sh, ?w))"
    using par_runs_thread [OF par_runs.start, where step = ?step and env = ?env and i = 1 and p = T_Alloc and ts = "replicate 2 (Running T_Alloc)"] a
    by (simp add: numeral_2_eq_2)
  have r2: "par_runs ?step ?env ?c ([(1, T_Alloc)] @ [(0, T_Alloc)]) ([Running (T_Create ?d), Running (T_Create ?d)], (?sh, ?w))"
    using par_runs_thread [OF r1, of 0 T_Alloc] a by simp
  have r3: "par_runs ?step ?env ?c ([(1, T_Alloc), (0, T_Alloc)] @ [(1, T_Create ?d)])
      ([Running (T_Create ?d), Running (T_Fill ?d qp1)], (?sh1, w1))"
    using par_runs_thread [OF r2, of 1 "T_Create ?d"] 1(1) by simp
  have r4: "par_runs ?step ?env ?c ([(1, T_Alloc), (0, T_Alloc), (1, T_Create ?d)] @ [(0, T_Create ?d)])
      ([Running (T_Fill ?d qp2), Running (T_Fill ?d qp1)], (?sh1\<lparr>sh_dev := dev2\<rparr>, w2))"
    using par_runs_thread [OF r3, of 0 "T_Create ?d"] 2(1) by simp
  have "dev_ok dev2 \<and> (\<forall>x. x \<notin> demo_memory_area \<longrightarrow> wmem w2 x = 0)"
    using threads_share_safely [OF r4 demo_dev_ok demo_surroundings] by (simp add: blank_world_def)
  moreover have "thread_qid (Running (T_Fill ?d qp2)) = Some 3" "thread_qid (Running (T_Fill ?d qp1)) = Some 2"
    using 1(3) 2(2) by (simp_all add: thread_qid_def)
  ultimately show ?thesis using r4 by fastforce
qed

lemma demo_like_namespaces: "demo_like cs (dev\<lparr>namespaces := ns\<rparr>) w = demo_like cs dev w"
proof -
  have "doorbell (dev\<lparr>namespaces := ns\<rparr>) = doorbell dev" by (intro ext) (simp add: doorbell_def)
  then show ?thesis by (simp add: demo_like_def)
qed

lemma fill_step_demo:
  assumes "unat (b_depth b * 4096) \<le> unat (dsize buf)"
  shows "\<exists>m. demo_step b (T_Fill buf qp) (sh, w)
    = Some (Ret (Inl (T_Loop \<lparr>l_buf = buf, l_qp = qp, l_out = 0, l_ops = 0, l_total = 0\<rparr>)), (sh, w\<lparr>wmem := m\<rparr>))"
  using assms by (auto simp: dma_copy_def world_call_def dma_index_to_def dma_index_range_def len_u64_def mbind_run mlift_def word_le_nat_alt)

lemma finish_step_demo:
  assumes "\<not> sh_poisoned sh" and "demo_like cs (sh_dev sh) w"
  shows "\<exists>dev' w'. demo_step b (T_Finish l) (sh, w) = Some (Ret (Inr (l_ops l, l_total l)), (sh\<lparr>sh_dev := dev'\<rparr>, w'))"
proof -
  obtain dev' w' where d: "delete_io_queue_pair demo_admin_hw small_ops (l_qp l) (sh_dev sh, w) = Some (Ret (), (dev', w'))"
    using delete_demo [OF assms(2)] by blast
  from with_lock_Ret [where m = "delete_io_queue_pair demo_admin_hw small_ops (l_qp l)", OF assms(1) d] show ?thesis
    by (fastforce simp: mbind_run)
qed

theorem multithread_reports_requests_witness:
  "\<exists>dev' w' tr. qd_n_multithread demo_admin_hw small_ops zero_gen zero_rnd (\<lambda>_. 0) 2 1 0 True True
        (demo_dev\<lparr>namespaces := [1 \<mapsto> \<lparr>ns_ident = 1, ns_blocks = 800, ns_block_size = 512\<rparr>]\<rparr>, blank_world []) = Some (Ret 0, (dev', w'))
    \<and> (0 :: u64) = of_nat (length (filter (\<lambda>(i :: nat, pc). is_submit pc) tr))"
proof -
  let ?dev = "demo_dev\<lparr>namespaces := [1 \<mapsto> \<lparr>ns_ident = 1, ns_blocks = 800, ns_block_size = 512\<rparr>]\<rparr>"
  let ?b = "throughput_bench 2 0 True True 100" and ?d = "\<lparr>virt = 0x1000000, phys = 0x1000000, dsize = 8192\<rparr>"
  let ?step = "demo_step ?b" and ?env = "world_tick demo_admin_hw" and ?sh = "new_shared ?dev"
  let ?w = "blank_world [] :: nvme_command list world" and ?run = "run_threads (demo_step (throughput_bench 2 0 True True 100)) (world_tick demo_admin_hw) (\<lambda>_. 0)"
  have like: "demo_like [] ?dev ?w" "dev_q_id ?dev = 2"
    using demo_like_start by (simp_all add: demo_like_namespaces) (simp add: demo_dev_def)
  have a: "?step T_Alloc (?sh, ?w) = Some (Ret (Inl (T_Create ?d)), (?sh, ?w))"
    using alloc_step_demo [of ?sh ?b ?w] by (simp add: new_shared_def throughput_bench_def)
  obtain qp cs1 dev1 w1 where c: "?step (T_Create ?d) (?sh, ?w) = Some (Ret (Inl (T_Fill ?d qp)), (?sh\<lparr>sh_dev := dev1\<rparr>, w1))"
      "demo_like cs1 dev1 w1" "sq_is_empty (sub_queue qp)"
    using create_step_demo [of ?sh "[]" ?w ?b ?d] like by (auto simp: new_shared_def)
  let ?sh1 = "?sh\<lparr>sh_dev := dev1\<rparr>" and ?l = "\<lparr>l_buf = ?d, l_qp = qp, l_out = 0, l_ops = 0, l_total = 0\<rparr>"
  obtain m where f: "?step (T_Fill ?d qp) (?sh1, w1) = Some (Ret (Inl (T_Loop ?l)), (?sh1, w1\<lparr>wmem := m\<rparr>))"
    using fill_step_demo [of ?b ?d qp ?sh1 w1] by (auto simp: throughput_bench_def)
  let ?w2 = "w1\<lparr>wmem := m\<rparr>"
  have l: "?step (T_Loop ?l) (?sh1, ?w2) = Some (Ret (Inl (T_Drain ?l)), (?sh1, ?w2))"
    by (simp add: throughput_bench_def)
  have d: "?step (T_Drain ?l) (?sh1, ?w2) = Some (Ret (Inl (T_Finish ?l)), (?sh1, ?w2))"
    using c(3) by (simp add: mbind_run massert_def)
  obtain dev' w' where e: "?step (T_Finish ?l) (?sh1, ?w2) = Some (Ret (Inr (0, 0)), (?sh1\<lparr>sh_dev := dev'\<rparr>, w'))"
    using finish_step_demo [of ?sh1 cs1 ?w2 ?b ?l] c(2) by (auto simp: new_shared_def demo_like_memory)
  note go = run_threads_go [where step = ?step and env = ?env and sched = "\<lambda>_. 0"]
  note last = run_threads_last [where step = ?step and env = ?env and sched = "\<lambda>_. 0"]
  have "?run 0 [Running T_Alloc] (?sh, ?w) = Some ([Finished (0, 0)], (?sh1\<lparr>sh_dev := dev'\<rparr>, w'))"
    by (simp add: go [OF a] go [OF c(1)] go [OF f] go [OF l] go [OF d] last [OF e])
  then have r: "qd_n_multithread demo_admin_hw small_ops zero_gen zero_rnd (\<lambda>_. 0) 2 1 0 True True (?dev, ?w) = Some (Ret 0, (dev', w'))"
    by (simp add: qd_n_multithread_def lookup_namespace_def with_shared_def spawn_join_def mbind_run mzoom_run new_shared_def)
  from multithread_reports_requests [OF r] obtain tr where
    "(0 :: u64) = of_nat (length (filter (\<lambda>(i :: nat, pc). is_submit pc) tr))" by blast
  with r show ?thesis by blast
qed

end
