(* ===== verification/Async_Pair.thy ===== *)
theory Async_Pair
  imports Bench "HOL-Library.Sublist"
begin

text \<open>
  A queue pair whose controller works on its own: commands pile up in the submission ring and
  completions appear whenever the controller gets to them. \<open>pair_view\<close> says what the two rings look like
  when \<open>cs\<close> have been submitted and \<open>c\<close> completions taken, and \<open>posted w\<close> are the completions the controller
  has posted so far. \<open>async_pair\<close> is the named assumption: the controller keeps to that view, and
  with time it completes every command; \<open>clk\<close> is the time, which a submission takes some of.
  The lemmas say what the operations of \<^verbatim>\<open>NvmeQueuePair\<close> do then.
\<close>

unbundle bit_operations_syntax

definition pair_view ::
    "('d world \<Rightarrow> nvme_completion list) \<Rightarrow> nat \<Rightarrow> nvme_command list \<Rightarrow> submission_queue \<Rightarrow> completion_queue \<Rightarrow> 'd world \<Rightarrow> bool" where
  "pair_view posted c cs sq cq w \<longleftrightarrow>
     sq_inv sq \<and> cq_len cq = sq_len sq \<and> cq_consumed cq c
   \<and> c \<le> length (posted w) \<and> length (posted w) \<le> length cs \<and> length cs < c + unat (sq_len sq)
   \<and> unat (sq_tail sq) = length cs mod unat (sq_len sq)
   \<and> (\<exists>h. c \<le> h \<and> h \<le> length cs \<and> unat (sq_head sq) = h mod unat (sq_len sq))
   \<and> cq_posted cq (wmem w) (\<lambda>k. posted w ! k) (length (posted w))
   \<and> (\<forall>j < length (posted w). \<exists>h. j < h \<and> h \<le> length cs \<and> unat (ce_sq_head (posted w ! j)) = h mod unat (sq_len sq))"

definition async_pair ::
    "'d hw \<Rightarrow> ('d world \<Rightarrow> nvme_completion list) \<Rightarrow> ('d world \<Rightarrow> nat) \<Rightarrow> (nat \<Rightarrow> 'd service) \<Rightarrow> bool" where
  "async_pair hw posted clk I \<longleftrightarrow> (\<forall>c cs sq cq w. I c cs sq cq w \<longrightarrow>
     pair_view posted c cs sq cq w
   \<and> (\<forall>e. Suc (length cs) < c + unat (sq_len sq) \<longrightarrow>
        I c (cs @ [e]) (sq_after e sq) cq (sq_rung hw (sq_doorbell sq) e sq w) \<and> clk w < clk (sq_rung hw (sq_doorbell sq) e sq w))
   \<and> I c cs sq cq (hw_tick hw w) \<and> prefix (posted w) (posted (hw_tick hw w)) \<and> clk w \<le> clk (hw_tick hw w)
   \<and> (\<exists>T. length (posted ((hw_tick hw ^^ T) w)) = length cs)
   \<and> (\<forall>n cq'. 0 < n \<longrightarrow> c + n \<le> length (posted w) \<longrightarrow> cq_consumed cq' (c + n) \<longrightarrow> cq_frame cq' = cq_frame cq \<longrightarrow>
        I (c + n) cs (take_head (posted w ! (c + n - 1)) sq) cq' (hw_write32 hw (cq_doorbell cq) (ucast (cq_head cq')) w)
      \<and> clk w \<le> clk (hw_write32 hw (cq_doorbell cq) (ucast (cq_head cq')) w))
   \<and> (\<forall>t w'. hw_now hw w = (t, w') \<longrightarrow> I c cs sq cq w' \<and> clk w \<le> t \<and> t \<le> clk w'))"

lemma async_pairD:
  assumes "async_pair hw posted clk I" and "I c cs sq cq w"
  shows "pair_view posted c cs sq cq w"
    and "Suc (length cs) < c + unat (sq_len sq) \<Longrightarrow> I c (cs @ [e]) (sq_after e sq) cq (sq_rung hw (sq_doorbell sq) e sq w)"
    and "Suc (length cs) < c + unat (sq_len sq) \<Longrightarrow> clk w < clk (sq_rung hw (sq_doorbell sq) e sq w)"
    and "I c cs sq cq (hw_tick hw w)" "prefix (posted w) (posted (hw_tick hw w))" "clk w \<le> clk (hw_tick hw w)"
    and "\<exists>T. length (posted ((hw_tick hw ^^ T) w)) = length cs"
    and "0 < n \<Longrightarrow> c + n \<le> length (posted w) \<Longrightarrow> cq_consumed cq' (c + n) \<Longrightarrow> cq_frame cq' = cq_frame cq \<Longrightarrow>
        I (c + n) cs (take_head (posted w ! (c + n - 1)) sq) cq' (hw_write32 hw (cq_doorbell cq) (ucast (cq_head cq')) w)"
    and "0 < n \<Longrightarrow> c + n \<le> length (posted w) \<Longrightarrow> cq_consumed cq' (c + n) \<Longrightarrow> cq_frame cq' = cq_frame cq \<Longrightarrow>
        clk w \<le> clk (hw_write32 hw (cq_doorbell cq) (ucast (cq_head cq')) w)"
    and "hw_now hw w = (t, w') \<Longrightarrow> I c cs sq cq w' \<and> clk w \<le> t \<and> t \<le> clk w'"
  using assms(1) [unfolded async_pair_def, rule_format, OF assms(2)] by blast+

subsection \<open>Submitting\<close>

lemma ring_dist_mod:
  assumes "h \<le> n" and "n < h + L"
  shows "ring_dist L (h mod L) (n mod L) = n - h"
proof -
  define k where "k = n - h"
  have k: "k < L" "n = h + k" using assms by (auto simp: k_def)
  then have L: "h mod L < L" by simp
  have "(h + k) mod L = (h mod L + k) mod L" by (simp add: mod_simps)
  also have "\<dots> = (if h mod L + k < L then h mod L + k else h mod L + k - L)"
    using k(1) L by (intro ring_mod) linarith
  finally show ?thesis unfolding ring_dist_def k(2) using k(1) L by auto
qed

lemma pair_view_count:
  assumes "pair_view posted c cs sq cq w"
  shows "sq_count sq \<le> length cs - c"
    and "unat (sq_head sq) = c mod unat (sq_len sq) \<Longrightarrow> sq_count sq = length cs - c"
proof -
  have v: "length cs < c + unat (sq_len sq)" "c \<le> length cs" "unat (sq_tail sq) = length cs mod unat (sq_len sq)"
    using assms by (auto simp: pair_view_def)
  obtain h where h: "c \<le> h" "h \<le> length cs" "unat (sq_head sq) = h mod unat (sq_len sq)"
    using assms by (auto simp: pair_view_def)
  then have "sq_count sq = length cs - h" using v ring_dist_mod [of h "length cs"] by (simp add: sq_count_def)
  then show "sq_count sq \<le> length cs - c" using h(1) by simp
  show "sq_count sq = length cs - c" if "unat (sq_head sq) = c mod unat (sq_len sq)"
    using that v ring_dist_mod [of c "length cs"] by (simp add: sq_count_def)
qed

text \<open>A request of one page is one command.\<close>

lemma submit_page:
  assumes "dsize data = 4096" and "sq_inv (sub_queue qp)"
  shows "qp_submit_io hw data lba write (qp, w) =
    (if sq_count (sub_queue qp) = unat (sq_len (sub_queue qp)) - 1 then Some (Ret 0, (qp, w))
     else let e = qp_entry write (qp_id qp) (sq_tail (sub_queue qp)) (nth_chunk data 8192 0) lba
          in Some (Ret 1, (qp_after e qp, sq_rung hw (sq_doorbell (sub_queue qp)) e (sub_queue qp) w)))"
proof -
  have "chunk_count 8192 4096 = 1" by (simp add: chunk_count_def)
  then have "dma_chunks_collect (chunks data (2 * 4096)) = Some [nth_chunk data 8192 0]"
    using dma_chunks_collect_at [of 8192 0 data] assms(1) by (simp add: chunks_def)
  then show ?thesis
    by (simp add: qp_submit_io_def mbind_run qp_submit_entry_run [OF assms(2)] sq_rung_def Let_def)
qed

lemma page_entry:
  assumes "dsize data = 4096" and "e = qp_entry write qid t (nth_chunk data 8192 0) lba"
  shows "io_lba e = lba" "io_blocks e = 8" "opcode e = (if write then 1 else 2)"
proof -
  have "0 < chunk_count 8192 (unat (dsize data))" using assms(1) by (simp add: chunk_count_def)
  from qp_entry_covers [OF this, of "write" lba qid t] show "io_lba e = lba" "io_blocks e = 8" "opcode e = (if write then 1 else 2)"
    using assms by (simp_all add: covers_chunk_def)
qed

lemma submit_async:
  assumes "async_pair hw posted clk I" and "I c cs (sub_queue qp) (comp_queue qp) w"
    and "Suc (length cs) < c + unat (sq_len (sub_queue qp))" and "dsize data = 4096"
  shows "\<exists>e qp' w'. qp_submit_io hw data lba write (qp, w) = Some (Ret 1, (qp', w')) \<and> sq_len (sub_queue qp') = sq_len (sub_queue qp)
    \<and> I c (cs @ [e]) (sub_queue qp') (comp_queue qp') w' \<and> clk w < clk w'
    \<and> io_lba e = lba \<and> io_blocks e = 8 \<and> opcode e = (if write then 1 else 2)"
proof -
  note v = async_pairD(1) [OF assms(1,2)]
  have inv: "sq_inv (sub_queue qp)" using v by (simp add: pair_view_def)
  define e where "e = qp_entry write (qp_id qp) (sq_tail (sub_queue qp)) (nth_chunk data 8192 0) lba"
  have "c \<le> length cs" using v by (simp add: pair_view_def)
  then have "sq_count (sub_queue qp) \<noteq> unat (sq_len (sub_queue qp)) - 1" using pair_view_count(1) [OF v] assms(3) by linarith
  then have "qp_submit_io hw data lba write (qp, w) = Some (Ret 1, (qp_after e qp, sq_rung hw (sq_doorbell (sub_queue qp)) e (sub_queue qp) w))"
    using submit_page [OF assms(4) inv] by (simp add: e_def Let_def)
  moreover note page_entry [OF assms(4) e_def] async_pairD(2,3) [OF assms(1,2,3), of e]
  ultimately show ?thesis by (auto simp: qp_after_def)
qed

subsection \<open>Taking completions\<close>

text \<open>A queue pair after \<open>n\<close> completions, of which \<open>ce\<close> is the last.\<close>

lemma cq_after_frame: "cq_frame (cq_after cq) = cq_frame cq"
  by (simp add: cq_frame_def)

lemma poll_async:
  assumes "async_pair hw posted clk I" and "I c cs (sub_queue qp) (comp_queue qp) w"
  shows "if c < length (posted w)
    then \<exists>qp' w'. qp_quick_poll hw (qp, w) = Some (Ret (Some ()), (qp', w')) \<and> sq_len (sub_queue qp') = sq_len (sub_queue qp)
      \<and> I (Suc c) cs (sub_queue qp') (comp_queue qp') w' \<and> clk w \<le> clk w'
      \<and> sub_queue qp' = take_head (posted w ! c) (sub_queue qp)
    else qp_quick_poll hw (qp, w) = Some (Ret None, (qp, w))"
proof -
  let ?cq = "comp_queue qp" and ?p = "length (posted w)"
  note v = async_pairD(1) [OF assms(1,2)]
  have con: "cq_consumed ?cq c" "cq_inv ?cq" "c < ?p + unat (cq_len ?cq)" "?p \<le> c + unat (cq_len ?cq)"
      "cq_posted ?cq (wmem w) (\<lambda>k. posted w ! k) ?p"
    using v sq_invD(1) [of "sub_queue qp"] by (auto simp: pair_view_def cq_consumed_def)
  note ph = phase_matches_iff [OF con(1,5,3,4)]
  show ?thesis
  proof (cases "c < ?p")
    case False
    then have "qp_quick_poll hw (qp, w) = Some (Ret None, (qp, w))"
      using ph(1) by (simp add: qp_quick_poll_def on_comp_queue_def run_simps cq_complete_run [OF con(2)] Let_def)
    then show ?thesis using False by simp
  next
    case True
    let ?qp = "qp\<lparr>comp_queue := cq_after ?cq, sub_queue := take_head (posted w ! c) (sub_queue qp)\<rparr>"
    let ?w = "hw_write32 hw (cq_doorbell ?cq) (ucast (cq_head (cq_after ?cq))) w"
    have "qp_quick_poll hw (qp, w) = Some (Ret (Some ()), (?qp, ?w))"
      using ph True
      by (simp add: qp_quick_poll_def on_comp_queue_def run_simps cq_complete_run [OF con(2)] Let_def qp_take_run)
    moreover have "cq_consumed (cq_after ?cq) (c + 1)" using cq_consumed_after [OF con(1)] by simp
    then have "I (c + 1) cs (take_head (posted w ! (c + 1 - 1)) (sub_queue qp)) (cq_after ?cq) ?w \<and> clk w \<le> clk ?w"
      using async_pairD(8,9) [OF assms, of 1 "cq_after ?cq"] True cq_after_frame by auto
    ultimately show ?thesis using True by auto
  qed
qed

text \<open>The controller's own steps: everything posted stays, more may come, and in the end all is there.\<close>

lemma ticks_async:
  assumes "async_pair hw posted clk I" and "I c cs sq cq w"
  shows "I c cs sq cq ((hw_tick hw ^^ t) w) \<and> prefix (posted w) (posted ((hw_tick hw ^^ t) w)) \<and> clk w \<le> clk ((hw_tick hw ^^ t) w)"
proof (induction t)
  case 0
  then show ?case using assms(2) by simp
next
  case (Suc t)
  then show ?case using async_pairD(4-6) [OF assms(1), of c cs sq cq "(hw_tick hw ^^ t) w"]
    by (auto intro: prefix_order.trans le_trans)
qed

lemma cq_posted_ces: "(\<And>k. k < p \<Longrightarrow> ces k = ces' k) \<Longrightarrow> cq_posted cq m ces p \<Longrightarrow> cq_posted cq m ces' p"
  by (simp add: cq_posted_def)

lemma posted_later:
  assumes "async_pair hw posted clk I" and "I c cs sq cq w" and "t \<le> T"
  defines "ces \<equiv> \<lambda>k. posted ((hw_tick hw ^^ T) w) ! k" and "p \<equiv> length (posted ((hw_tick hw ^^ t) w))"
  shows "cq_posted cq (wmem ((hw_tick hw ^^ t) w)) ces p \<and> c \<le> p \<and> p \<le> c + unat (cq_len cq)"
proof -
  let ?w = "(hw_tick hw ^^ t) w"
  have I: "I c cs sq cq ?w" using ticks_async [OF assms(1,2)] by simp
  note v = async_pairD(1) [OF assms(1) I]
  have "(hw_tick hw ^^ T) w = (hw_tick hw ^^ (T - t)) ?w" using assms(3) by (simp flip: funpow_add comp_apply [of "(hw_tick hw ^^ (T - t))"])
  then have "prefix (posted ?w) (posted ((hw_tick hw ^^ T) w))" using ticks_async [OF assms(1) I, of "T - t"] by simp
  then have "posted ?w ! k = ces k" if "k < p" for k using that by (auto simp: ces_def p_def prefix_def nth_append)
  then have "cq_posted cq (wmem ?w) ces p" using v cq_posted_ces [of p "\<lambda>k. posted ?w ! k" ces] by (simp add: pair_view_def p_def)
  then show ?thesis using v by (simp add: pair_view_def p_def)
qed

lemma complete_async:
  assumes "async_pair hw posted clk I" and "I c cs (sub_queue qp) (comp_queue qp) w"
    and "0 < n" and "c + unat n \<le> length cs"
  shows "\<exists>v qp' w'. qp_complete_io hw n (qp, w) = Some (Ret v, (qp', w')) \<and> sq_len (sub_queue qp') = sq_len (sub_queue qp)
    \<and> I (c + unat n) cs (sub_queue qp') (comp_queue qp') w' \<and> clk w \<le> clk w'
    \<and> (\<exists>u. c + unat n \<le> length (posted u) \<and> sub_queue qp' = take_head (posted u ! (c + unat n - 1)) (sub_queue qp))
    \<and> (c + unat n = length cs \<longrightarrow> sq_is_empty (sub_queue qp'))"
proof -
  let ?cq = "comp_queue qp" and ?p = "\<lambda>t. length (posted ((hw_tick hw ^^ t) w))"
  note v = async_pairD(1) [OF assms(1,2)]
  define T where "T = (LEAST t. c + unat n \<le> ?p t)"
  let ?wT = "(hw_tick hw ^^ T) w"
  have "\<exists>t. c + unat n \<le> ?p t" using async_pairD(7) [OF assms(1,2)] assms(4) by metis
  then have T: "c + unat n \<le> ?p T" "\<forall>t<T. ?p t < c + unat n"
    unfolding T_def by (auto intro: LeastI_ex dest: not_less_Least)
  have con: "cq_consumed ?cq c" "n \<le> cq_len ?cq" using v assms(4) by (auto simp: pair_view_def word_le_nat_alt)
  define cq' where "cq' = cq_after (cq_skip (n - 1) ?cq)"
  let ?c = "posted ?wT ! (c + unat n - 1)"
  have post: "\<forall>t\<le>T. cq_posted ?cq (wmem ((hw_tick hw ^^ t) w)) (\<lambda>k. posted ?wT ! k) (?p t) \<and> c \<le> ?p t \<and> ?p t \<le> c + unat (cq_len ?cq)"
    using posted_later [OF assms(1,2)] by blast
  note run = cq_complete_n_run [OF con(1) assms(3) con(2) post T(2,1) cq'_def]
  have frame: "cq_frame cq' = cq_frame ?cq" "cq_doorbell cq' = cq_doorbell ?cq" by (simp_all add: cq'_def cq_frame_def)
  let ?qp = "qp\<lparr>comp_queue := cq', sub_queue := take_head ?c (sub_queue qp)\<rparr>"
  let ?w' = "hw_write32 hw (cq_doorbell ?cq) (ucast (cq_head cq')) ?wT"
  have r: "qp_complete_io hw n (qp, w) = Some (Ret (if status_code ?c = 0 then Some (ce_sq_head ?c) else None), (?qp, ?w'))"
    using run(1) frame(2) assms(3) by (simp add: qp_complete_io_def on_comp_queue_def run_simps qp_take_run)
  have n: "0 < unat n" using assms(3) by (simp add: word_less_nat_alt)
  have IT: "I c cs (sub_queue qp) ?cq ?wT" "clk w \<le> clk ?wT" using ticks_async [OF assms(1,2)] by simp_all
  have I': "I (c + unat n) cs (take_head ?c (sub_queue qp)) cq' ?w'" "clk ?wT \<le> clk ?w'"
    using async_pairD(8,9) [OF assms(1) IT(1) n T(1) run(2) frame(1)] by simp_all
  have empty: "sq_is_empty (take_head ?c (sub_queue qp))" if e: "c + unat n = length cs"
  proof -
    have "\<exists>h. c + unat n - 1 < h \<and> h \<le> length cs \<and> unat (ce_sq_head ?c) = h mod unat (sq_len (sub_queue qp))"
      using async_pairD(1) [OF assms(1) IT(1)] T(1) n by (auto simp: pair_view_def)
    then have "unat (ce_sq_head ?c) = length cs mod unat (sq_len (sub_queue qp))" using e n by (auto simp: le_less)
    then have "unat (ucast (ce_sq_head ?c) :: usize) = unat (sq_tail (sub_queue qp))"
      using v by (simp add: unat_ucast_u16 pair_view_def)
    then show ?thesis by (simp add: sq_is_empty_def word_eq_unatI)
  qed
  show ?thesis by (intro exI conjI, rule r) (use I' IT(2) empty T(1) in auto)
qed

end
