(* ===== verification/Lazy_Ring.thy ===== *)
theory Lazy_Ring
  imports Async_Pair
begin

text \<open>
  A controller for concrete runs that works in its own time: ringing the doorbell of the submission queue
  \<open>sq\<close> only adds to what it has to do, and each of its own steps posts one completion. Its state counts
  the commands submitted and the completions posted; its clock counts the commands. It meets \<open>async_pair\<close>.
\<close>

unbundle bit_operations_syntax

definition lazy_tick :: "submission_queue \<Rightarrow> completion_queue \<Rightarrow> (nat \<times> nat) world \<Rightarrow> (nat \<times> nat) world" where
  "lazy_tick sq cq w = (let (s, p) = wdev w
     in if p < s then (post_answer sq cq p w)\<lparr>wdev := (s, Suc p)\<rparr> else w)"

definition lazy_hw :: "submission_queue \<Rightarrow> completion_queue \<Rightarrow> (nat \<times> nat) hw" where
  "lazy_hw sq cq = \<lparr>hw_tick = lazy_tick sq cq,
     hw_write32 = (\<lambda>a v w. if a = sq_doorbell sq then w\<lparr>wdev := (Suc (fst (wdev w)), snd (wdev w))\<rparr> else w),
     hw_write64 = (\<lambda>a v w. w), hw_read32 = (\<lambda>a w. (0, w)), hw_read64 = (\<lambda>a w. (0, w)),
     hw_now = (\<lambda>w. (fst (wdev w), w))\<rparr>"

definition lazy_posted :: "submission_queue \<Rightarrow> (nat \<times> nat) world \<Rightarrow> nvme_completion list" where
  "lazy_posted sq w = map (sync_answer (unat (sq_len sq)) (unat (sq_len sq))) [0..<snd (wdev w)]"

definition lazy_state :: "submission_queue \<Rightarrow> completion_queue \<Rightarrow> nat \<Rightarrow> (nat \<times> nat) service" where
  "lazy_state sq0 cq0 c cs sq cq w \<longleftrightarrow> pair_view (lazy_posted sq0) c cs sq cq w
     \<and> sq_frame sq = sq_frame sq0 \<and> cq_frame cq = cq_frame cq0 \<and> fst (wdev w) = length cs"

text \<open>The rings: separate doorbells and separate memory.\<close>

definition apart :: "submission_queue \<Rightarrow> completion_queue \<Rightarrow> bool" where
  "apart sq cq \<longleftrightarrow> sq_doorbell sq \<noteq> cq_doorbell cq
     \<and> disjoint_ranges (virt (sq_commands sq)) (64 * 16384) (virt (cq_commands cq)) (16 * 16384)"

lemma cells_apart:
  assumes "disjoint_ranges a (64 * 16384) b (16 * 16384)" and "t < 16384" and "i < 16384"
  shows "disjoint_ranges (cell a 64 t) 64 (cell b 16 i) 16"
proof -
  let ?D = "unat (b - a)"
  have D: "64 * 16384 \<le> ?D" "?D + 16 * 16384 \<le> 2 ^ 64" using assms(1) by (simp_all add: disjoint_ranges_def)
  have "cell b 16 i - cell a 64 t = (b - a) + of_nat (16 * i) - of_nat (64 * t)" by (simp add: cell_def)
  also have "\<dots> = of_nat (?D + 16 * i - 64 * t)" using D assms(2) by (subst of_nat_diff) auto
  finally have "unat (cell b 16 i - cell a 64 t) = ?D + 16 * i - 64 * t"
    using D assms(3) by (simp only: unat_of_nat) (subst mod_less, auto)
  then show ?thesis using D assms(2,3) unfolding disjoint_ranges_def by linarith
qed

lemma cq_posted_stored:
  assumes "apart sq0 cq0" and "sq_inv sq" and "sq_frame sq = sq_frame sq0" and "cq_frame cq = cq_frame cq0"
    and "cq_inv cq" and "cq_posted cq m ces p"
  shows "cq_posted cq (sq_stored e sq m) ces p"
proof -
  have "cq_slot cq (sq_stored e sq m) i = cq_slot cq m i" if "i < unat (cq_len cq)" for i
  proof -
    have b: "unat (sq_tail sq) < 16384" "i < 16384" using sq_invD(2,4) [OF assms(2)] cq_invD(2) [OF assms(5)] that by linarith+
    have "disjoint_ranges (virt (sq_commands sq)) (64 * 16384) (virt (cq_commands cq)) (16 * 16384)"
      using assms(1,3,4) by (simp add: apart_def sq_frame_def cq_frame_def)
    from cells_apart [OF this b] show ?thesis
      by (simp add: cq_slot_def sq_stored_def mem_read_write_disjoint)
  qed
  moreover have "k mod unat (cq_len cq) < unat (cq_len cq)" for k using cq_invD(1) [OF assms(5)] by simp
  ultimately show ?thesis using assms(6) by (simp add: cq_posted_def)
qed

text \<open>One more completion is posted.\<close>

lemma cq_posted_post:
  assumes "cq_inv cq" and "cq_posted cq m ces p" and "odd (ce_status (ces p)) = phase_of (unat (cq_len cq)) p"
    and "m' = mem_write m (cell (virt (cq_commands cq)) 16 (p mod unat (cq_len cq))) (encode_completion (ces p))"
  shows "cq_posted cq m' ces (Suc p)"
proof -
  let ?L = "unat (cq_len cq)"
  have L: "0 < ?L" "?L \<le> 16384" using cq_invD [OF assms(1)] by auto
  have slot: "cq_slot cq m' j = (if j = p mod ?L then ces p else cq_slot cq m j)" if "j < ?L" for j
  proof (cases "j = p mod ?L")
    case True
    then show ?thesis unfolding assms(4) by (simp add: cq_slot_def mem_read_write_exact)
  next
    case False
    then have "disjoint_ranges (cell (virt (cq_commands cq)) 16 (p mod ?L)) 16 (cell (virt (cq_commands cq)) 16 j) 16"
      using L that by (intro cell_disjoint [where n = ?L]) auto
    then show ?thesis using False unfolding assms(4) by (simp add: cq_slot_def mem_read_write_disjoint)
  qed
  have "cq_slot cq m' (k mod ?L) = ces k \<and> odd (ce_status (ces k)) = phase_of ?L k" if k: "k < Suc p" "Suc p \<le> k + ?L" for k
  proof (cases "k = p")
    case True
    then show ?thesis using slot [of "p mod ?L"] L assms(3) by simp
  next
    case False
    then have "p - k < ?L" "k < p" "0 < p - k" using k by auto
    then have "k mod ?L \<noteq> p mod ?L" using mod_eq_dvd_iff_nat [of k p ?L] by (auto dest: dvd_imp_le)
    then show ?thesis using slot [of "k mod ?L"] L assms(2) k False by (simp add: cq_posted_def)
  qed
  moreover have "even (ce_status (cq_slot cq m' j))" if "Suc p \<le> j" "j < ?L" for j
  proof -
    have "p mod ?L = p" using that by simp
    then show ?thesis using slot [of j] that assms(2) by (simp add: cq_posted_def)
  qed
  ultimately show ?thesis by (simp add: cq_posted_def)
qed

lemma u16_head: "L \<le> 16384 \<Longrightarrow> 0 < L \<Longrightarrow> unat (of_nat (k mod L) :: u16) = k mod L"
proof -
  assume "L \<le> 16384" and "0 < L"
  then have "k mod L < 16384" using mod_less_divisor [of L k] by linarith
  then have "k mod L < 2 ^ 16" by simp
  then show ?thesis by (simp add: unat_of_nat)
qed

lemma lazy_tick_dev: "wdev (lazy_tick sq cq w) = (fst (wdev w), if snd (wdev w) < fst (wdev w) then Suc (snd (wdev w)) else snd (wdev w))"
  by (cases "wdev w") (simp add: lazy_tick_def)

lemma lazy_ticks_dev: "wdev ((lazy_tick sq cq ^^ t) w) = (fst (wdev w), if snd (wdev w) \<le> fst (wdev w) then min (fst (wdev w)) (snd (wdev w) + t) else snd (wdev w))"
proof (induction t)
  case 0
  then show ?case by (cases "wdev w") auto
qed (auto simp: lazy_tick_dev min_def)

lemma lazy_view_tick:
  assumes "lazy_state sq0 cq0 c cs sq cq w"
  shows "lazy_state sq0 cq0 c cs sq cq (lazy_tick sq0 cq0 w)"
proof (cases "snd (wdev w) < fst (wdev w)")
  case False
  then have "lazy_tick sq0 cq0 w = w" by (cases "wdev w") (simp add: lazy_tick_def)
  then show ?thesis using assms by simp
next
  case True
  let ?p = "snd (wdev w)" and ?L = "unat (sq_len sq0)" and ?w = "lazy_tick sq0 cq0 w"
  have v: "pair_view (lazy_posted sq0) c cs sq cq w" "fst (wdev w) = length cs"
    and f: "sq_len sq = sq_len sq0" "cq_len cq = sq_len sq0" "cq_len cq0 = sq_len sq0" "cq_commands cq = cq_commands cq0"
    using assms by (auto simp: lazy_state_def pair_view_def sq_frame_def cq_frame_def)
  have L: "0 < ?L" "?L \<le> 16384" using v(1) sq_invD [of sq] f(1) by (auto simp: pair_view_def)
  let ?ces = "sync_answer ?L ?L"
  have len: "length (lazy_posted sq0 w) = ?p" "length (lazy_posted sq0 ?w) = Suc ?p"
    using True by (simp_all add: lazy_posted_def lazy_tick_dev)
  have nth: "lazy_posted sq0 w ! k = ?ces k" if "k < ?p" for k using that by (simp add: lazy_posted_def)
  have nth': "lazy_posted sq0 ?w ! k = ?ces k" if "k < Suc ?p" for k
    using that True by (simp add: lazy_posted_def lazy_tick_dev del: upt_Suc)
  have "cq_posted cq (wmem w) ?ces ?p"
    using v(1) nth unfolding pair_view_def len by (auto intro: cq_posted_ces)
  moreover have "wmem ?w = mem_write (wmem w) (cell (virt (cq_commands cq)) 16 (?p mod unat (cq_len cq))) (encode_completion (?ces ?p))"
    using True f by (cases "wdev w") (simp add: lazy_tick_def post_answer_def)
  moreover have "cq_inv cq" using v(1) by (simp add: pair_view_def cq_consumed_def)
  moreover have "odd (ce_status (?ces ?p)) = phase_of (unat (cq_len cq)) ?p" using f by (simp add: sync_answer_def)
  ultimately have "cq_posted cq (wmem ?w) ?ces (Suc ?p)" by (intro cq_posted_post [where m = "wmem w"]) simp_all
  then have post: "cq_posted cq (wmem ?w) (\<lambda>k. lazy_posted sq0 ?w ! k) (Suc ?p)" using nth' by (auto intro: cq_posted_ces)
  have "\<exists>h. j < h \<and> h \<le> length cs \<and> unat (ce_sq_head (lazy_posted sq0 ?w ! j)) = h mod ?L" if "j < Suc ?p" for j
    using nth' [OF that] that True v(2) u16_head [OF L(2,1), of "Suc j"]
    by (intro exI [of _ "Suc j"]) (simp add: sync_answer_def)
  then have "pair_view (lazy_posted sq0) c cs sq cq ?w"
    using v True post f(1) unfolding pair_view_def len by auto
  then show ?thesis using assms by (simp add: lazy_state_def lazy_tick_dev)
qed

lemma lazy_view_submit:
  assumes "apart sq0 cq0" and "lazy_state sq0 cq0 c cs sq cq w" and "Suc (length cs) < c + unat (sq_len sq)"
  shows "lazy_state sq0 cq0 c (cs @ [e]) (sq_after e sq) cq (sq_rung (lazy_hw sq0 cq0) (sq_doorbell sq) e sq w)"
proof -
  let ?w = "sq_rung (lazy_hw sq0 cq0) (sq_doorbell sq) e sq w"
  have v: "pair_view (lazy_posted sq0) c cs sq cq w" "fst (wdev w) = length cs" "sq_frame sq = sq_frame sq0" "cq_frame cq = cq_frame cq0"
    using assms(2) by (auto simp: lazy_state_def)
  have db: "sq_doorbell sq = sq_doorbell sq0" using v(3) by (simp add: sq_frame_def)
  have w: "wdev ?w = (Suc (length cs), snd (wdev w))" "wmem ?w = sq_stored e sq (wmem w)"
    using v(2) by (simp_all add: sq_rung_def lazy_hw_def db)
  have inv: "sq_inv sq" "cq_inv cq" using v(1) by (auto simp: pair_view_def cq_consumed_def)
  have p: "lazy_posted sq0 ?w = lazy_posted sq0 w" by (simp add: lazy_posted_def w)
  have tail: "unat ((sq_tail sq + 1) mod sq_len sq) = Suc (length cs) mod unat (sq_len sq)"
    using inv(1) v(1) by (simp add: unat_ring_succ sq_inv_def pair_view_def mod_Suc_eq)
  have "pair_view (lazy_posted sq0) c (cs @ [e]) (sq_after e sq) cq ?w"
    unfolding pair_view_def p w(2)
    using v(1) assms(3) tail sq_inv_after [OF inv(1)] cq_posted_stored [OF assms(1) inv(1) v(3,4) inv(2), of "wmem w"]
    by (auto simp: pair_view_def) (metis le_SucI)+
  then show ?thesis using v(3,4) w(1) by (auto simp: lazy_state_def sq_frame_def sq_after_def)
qed

lemma lazy_view_take:
  assumes "lazy_state sq0 cq0 c cs sq cq w" and "0 < n" and "c + n \<le> length (lazy_posted sq0 w)"
    and "cq_consumed cq' (c + n)" and "cq_frame cq' = cq_frame cq"
  shows "lazy_state sq0 cq0 (c + n) cs (take_head (lazy_posted sq0 w ! (c + n - 1)) sq) cq' w"
proof -
  let ?L = "unat (sq_len sq)" and ?ce = "lazy_posted sq0 w ! (c + n - 1)"
  have v: "pair_view (lazy_posted sq0) c cs sq cq w" "sq_frame sq = sq_frame sq0" "cq_frame cq = cq_frame cq0"
    using assms(1) by (auto simp: lazy_state_def)
  have L: "0 < ?L" "?L \<le> 16384" "sq_len sq0 = sq_len sq" using v sq_invD [of sq] by (auto simp: pair_view_def sq_frame_def)
  have "?ce = sync_answer ?L ?L (c + n - 1)" using assms(2,3) L(3) by (simp add: lazy_posted_def)
  then have h: "unat (ce_sq_head ?ce) = (c + n) mod ?L" using assms(2) u16_head [OF L(2,1), of "c + n"] by (simp add: sync_answer_def)
  then have "ucast (ce_sq_head ?ce) < sq_len sq" using L(1) by (simp add: word_less_nat_alt unat_ucast_u16)
  then have inv: "sq_inv (take_head ?ce sq)" using v(1) by (simp add: pair_view_def sq_inv_def)
  have "cq_posted cq' = cq_posted cq" "cq_len cq' = cq_len cq" using assms(5) by (auto simp: cq_frame_def intro!: cq_posted_cong)
  then have "pair_view (lazy_posted sq0) (c + n) cs (take_head ?ce sq) cq' w"
    using v(1) inv assms(3,4) h unfolding pair_view_def
    by (auto simp: unat_ucast_u16 intro!: exI [of _ "c + n"])
  then show ?thesis using assms(1,5) by (auto simp: lazy_state_def sq_frame_def)
qed

lemma lazy_hw_async:
  assumes "apart sq0 cq0"
  shows "async_pair (lazy_hw sq0 cq0) (lazy_posted sq0) (\<lambda>w. fst (wdev w)) (lazy_state sq0 cq0)"
  unfolding async_pair_def
proof (intro allI impI conjI)
  fix c cs sq cq w
  assume I: "lazy_state sq0 cq0 c cs sq cq w"
  let ?hw = "lazy_hw sq0 cq0"
  have v: "pair_view (lazy_posted sq0) c cs sq cq w" "fst (wdev w) = length cs" "sq_doorbell sq = sq_doorbell sq0" "cq_doorbell cq = cq_doorbell cq0"
    using I by (auto simp: lazy_state_def sq_frame_def cq_frame_def)
  have tick: "hw_tick ?hw = lazy_tick sq0 cq0" by (simp add: lazy_hw_def)
  have le: "snd (wdev w) \<le> length cs" using v(1) by (simp add: pair_view_def lazy_posted_def)
  show "pair_view (lazy_posted sq0) c cs sq cq w" by fact
  show "lazy_state sq0 cq0 c cs sq cq (hw_tick ?hw w)" unfolding tick by (rule lazy_view_tick [OF I])
  show "prefix (lazy_posted sq0 w) (lazy_posted sq0 (hw_tick ?hw w))" by (simp add: tick lazy_posted_def lazy_tick_dev)
  show "fst (wdev w) \<le> fst (wdev (hw_tick ?hw w))" by (simp add: tick lazy_tick_dev)
  show "\<exists>T. length (lazy_posted sq0 ((hw_tick ?hw ^^ T) w)) = length cs"
    using le v(2) by (intro exI [of _ "length cs"]) (simp add: tick lazy_posted_def lazy_ticks_dev)
  show "lazy_state sq0 cq0 c (cs @ [e]) (sq_after e sq) cq (sq_rung ?hw (sq_doorbell sq) e sq w)"
    if "Suc (length cs) < c + unat (sq_len sq)" for e by (rule lazy_view_submit [OF assms I that])
  show "fst (wdev w) < fst (wdev (sq_rung ?hw (sq_doorbell sq) e sq w))" for e by (simp add: sq_rung_def lazy_hw_def v(3))
  have w: "hw_write32 ?hw (cq_doorbell cq) x w = w" for x using assms v(4) by (auto simp: lazy_hw_def apart_def)
  show "lazy_state sq0 cq0 (c + n) cs (take_head (lazy_posted sq0 w ! (c + n - 1)) sq) cq' (hw_write32 ?hw (cq_doorbell cq) (ucast (cq_head cq')) w)"
    if "0 < n" "c + n \<le> length (lazy_posted sq0 w)" "cq_consumed cq' (c + n)" "cq_frame cq' = cq_frame cq" for n cq'
    unfolding w by (rule lazy_view_take [OF I that])
  show "fst (wdev w) \<le> fst (wdev (hw_write32 ?hw (cq_doorbell cq) (ucast (cq_head cq')) w))" for cq' by (simp add: w)
  show "lazy_state sq0 cq0 c cs sq cq w'" "fst (wdev w) \<le> t" "t \<le> fst (wdev w')" if "hw_now ?hw w = (t, w')" for t w'
    using that I by (auto simp: lazy_hw_def)
qed

end
