(* ===== verification/Bench_Run.thy ===== *)
theory Bench_Run
  imports Lazy_Ring
begin

text \<open>
  The loops of the measurements against a controller that completes commands in its own time
  (\<open>async_pair\<close>): the loop of \<^verbatim>\<open>qd_n_multithread\<close> ends and accounts for every request, and that of
  \<^verbatim>\<open>qd_n_multithread_latency_nanos\<close> loses a request as soon as its queue is full and never ends.
\<close>

unbundle bit_operations_syntax

subsection \<open>Requests in flight\<close>

definition request_ok :: "bench \<Rightarrow> nvme_command \<Rightarrow> bool" where
  "request_ok b e \<longleftrightarrow> io_blocks e = 8 \<and> (\<exists>x < b_blocks b. io_lba e = x * 8) \<and> opcode e = (if b_write b then 1 else 2)"

text \<open>What a measurement needs: the controller, a source of random numbers, blocks to read, and a queue
  depth that the rings can hold.\<close>

definition bench_setting ::
    "'d hw \<Rightarrow> 'd rng \<Rightarrow> ('d world \<Rightarrow> nvme_completion list) \<Rightarrow> ('d world \<Rightarrow> nat) \<Rightarrow> (nat \<Rightarrow> 'd service) \<Rightarrow> bench \<Rightarrow> nat \<Rightarrow> bool" where
  "bench_setting hw gen posted clk I b L \<longleftrightarrow> async_pair hw posted clk I \<and> (\<forall>c. draws gen (I c))
     \<and> 0 < b_depth b \<and> unat (b_depth b) < L \<and> 0 < b_blocks b"

text \<open>\<open>cs\<close> have been submitted, \<open>c\<close> of them are done, and the variables of the thread agree.\<close>

definition flying ::
    "(nat \<Rightarrow> 'd service) \<Rightarrow> nat \<Rightarrow> nvme_command list \<Rightarrow> bench \<Rightarrow> bench_locals \<Rightarrow> 'd world \<Rightarrow> nat \<Rightarrow> nvme_command list \<Rightarrow> bool" where
  "flying I L cs0 b l w c cs \<longleftrightarrow> I c cs (sub_queue (l_qp l)) (comp_queue (l_qp l)) w
     \<and> unat (sq_len (sub_queue (l_qp l))) = L \<and> prefix cs0 cs \<and> c + unat (l_out l) = length cs
     \<and> l_ops l + l_out l = of_nat (length cs - length cs0) \<and> (\<forall>e\<in>set (drop (length cs0) cs). request_ok b e)
     \<and> unat (b_depth b) * 4096 \<le> unat (dsize (l_buf l)) \<and> l_out l \<le> b_depth b"

definition landed ::
    "(nat \<Rightarrow> 'd service) \<Rightarrow> nvme_command list \<Rightarrow> bench \<Rightarrow> bench_locals \<Rightarrow> 'd world \<Rightarrow> bool" where
  "landed I cs0 b l w \<longleftrightarrow> (\<exists>cs. I (length cs) cs (sub_queue (l_qp l)) (comp_queue (l_qp l)) w \<and> prefix cs0 cs
     \<and> l_ops l = of_nat (length cs - length cs0) \<and> (\<forall>e\<in>set (drop (length cs0) cs). request_ok b e)
     \<and> b_duration b \<le> l_total l \<and> sq_is_empty (sub_queue (l_qp l)))"

fun bench_inv ::
    "('d world \<Rightarrow> nat) \<Rightarrow> (nat \<Rightarrow> 'd service) \<Rightarrow> nat \<Rightarrow> nvme_command list \<Rightarrow> bench \<Rightarrow> bench_pc \<Rightarrow> ('m, 'd) sh_state \<Rightarrow> bool" where
  "bench_inv clk I L cs0 b (T_Loop l) (sh, w) \<longleftrightarrow> (\<exists>c cs. flying I L cs0 b l w c cs)"
| "bench_inv clk I L cs0 b (T_Poll l lba before) (sh, w) \<longleftrightarrow>
     (\<exists>c cs. flying I L cs0 b l w c cs) \<and> lba < b_blocks b \<and> before \<le> clk w \<and> l_total l < b_duration b"
| "bench_inv clk I L cs0 b (T_Full l lba before) (sh, w) \<longleftrightarrow>
     (\<exists>c cs. flying I L cs0 b l w c cs) \<and> lba < b_blocks b \<and> before \<le> clk w \<and> l_total l < b_duration b"
| "bench_inv clk I L cs0 b (T_Submit l lba before) (sh, w) \<longleftrightarrow>
     (\<exists>c cs. flying I L cs0 b l w c cs) \<and> lba < b_blocks b \<and> before \<le> clk w \<and> l_total l < b_duration b \<and> l_out l \<noteq> b_depth b"
| "bench_inv clk I L cs0 b (T_Drain l) (sh, w) \<longleftrightarrow> (\<exists>c cs. flying I L cs0 b l w c cs) \<and> b_duration b \<le> l_total l"
| "bench_inv clk I L cs0 b (T_Finish l) (sh, w) \<longleftrightarrow> landed I cs0 b l w"
| "bench_inv clk I L cs0 b _ _ \<longleftrightarrow> False"

fun bench_measure :: "bench \<Rightarrow> bench_pc \<Rightarrow> nat" where
  "bench_measure b (T_Loop l) = (b_duration b - l_total l) * (unat (b_depth b) + 10) + unat (b_depth b) + 5"
| "bench_measure b (T_Poll l lba before) = (b_duration b - l_total l) * (unat (b_depth b) + 10) + unat (l_out l) + 4"
| "bench_measure b (T_Full l lba before) = (b_duration b - l_total l) * (unat (b_depth b) + 10) + 3"
| "bench_measure b (T_Submit l lba before) = (b_duration b - l_total l) * (unat (b_depth b) + 10) + 2"
| "bench_measure b (T_Drain l) = 1"
| "bench_measure b _ = 0"

lemma unat_pred: "0 < unat (x :: usize) \<Longrightarrow> unat (x - 1) = unat x - 1"
  by (subst unat_minus_one) auto

lemma flying_done:
  assumes "flying I L cs0 b l w c cs" and "c < length cs" and "I (Suc c) cs (sub_queue qp) (comp_queue qp) w'"
    and "sq_len (sub_queue qp) = sq_len (sub_queue (l_qp l))"
  shows "flying I L cs0 b (l_done l qp) w' (Suc c) cs" "unat (l_out (l_done l qp)) = unat (l_out l) - 1" "0 < unat (l_out l)"
    "l_out l = b_depth b \<Longrightarrow> l_out (l_done l qp) \<noteq> b_depth b"
proof -
  have out: "0 < unat (l_out l)" using assms(1,2) by (simp add: flying_def)
  then have p: "unat (l_out l - 1) = unat (l_out l) - 1" by (rule unat_pred)
  show "0 < unat (l_out l)" by fact
  show "unat (l_out (l_done l qp)) = unat (l_out l) - 1" using p by (simp add: l_done_def)
  have le: "l_out l - 1 \<le> b_depth b" using assms(1) p by (auto simp: flying_def word_le_nat_alt)
  show "flying I L cs0 b (l_done l qp) w' (Suc c) cs"
    using assms p out le by (auto simp: flying_def l_done_def)
  show "l_out (l_done l qp) \<noteq> b_depth b" if "l_out l = b_depth b"
    using that by (simp add: l_done_def)
qed

subsection \<open>Each step\<close>

lemma now_flying:
  assumes "async_pair hw posted clk I" and "flying I L cs0 b l w c cs" and "hw_now hw w = (t, w')"
  shows "flying I L cs0 b l w' c cs" "clk w \<le> t" "t \<le> clk w'"
  using async_pairD(10) [OF assms(1) _ assms(3), of c cs "sub_queue (l_qp l)" "comp_queue (l_qp l)"] assms(2)
  by (auto simp: flying_def)

lemma loop_progress:
  assumes "bench_setting hw gen posted clk I b L" and "bench_inv clk I L cs0 b (T_Loop l) (sh, w)"
  shows "\<exists>pc' s'. bench_step hw ops gen rnd b (T_Loop l) (sh, w) = Some (Ret (Inl pc'), s')
    \<and> bench_inv clk I L cs0 b pc' s' \<and> bench_measure b pc' < bench_measure b (T_Loop l)"
proof (cases "l_total l < b_duration b")
  case False
  then show ?thesis using assms(2) by auto
next
  case True
  have a: "async_pair hw posted clk I" "0 < b_blocks b" using assms(1) by (simp_all add: bench_setting_def)
  obtain c cs where f: "flying I L cs0 b l w c cs" using assms(2) by auto
  have "draws gen (I c)" "I c cs (sub_queue (l_qp l)) (comp_queue (l_qp l)) w" using assms(1) f by (simp_all add: bench_setting_def flying_def)
  from next_lba_in_range [OF this a(2), of "b_random b" 0 sh] obtain lba w1 where
      1: "next_lba gen (b_random b) (b_blocks b) 0 (sh, w) = Some (Ret lba, (sh, w1))" "lba < b_blocks b"
        "I c cs (sub_queue (l_qp l)) (comp_queue (l_qp l)) w1"
    by blast
  obtain t w2 where t: "hw_now hw w1 = (t, w2)" by fastforce
  have "flying I L cs0 b l w1 c cs" using f 1(3) by (simp add: flying_def)
  note n = now_flying [OF a(1) this t]
  have "bench_step hw ops gen rnd b (T_Loop l) (sh, w) = Some (Ret (Inl (T_Poll l lba t)), (sh, w2))"
    using True 1(1) t by (simp add: mbind_Ret instant_now_def)
  moreover have "bench_inv clk I L cs0 b (T_Poll l lba t) (sh, w2)" using n 1(2) True by auto
  moreover have "unat (l_out l) \<le> unat (b_depth b)" using f by (simp add: flying_def word_le_nat_alt)
  ultimately show ?thesis by auto
qed

lemma poll_progress:
  assumes "bench_setting hw gen posted clk I b L" and "bench_inv clk I L cs0 b (T_Poll l lba before) (sh, w)"
  shows "\<exists>pc' s'. bench_step hw ops gen rnd b (T_Poll l lba before) (sh, w) = Some (Ret (Inl pc'), s')
    \<and> bench_inv clk I L cs0 b pc' s' \<and> bench_measure b pc' < bench_measure b (T_Poll l lba before)"
proof -
  have a: "async_pair hw posted clk I" using assms(1) by (simp add: bench_setting_def)
  obtain c cs where f: "flying I L cs0 b l w c cs" using assms(2) by auto
  then have I: "I c cs (sub_queue (l_qp l)) (comp_queue (l_qp l)) w" by (simp add: flying_def)
  note p = poll_async [OF a I]
  show ?thesis
  proof (cases "c < length (posted w)")
    case False
    then have "bench_step hw ops gen rnd b (T_Poll l lba before) (sh, w) = Some (Ret (Inl (T_Full l lba before)), (sh, w))"
      using p by (simp add: on_pair_def mbind_run)
    then show ?thesis using assms(2) by auto
  next
    case True
    then obtain qp' w' where 1: "qp_quick_poll hw (l_qp l, w) = Some (Ret (Some ()), (qp', w'))"
        "sq_len (sub_queue qp') = sq_len (sub_queue (l_qp l))" "I (Suc c) cs (sub_queue qp') (comp_queue qp') w'" "clk w \<le> clk w'"
      using p by auto
    have "c < length cs" using True async_pairD(1) [OF a I] by (simp add: pair_view_def)
    note d = flying_done [OF f this 1(3,2)]
    have "bench_step hw ops gen rnd b (T_Poll l lba before) (sh, w) = Some (Ret (Inl (T_Poll (l_done l qp') lba before)), (sh, w'))"
      using 1(1) by (simp add: on_pair_def mbind_run)
    moreover have "bench_inv clk I L cs0 b (T_Poll (l_done l qp') lba before) (sh, w')"
      using d(1) assms(2) 1(4) by (auto simp: l_done_def)
    moreover have "l_total (l_done l qp') = l_total l" by (simp add: l_done_def)
    ultimately show ?thesis using d(2,3) by auto
  qed
qed

lemma full_progress:
  assumes "bench_setting hw gen posted clk I b L" and "bench_inv clk I L cs0 b (T_Full l lba before) (sh, w)"
  shows "\<exists>pc' s'. bench_step hw ops gen rnd b (T_Full l lba before) (sh, w) = Some (Ret (Inl pc'), s')
    \<and> bench_inv clk I L cs0 b pc' s' \<and> bench_measure b pc' < bench_measure b (T_Full l lba before)"
proof (cases "l_out l = b_depth b")
  case False
  then show ?thesis using assms(2) by auto
next
  case True
  have a: "async_pair hw posted clk I" "0 < b_depth b" using assms(1) by (simp_all add: bench_setting_def)
  obtain c cs where f: "flying I L cs0 b l w c cs" using assms(2) by auto
  then have I: "I c cs (sub_queue (l_qp l)) (comp_queue (l_qp l)) w" by (simp add: flying_def)
  have c: "c < length cs" using f True a(2) by (auto simp: flying_def word_less_nat_alt)
  then have "c + unat (1 :: usize) \<le> length cs" by simp
  from complete_async [OF a(1) I _ this] obtain v qp' w' where 1: "qp_complete_io hw 1 (l_qp l, w) = Some (Ret v, (qp', w'))"
      "sq_len (sub_queue qp') = sq_len (sub_queue (l_qp l))" "I (Suc c) cs (sub_queue qp') (comp_queue qp') w'" "clk w \<le> clk w'"
    by auto
  note d = flying_done [OF f c 1(3,2)]
  have "bench_step hw ops gen rnd b (T_Full l lba before) (sh, w) = Some (Ret (Inl (T_Submit (l_done l qp') lba before)), (sh, w'))"
    using True 1(1) by (simp add: on_pair_def mbind_run)
  moreover have "bench_inv clk I L cs0 b (T_Submit (l_done l qp') lba before) (sh, w')"
    using d(1) d(4) [OF True] assms(2) 1(4) by (auto simp: l_done_def)
  moreover have "l_total (l_done l qp') = l_total l" by (simp add: l_done_def)
  ultimately show ?thesis by auto
qed

text \<open>Reading the clock, with or without a latency pushed before.\<close>

lemma elapsed_flying:
  assumes "async_pair hw posted clk I" and "flying I L cs0 b l w c cs"
  shows "\<exists>spent sh' w'. elapsed hw log before (sh, w) = Some (Ret spent, (sh', w'))
    \<and> flying I L cs0 b l w' c cs \<and> clk w - before \<le> spent"
proof -
  obtain t w1 where 1: "hw_now hw w = (t, w1)" by fastforce
  note n = now_flying [OF assms 1]
  obtain t' w2 where 2: "hw_now hw w1 = (t', w2)" by fastforce
  note n' = now_flying [OF assms(1) n(1) 2]
  show ?thesis
  proof (cases log)
    case True
    then have "elapsed hw log before (sh, w)
        = Some (Ret (t' - before), (sh\<lparr>sh_latencies := sh_latencies sh @ [t - before]\<rparr>, w2))"
      using 1 2 by (simp add: elapsed_def instant_now_def push_latency_def mbind_Ret mbind_assoc)
    then show ?thesis using n n' by (auto intro: diff_le_mono)
  next
    case False
    then have "elapsed hw log before (sh, w) = Some (Ret (t - before), (sh, w1))"
      using 1 by (simp add: elapsed_def instant_now_def mbind_Ret)
    then show ?thesis using n by (auto intro: diff_le_mono)
  qed
qed

lemma page_slice:
  assumes "out < (d :: usize)" and "unat d * 4096 \<le> unat (dsize buf)"
  shows "\<exists>data. dma_slice buf (out * 4096) ((out + 1) * 4096) = Inr data \<and> dsize data = 4096"
proof -
  have o: "unat out + 1 \<le> unat d" using assms(1) by (simp add: word_less_nat_alt)
  then have le: "(unat out + 1) * 4096 \<le> unat (dsize buf)" using assms(2) by (meson le_trans mult_le_mono1)
  moreover have "unat (out + 1) = unat out + 1"
    using o unat_less_2p64 [of d] by (subst unat_add_no_wrap) (simp_all del: unat_less_2p64)
  ultimately have "unat ((out + 1) * 4096) = (unat out + 1) * 4096"
    using unat_less_2p64 [of "dsize buf"] by (subst unat_mult_no_wrap) (simp_all del: unat_less_2p64)
  then have "(out + 1) * 4096 \<le> dsize buf" using le by (simp add: word_le_nat_alt)
  then show ?thesis by (simp add: dma_slice_def algebra_simps)
qed

lemma flying_submitted:
  assumes "flying I L cs0 b l w c cs" and "I c (cs @ [e]) (sub_queue qp) (comp_queue qp) w'"
    and "sq_len (sub_queue qp) = sq_len (sub_queue (l_qp l))" and "l_out l \<noteq> b_depth b" and "request_ok b e"
  shows "flying I L cs0 b (l\<lparr>l_qp := qp, l_total := t, l_out := l_out l + 1\<rparr>) w' c (cs @ [e])"
proof -
  have lt: "l_out l < b_depth b" using assms(1,4) by (simp add: flying_def order.strict_iff_order)
  then have o: "unat (l_out l + 1) = Suc (unat (l_out l))"
    using unat_less_2p64 [of "b_depth b"] by (subst unat_add_no_wrap) (simp_all add: word_less_nat_alt del: unat_less_2p64)
  have p: "prefix cs0 cs" "length cs0 \<le> length cs" using assms(1) by (auto simp: flying_def prefix_length_le)
  have "l_out l + 1 \<le> b_depth b" using lt o by (simp add: word_less_nat_alt word_le_nat_alt)
  moreover have "l_ops l + (l_out l + 1) = of_nat (length (cs @ [e]) - length cs0)"
    using assms(1) p(2) by (simp add: flying_def Suc_diff_le)
  moreover have "\<forall>x\<in>set (drop (length cs0) (cs @ [e])). request_ok b x" using assms(1,5) p(2) by (auto simp: flying_def)
  ultimately show ?thesis using assms(1-3) o p(1) unfolding flying_def by (simp add: prefix_def) auto
qed

lemma submit_progress:
  assumes "bench_setting hw gen posted clk I b L" and "bench_inv clk I L cs0 b (T_Submit l lba before) (sh, w)"
  shows "\<exists>pc' s'. bench_step hw ops gen rnd b (T_Submit l lba before) (sh, w) = Some (Ret (Inl pc'), s')
    \<and> bench_inv clk I L cs0 b pc' s' \<and> bench_measure b pc' < bench_measure b (T_Submit l lba before)"
proof -
  have a: "async_pair hw posted clk I" "unat (b_depth b) < L" using assms(1) by (simp_all add: bench_setting_def)
  obtain c cs where f: "flying I L cs0 b l w c cs" and inv: "lba < b_blocks b" "before \<le> clk w" "l_total l < b_duration b" "l_out l \<noteq> b_depth b"
    using assms(2) by auto
  have lt: "l_out l < b_depth b" using f inv(4) by (simp add: flying_def order.strict_iff_order)
  obtain data where d: "dma_slice (l_buf l) (l_out l * 4096) ((l_out l + 1) * 4096) = Inr data" "dsize data = 4096"
    using page_slice [OF lt] f by (auto simp: flying_def)
  have I: "I c cs (sub_queue (l_qp l)) (comp_queue (l_qp l)) w" using f by (simp add: flying_def)
  have room: "Suc (length cs) < c + unat (sq_len (sub_queue (l_qp l)))"
    using f a(2) lt by (simp add: flying_def word_less_nat_alt)
  obtain e qp' w1 where 1: "qp_submit_io hw data (lba * 8) (b_write b) (l_qp l, w) = Some (Ret 1, (qp', w1))"
      "sq_len (sub_queue qp') = sq_len (sub_queue (l_qp l))" "I c (cs @ [e]) (sub_queue qp') (comp_queue qp') w1" "clk w < clk w1"
      "io_lba e = lba * 8" "io_blocks e = 8" "opcode e = (if b_write b then 1 else 2)"
    using submit_async [OF a(1) I room d(2)] by blast
  have "request_ok b e" using 1(5-7) inv(1) by (auto simp: request_ok_def)
  note f' = flying_submitted [OF f 1(3,2) inv(4) this]
  obtain spent sh' w' where 2: "elapsed hw (b_log b) before (sh, w1) = Some (Ret spent, (sh', w'))"
      "flying I L cs0 b (l\<lparr>l_qp := qp', l_total := 0, l_out := l_out l + 1\<rparr>) w' c (cs @ [e])" "clk w1 - before \<le> spent"
    using elapsed_flying [OF a(1) f'] by blast
  let ?l = "l\<lparr>l_qp := qp', l_total := l_total l + spent, l_out := l_out l + 1\<rparr>"
  have "bench_step hw ops gen rnd b (T_Submit l lba before) (sh, w) = Some (Ret (Inl (T_Loop ?l)), (sh', w'))"
    using d(1) 1(1) 2(1) by (simp add: submit_slice_def on_pair_def mbind_run)
  moreover have "flying I L cs0 b ?l w' c (cs @ [e])" using 2(2) by (simp add: flying_def)
  moreover have "0 < spent" using 2(3) 1(4) inv(2) by linarith
  then have "b_duration b - (l_total l + spent) < b_duration b - l_total l" using inv(3) by simp
  then have "Suc (b_duration b - (l_total l + spent)) * (unat (b_depth b) + 10) \<le> (b_duration b - l_total l) * (unat (b_depth b) + 10)"
    by (intro mult_le_mono1) simp
  then have "bench_measure b (T_Loop ?l) < bench_measure b (T_Submit l lba before)" by simp
  ultimately show ?thesis by auto
qed

lemma drain_progress:
  assumes "bench_setting hw gen posted clk I b L" and "bench_inv clk I L cs0 b (T_Drain l) (sh, w)"
  shows "\<exists>pc' s'. bench_step hw ops gen rnd b (T_Drain l) (sh, w) = Some (Ret (Inl pc'), s')
    \<and> bench_inv clk I L cs0 b pc' s' \<and> bench_measure b pc' < bench_measure b (T_Drain l)"
proof -
  have a: "async_pair hw posted clk I" using assms(1) by (simp add: bench_setting_def)
  obtain c cs where f: "flying I L cs0 b l w c cs" and dur: "b_duration b \<le> l_total l" using assms(2) by auto
  have I: "I c cs (sub_queue (l_qp l)) (comp_queue (l_qp l)) w" using f by (simp add: flying_def)
  show ?thesis
  proof (cases "l_out l = 0")
    case True
    then have c: "c = length cs" using f by (simp add: flying_def)
    have "sq_count (sub_queue (l_qp l)) = 0" "sq_inv (sub_queue (l_qp l))"
      using pair_view_count(1) [OF async_pairD(1) [OF a I]] c async_pairD(1) [OF a I] by (simp_all add: pair_view_def)
    then have e: "sq_is_empty (sub_queue (l_qp l))" by (simp add: sq_is_empty_iff [of _ undefined] sq_pending_def)
    then have "bench_step hw ops gen rnd b (T_Drain l) (sh, w) = Some (Ret (Inl (T_Finish l)), (sh, w))"
      using True by (simp add: mbind_run)
    moreover have "landed I cs0 b l w" using f e c True dur by (auto simp: flying_def landed_def)
    ultimately show ?thesis by auto
  next
    case False
    obtain t w0 where 0: "hw_now hw w = (t, w0)" by fastforce
    note f0 = now_flying [OF a f 0]
    then have I0: "I c cs (sub_queue (l_qp l)) (comp_queue (l_qp l)) w0" by (simp add: flying_def)
    have n: "0 < l_out l" "c + unat (l_out l) \<le> length cs" using False f by (auto simp: flying_def word_neq_0_conv)
    have all: "c + unat (l_out l) = length cs" using f by (simp add: flying_def)
    obtain v qp' w1 where 1: "qp_complete_io hw (l_out l) (l_qp l, w0) = Some (Ret v, (qp', w1))"
        "sq_len (sub_queue qp') = sq_len (sub_queue (l_qp l))" "I (length cs) cs (sub_queue qp') (comp_queue qp') w1"
        "sq_is_empty (sub_queue qp')"
      using complete_async [OF a I0 n] all by auto
    let ?l0 = "l\<lparr>l_qp := qp', l_out := 0, l_ops := l_ops l + l_out l\<rparr>"
    have "flying I L cs0 b ?l0 w1 (length cs) cs" using f 1(2,3) by (simp add: flying_def)
    then obtain spent sh' w' where 2: "elapsed hw (b_log b) t (sh, w1) = Some (Ret spent, (sh', w'))"
        "flying I L cs0 b ?l0 w' (length cs) cs"
      using elapsed_flying [OF a] by blast
    let ?l = "l\<lparr>l_qp := qp', l_total := l_total l + spent, l_ops := l_ops l + l_out l\<rparr>"
    have "bench_step hw ops gen rnd b (T_Drain l) (sh, w) = Some (Ret (Inl (T_Finish ?l)), (sh', w'))"
      using False 0 1(1,4) 2(1) by (simp add: mbind_run instant_now_def on_pair_def)
    moreover have "landed I cs0 b ?l w'" using 2(2) 1(4) dur by (auto simp: flying_def landed_def)
    ultimately show ?thesis by auto
  qed
qed

subsection \<open>The loop ends\<close>

lemma bench_inv_tick:
  assumes "async_pair hw posted clk I" and "bench_inv clk I L cs0 b pc s"
  shows "bench_inv clk I L cs0 b pc (world_tick hw s)"
proof -
  obtain sh w where s: "s = (sh, w)" by (cases s)
  have "flying I L cs0 b l (hw_tick hw w) c cs" if "flying I L cs0 b l w c cs" for l c cs
    using that async_pairD(4) [OF assms(1)] by (auto simp: flying_def)
  moreover have "landed I cs0 b l (hw_tick hw w)" if "landed I cs0 b l w" for l
    using that async_pairD(4) [OF assms(1)] unfolding landed_def by blast
  moreover have "clk w \<le> clk (hw_tick hw w)" if "flying I L cs0 b l w c cs" for l c cs
    using that async_pairD(6) [OF assms(1)] by (auto simp: flying_def)
  ultimately show ?thesis using assms(2) unfolding s world_tick_def by (cases pc) (fastforce intro: le_trans)+
qed

text \<open>
  C14. The loop of the multi-threaded measurements, on a queue pair with an empty ring, with a queue depth
  below the length of the ring and a buffer of that many pages, against every controller that
  completes commands in its own time, in any order of its steps and those of the thread: the thread
  never hangs and no check in it fails, until the loop has ended and the queue is drained. Then
  the measured time has reached the duration; the operations counted are the commands submitted, and all
  are completed; each reads or writes eight blocks within the namespace; and the submission queue is
  empty, as the program asserts.
\<close>

theorem bench_loop_ends:
  assumes "async_pair hw posted clk I" and "\<forall>c. draws gen (I c)"
    and "I (length cs) cs (sub_queue qp) (comp_queue qp) w"
    and "0 < b_depth b" and "b_depth b < sq_len (sub_queue qp)" and "0 < b_blocks b"
    and "unat (b_depth b) * 4096 \<le> unat (dsize buf)"
  shows "always_reaches (bench_step hw ops gen rnd b) (world_tick hw)
    (\<lambda>pc (sh', w'). \<exists>l new. pc = T_Finish l \<and> I (length (cs @ new)) (cs @ new) (sub_queue (l_qp l)) (comp_queue (l_qp l)) w'
       \<and> l_ops l = of_nat (length new) \<and> b_duration b \<le> l_total l \<and> sq_is_empty (sub_queue (l_qp l))
       \<and> (\<forall>e\<in>set new. io_blocks e = 8 \<and> (\<exists>x < b_blocks b. io_lba e = x * 8) \<and> opcode e = (if b_write b then 1 else 2)))
    (T_Loop \<lparr>l_buf = buf, l_qp = qp, l_out = 0, l_ops = 0, l_total = 0\<rparr>) (sh, w)"
    (is "always_reaches _ _ ?goal ?pc _")
proof -
  let ?L = "unat (sq_len (sub_queue qp))"
  have set: "bench_setting hw gen posted clk I b ?L"
    using assms by (simp add: bench_setting_def word_less_nat_alt)
  show ?thesis
  proof (rule always_reaches_measure [where J = "bench_inv clk I ?L cs b" and mu = "bench_measure b" and fin = "\<lambda>pc. \<exists>l. pc = T_Finish l"])
    have "flying I ?L cs b \<lparr>l_buf = buf, l_qp = qp, l_out = 0, l_ops = 0, l_total = 0\<rparr> w (length cs) cs"
      using assms(3,7) by (simp add: flying_def)
    then show "bench_inv clk I ?L cs b ?pc (sh, w)" by (simp only: bench_inv.simps) blast
    show "bench_inv clk I ?L cs b p (world_tick hw s)" if "bench_inv clk I ?L cs b p s" for p s
      by (rule bench_inv_tick [OF assms(1) that])
    show "?goal p s" if inv: "bench_inv clk I ?L cs b p s" and fin: "\<exists>l. p = T_Finish l" for p s
    proof -
      obtain l sh w where s: "p = T_Finish l" "s = (sh, w)" using fin by (cases s) auto
      then have "landed I cs b l w" using inv by simp
      then show ?thesis unfolding s landed_def by (fastforce simp: prefix_def request_ok_def)
    qed
    show "\<exists>p' s'. bench_step hw ops gen rnd b p s = Some (Ret (Inl p'), s') \<and> bench_inv clk I ?L cs b p' s' \<and> bench_measure b p' < bench_measure b p"
      if inv: "bench_inv clk I ?L cs b p s" and "\<nexists>l. p = T_Finish l" for p s
    proof -
      obtain sh w where s: "s = (sh, w)" by (cases s)
      show ?thesis
      proof (cases p)
        case (T_Loop l)
        then show ?thesis using loop_progress [OF set] inv unfolding s by blast
      next
        case (T_Poll l lba before)
        then show ?thesis using poll_progress [OF set] inv unfolding s by blast
      next
        case (T_Full l lba before)
        then show ?thesis using full_progress [OF set] inv unfolding s by blast
      next
        case (T_Submit l lba before)
        then show ?thesis using submit_progress [OF set] inv unfolding s by blast
      next
        case (T_Drain l)
        then show ?thesis using drain_progress [OF set] inv unfolding s by blast
      qed (use that in \<open>auto simp: s\<close>)
    qed
  qed
qed

text \<open>Rings of four slots for concrete runs.\<close>

definition lazy_sq :: submission_queue where
  "lazy_sq = \<lparr>sq_commands = \<lparr>virt = 0x400000, phys = 0x400000, dsize = 2097152\<rparr>, sq_head = 0, sq_tail = 0,
     sq_len = 4, sq_doorbell = 0x11008\<rparr>"

definition lazy_cq :: completion_queue where
  "lazy_cq = \<lparr>cq_commands = \<lparr>virt = 0x600000, phys = 0x600000, dsize = 2097152\<rparr>, cq_head = 0, cq_phase = True,
     cq_len = 4, cq_doorbell = 0x1100C\<rparr>"

lemma lazy_apart: "apart lazy_sq lazy_cq"
  by (simp add: apart_def lazy_sq_def lazy_cq_def disjoint_ranges_def)

lemma lazy_start: "lazy_state lazy_sq lazy_cq 0 [] lazy_sq lazy_cq (blank_world (0, 0))"
proof -
  have "cq_slot lazy_cq (\<lambda>_. 0) j = decode_completion (replicate 16 0)" for j
    by (simp add: cq_slot_def mem_read_def map_replicate_const)
  then have "cq_posted lazy_cq (\<lambda>_. 0) ces 0" for ces
    by (simp add: cq_posted_def decode_completion_def bytes_field_def numeral_eq_Suc)
  then show ?thesis
    by (auto simp: lazy_state_def pair_view_def lazy_posted_def blank_world_def sq_inv_def cq_consumed_def cq_inv_def phase_of_def)
      (simp_all add: lazy_sq_def lazy_cq_def)
qed

theorem bench_loop_ends_witness:
  "always_reaches (bench_step (lazy_hw lazy_sq lazy_cq) demo_ops (\<lambda>lo hi w. (lo, w)) (\<lambda>n w. (replicate n 0, w)) (throughput_bench 3 5 True True 100))
      (world_tick (lazy_hw lazy_sq lazy_cq)) (\<lambda>pc (sh', w'). \<exists>l. pc = T_Finish l \<and> 5 \<le> l_total l \<and> l_ops l = of_nat (fst (wdev w')))
      (T_Loop \<lparr>l_buf = \<lparr>virt = 0x1000000, phys = 0x1000000, dsize = 12288\<rparr>, l_qp = \<lparr>qp_id = 2, sub_queue = lazy_sq, comp_queue = lazy_cq\<rparr>,
        l_out = 0, l_ops = 0, l_total = 0\<rparr>) (new_shared demo_dev, blank_world (0, 0))"
proof -
  let ?qp = "\<lparr>qp_id = 2, sub_queue = lazy_sq, comp_queue = lazy_cq\<rparr>" and ?b = "throughput_bench 3 5 True True 100"
  have "\<forall>c. draws (\<lambda>lo hi w. (lo, w)) (lazy_state lazy_sq lazy_cq c)" by (auto simp: draws_def)
  moreover have "lazy_state lazy_sq lazy_cq (length []) [] (sub_queue ?qp) (comp_queue ?qp) (blank_world (0, 0))" using lazy_start by simp
  ultimately show ?thesis
    by (rule always_reaches_mono [OF bench_loop_ends [where b = ?b and qp = ?qp, OF lazy_hw_async [OF lazy_apart]]])
      (auto simp: throughput_bench_def lazy_sq_def lazy_state_def)
qed

end
