(* ===== verification/Bench_Nanos.thy ===== *)
theory Bench_Nanos
  imports Bench_Run
begin

text \<open>
  \<^verbatim>\<open>qd_n_multithread_latency_nanos\<close> creates its queue pair with as many slots as it wants requests in flight.
  A ring of that length holds one command less, so the last request of the first round is dropped without
  notice while the thread counts it as in flight. From then on the thread waits for a completion that
  never comes. Of the controller this needs only that it completes no more commands than it has been
  given (\<open>answers_only\<close>).
\<close>

unbundle bit_operations_syntax

subsection \<open>Waiting for nothing\<close>

lemma cq_spin_hangs:
  fixes hw :: "'d hw"
  assumes "cq_inv cq" and "\<forall>t. odd (ce_status (cq_slot cq (wmem ((hw_tick hw ^^ t) w)) (unat (cq_head cq)))) \<noteq> cq_phase cq"
  shows "cq_complete_spin hw (cq, w) = None"
proof (rule ccontr)
  let ?Q = "\<lambda>hw s. cq_inv (fst s) \<and>
      (\<forall>t. odd (ce_status (cq_slot (fst s) (wmem ((hw_tick hw ^^ t) (snd s))) (unat (cq_head (fst s))))) \<noteq> cq_phase (fst s))"
  assume "cq_complete_spin hw (cq, w) \<noteq> None"
  then obtain y where "cq_complete_spin hw (cq, w) = Some y" by blast
  then have "\<not> ?Q hw (cq, w)"
  proof (rule cq_complete_spin.raw_induct [rotated])
    fix spin s y and hw :: "'d hw"
    assume IH: "\<And>hw s y. spin hw s = Some y \<Longrightarrow> \<not> ?Q hw s"
      and step: "(case cq_complete s of None \<Rightarrow> None | Some (r, t) \<Rightarrow> (case r of
            Ret v \<Rightarrow> (case v of Some val \<Rightarrow> Some (Ret val, t) | None \<Rightarrow> spin hw (fst t, hw_tick hw (snd t)))
          | Err e \<Rightarrow> Some (Err e, t) | Panic p \<Rightarrow> Some (Panic p, t))) = Some y"
    show "\<not> ?Q hw s"
    proof
      assume Q: "?Q hw s"
      obtain cq w where s: "s = (cq, w)" by (cases s)
      have "odd (ce_status (cq_slot cq (wmem w) (unat (cq_head cq)))) \<noteq> cq_phase cq"
        using Q by (auto simp: s dest: spec [where x = 0])
      then have "cq_complete s = Some (Ret None, s)" using Q cq_complete_run [of cq w] by (simp add: s Let_def)
      then have "spin hw (cq, hw_tick hw w) = Some y" using step by (simp add: s)
      moreover have "?Q hw (cq, hw_tick hw w)" using Q by (auto simp: s funpow_swap1 dest: spec [where x = "Suc t" for t])
      ultimately show False using IH by blast
    qed
  qed
  then show False using assms by simp
qed

lemma spin_cases:
  assumes "cq_inv cq"
  shows "cq_complete_spin hw (cq, w) = None \<or> (\<exists>c T. answered hw cq w c T)"
proof (cases "\<exists>t. odd (ce_status (cq_slot cq (wmem ((hw_tick hw ^^ t) w)) (unat (cq_head cq)))) = cq_phase cq")
  case True
  then obtain T where "odd (ce_status (cq_slot cq (wmem ((hw_tick hw ^^ T) w)) (unat (cq_head cq)))) = cq_phase cq"
      "\<forall>t<T. odd (ce_status (cq_slot cq (wmem ((hw_tick hw ^^ t) w)) (unat (cq_head cq)))) \<noteq> cq_phase cq"
    using exists_least_iff [of "\<lambda>t. odd (ce_status (cq_slot cq (wmem ((hw_tick hw ^^ t) w)) (unat (cq_head cq)))) = cq_phase cq"] by blast
  then have "answered hw cq w (cq_slot cq (wmem ((hw_tick hw ^^ T) w)) (unat (cq_head cq))) T" by (simp add: answered_def)
  then show ?thesis by blast
qed (use cq_spin_hangs [OF assms] in blast)

subsection \<open>No more answers than requests\<close>

text \<open>
  The named assumption on the controller. \<open>I c cs sq cq w\<close>: \<open>cs\<close> have been submitted to the ring of \<open>sq\<close>
  and \<open>c\<close> of the completions in \<open>cq\<close> have been taken. The driver may submit as long as the head the
  controller reported last leaves room. Whenever there is a new completion, by its phase tag, it belongs
  to a command that was submitted and has not been completed before, and the head it reports is an
  index of the ring; which one, when completions appear and in what order is up to the controller.
\<close>

definition answers_only :: "'d hw \<Rightarrow> (nat \<Rightarrow> 'd service) \<Rightarrow> bool" where
  "answers_only hw I \<longleftrightarrow> (\<forall>c cs sq cq w. I c cs sq cq w \<longrightarrow>
     sq_inv sq \<and> cq_inv cq \<and> I c cs sq cq (hw_tick hw w)
   \<and> (\<forall>t w'. hw_now hw w = (t, w') \<longrightarrow> I c cs sq cq w')
   \<and> (\<forall>e. sq_count sq \<noteq> unat (sq_len sq) - 1 \<longrightarrow> I c (cs @ [e]) (sq_after e sq) cq (sq_rung hw (sq_doorbell sq) e sq w))
   \<and> (\<forall>ce. cq_slot cq (wmem w) (unat (cq_head cq)) = ce \<longrightarrow> odd (ce_status ce) = cq_phase cq \<longrightarrow>
        c < length cs \<and> I (Suc c) cs (take_head ce sq) (cq_after cq)
          (hw_write32 hw (cq_doorbell cq) (ucast (cq_head (cq_after cq))) w)))"

lemma answers_onlyD:
  assumes "answers_only hw I" and "I c cs sq cq w"
  shows "sq_inv sq" "cq_inv cq" "I c cs sq cq (hw_tick hw w)" "hw_now hw w = (t, w') \<Longrightarrow> I c cs sq cq w'"
    and "sq_count sq \<noteq> unat (sq_len sq) - 1 \<Longrightarrow> I c (cs @ [e]) (sq_after e sq) cq (sq_rung hw (sq_doorbell sq) e sq w)"
    and "cq_slot cq (wmem w) (unat (cq_head cq)) = ce \<Longrightarrow> odd (ce_status ce) = cq_phase cq \<Longrightarrow> c < length cs \<and>
        I (Suc c) cs (take_head ce sq) (cq_after cq) (hw_write32 hw (cq_doorbell cq) (ucast (cq_head (cq_after cq))) w)"
  using assms(1) [unfolded answers_only_def, rule_format, OF assms(2)] by blast+

lemma poll_only:
  assumes "answers_only hw I" and "I c cs (sub_queue qp) (comp_queue qp) w"
  shows "qp_quick_poll hw (qp, w) = Some (Ret None, (qp, w))
    \<or> (\<exists>qp' w'. qp_quick_poll hw (qp, w) = Some (Ret (Some ()), (qp', w')) \<and> c < length cs
        \<and> I (Suc c) cs (sub_queue qp') (comp_queue qp') w')"
proof -
  let ?cq = "comp_queue qp" and ?ce = "cq_slot (comp_queue qp) (wmem w) (unat (cq_head (comp_queue qp)))"
  note run = cq_complete_run [OF answers_onlyD(2) [OF assms], of w]
  show ?thesis
  proof (cases "odd (ce_status ?ce) = cq_phase ?cq")
    case True
    then show ?thesis using answers_onlyD(6) [OF assms refl True]
      by (simp add: qp_quick_poll_def on_comp_queue_def run_simps run Let_def qp_take_run)
  qed (simp add: qp_quick_poll_def on_comp_queue_def run_simps run Let_def)
qed

lemma ticks_only:
  assumes "answers_only hw I" and "I c cs sq cq w"
  shows "I c cs sq cq ((hw_tick hw ^^ t) w)"
  by (induction t) (use assms answers_onlyD(3) in auto)

text \<open>Waiting returns only if there is a completion to take.\<close>

lemma complete_only:
  assumes "answers_only hw I" and "I c cs (sub_queue qp) (comp_queue qp) w"
  shows "qp_complete_io hw 1 (qp, w) = None
    \<or> (\<exists>d qp' w'. qp_complete_io hw 1 (qp, w) = Some (Ret d, (qp', w')) \<and> c < length cs
        \<and> I (Suc c) cs (sub_queue qp') (comp_queue qp') w')"
proof -
  let ?cq = "comp_queue qp"
  have inv: "cq_inv ?cq" by (rule answers_onlyD(2) [OF assms])
  from spin_cases [OF inv, of hw w] show ?thesis
  proof
    assume "cq_complete_spin hw (?cq, w) = None"
    moreover have "cq_head ?cq mod cq_len ?cq = cq_head ?cq" "\<not> cq_len ?cq \<le> cq_head ?cq"
      using cq_invD(3) [OF inv] by (auto simp: word_le_nat_alt intro: word_eq_unatI simp: unat_mod_word)
    ultimately show ?thesis
      using cq_invD(5) [OF inv] by (simp add: qp_complete_io_def on_comp_queue_def run_simps cq_complete_n_def Let_def)
  next
    assume "\<exists>ce T. answered hw ?cq w ce T"
    then obtain ce T where a: "answered hw ?cq w ce T" by blast
    let ?w = "(hw_tick hw ^^ T) w"
    have "cq_slot ?cq (wmem ?w) (unat (cq_head ?cq)) = ce" "odd (ce_status ce) = cq_phase ?cq" using a by (simp_all add: answered_def)
    from answers_onlyD(6) [OF assms(1) ticks_only [OF assms] this] show ?thesis
      using answered_complete_1 [OF inv a] by (simp add: qp_complete_io_def on_comp_queue_def run_simps qp_take_run)
  qed
qed

subsection \<open>A request is lost\<close>

text \<open>
  What else the thread relies on. \<open>opens\<close>: a queue pair that has been created, from a device and world
  with \<open>A\<close>, is one the controller works on, with nothing submitted yet. \<open>fills\<close>: the random bytes are
  as many as asked for. \<open>buffer_apart\<close>: filling the buffer does not touch the rings.
\<close>

definition opens :: "'d hw \<Rightarrow> ('m, 'd) mapping_ops \<Rightarrow> usize \<Rightarrow> ('m nvme_device \<Rightarrow> 'd world \<Rightarrow> bool) \<Rightarrow> (nat \<Rightarrow> 'd service) \<Rightarrow> bool" where
  "opens hw ops len A I \<longleftrightarrow> (\<forall>dev w. A dev w \<longrightarrow> A dev (hw_tick hw w)
     \<and> (\<forall>qp dev' w'. create_io_queue_pair hw ops len (dev, w) = Some (Ret qp, (dev', w')) \<longrightarrow>
          I 0 [] (sub_queue qp) (comp_queue qp) w'))"

definition fills :: "'d rnd \<Rightarrow> 'd service \<Rightarrow> bool" where
  "fills rnd I \<longleftrightarrow> (\<forall>n cs sq cq w bs w'. I cs sq cq w \<longrightarrow> rnd n w = (bs, w') \<longrightarrow> length bs = n \<and> I cs sq cq w')"

definition buffer_apart :: "dma \<Rightarrow> 'd service \<Rightarrow> bool" where
  "buffer_apart buf I \<longleftrightarrow> (\<forall>cs sq cq w bs. I cs sq cq w \<longrightarrow> length bs \<le> unat (dsize buf) \<longrightarrow>
     I cs sq cq (w\<lparr>wmem := mem_write (wmem w) (virt buf) bs\<rparr>))"

definition nanos_setting ::
    "'d hw \<Rightarrow> ('m, 'd) mapping_ops \<Rightarrow> 'd rng \<Rightarrow> 'd rnd \<Rightarrow> ('m nvme_device \<Rightarrow> 'd world \<Rightarrow> bool) \<Rightarrow> (nat \<Rightarrow> 'd service) \<Rightarrow> bench \<Rightarrow> bool" where
  "nanos_setting hw ops gen rnd A I b \<longleftrightarrow> answers_only hw I \<and> opens hw ops (b_depth b) A I
     \<and> (\<forall>c. draws gen (I c)) \<and> fills rnd (I 0) \<and> 0 < b_depth b \<and> 0 < b_blocks b"

fun is_nanos_submit :: "nanos_pc \<Rightarrow> bool" where
  "is_nanos_submit (N_Submit l lba before) = True"
| "is_nanos_submit _ = False"

text \<open>\<open>cs\<close> have reached the ring, \<open>c\<close> completions have been taken. Before the first completion is taken
  the head is 0 and every request is in the ring; once one has been dropped there are more requests
  in flight, by the thread's count, than commands that can still be completed.\<close>

definition nanos_base :: "(nat \<Rightarrow> 'd service) \<Rightarrow> nanos_locals \<Rightarrow> 'd world \<Rightarrow> nat \<Rightarrow> nvme_command list \<Rightarrow> bool" where
  "nanos_base I l w c cs \<longleftrightarrow> I c cs (sub_queue (n_qp l)) (comp_queue (n_qp l)) w \<and> c \<le> length cs
     \<and> unat (n_out l) * 4096 \<le> unat (dsize (n_buf l)) \<and> unat (dsize (n_buf l)) < 2 ^ 63"

definition fresh_ring :: "bench \<Rightarrow> nat \<Rightarrow> submission_queue \<Rightarrow> bool" where
  "fresh_ring b n sq \<longleftrightarrow> sq_head sq = 0 \<and> unat (sq_tail sq) = n \<and> n < unat (sq_len sq) \<and> sq_len sq \<le> b_depth b"

definition nanos_fresh :: "bench \<Rightarrow> nat \<Rightarrow> nanos_locals \<Rightarrow> nat \<Rightarrow> nvme_command list \<Rightarrow> bool" where
  "nanos_fresh b n l c cs \<longleftrightarrow> fresh_ring b n (sub_queue (n_qp l)) \<and> unat (n_out l) = n \<and> c = 0 \<and> length cs = n"

definition nanos_lost :: "nanos_locals \<Rightarrow> nat \<Rightarrow> nvme_command list \<Rightarrow> bool" where
  "nanos_lost l c cs \<longleftrightarrow> length cs < c + unat (n_out l)"

definition good_buffer :: "(nat \<Rightarrow> 'd service) \<Rightarrow> dma \<Rightarrow> bool" where
  "good_buffer I buf \<longleftrightarrow> buffer_apart buf (I 0) \<and> unat (dsize buf) < 2 ^ 63"

fun nanos_inv :: "('m nvme_device \<Rightarrow> 'd world \<Rightarrow> bool) \<Rightarrow> (nat \<Rightarrow> 'd service) \<Rightarrow> bench \<Rightarrow> nat \<Rightarrow> nanos_pc \<Rightarrow> ('m, 'd) sh_state \<Rightarrow> bool" where
  "nanos_inv A I b n N_Alloc (sh, w) \<longleftrightarrow> False"
| "nanos_inv A I b n (N_Create buf) (sh, w) \<longleftrightarrow> n = 0 \<and> A (sh_dev sh) w \<and> good_buffer I buf"
| "nanos_inv A I b n (N_Fill buf qp) (sh, w) \<longleftrightarrow> n = 0 \<and> good_buffer I buf
     \<and> I 0 [] (sub_queue qp) (comp_queue qp) w \<and> fresh_ring b 0 (sub_queue qp)"
| "nanos_inv A I b n (N_Loop l) (sh, w) \<longleftrightarrow> (\<exists>c cs. nanos_base I l w c cs \<and> (nanos_fresh b n l c cs \<or> nanos_lost l c cs))"
| "nanos_inv A I b n (N_Submit l lba before) (sh, w) \<longleftrightarrow> (\<exists>c cs. nanos_base I l w c cs \<and> (nanos_fresh b n l c cs \<or> nanos_lost l c cs))"
| "nanos_inv A I b n (N_Poll l before) (sh, w) \<longleftrightarrow> (\<exists>c cs. nanos_base I l w c cs \<and> nanos_lost l c cs)"
| "nanos_inv A I b n (N_Drain l) (sh, w) \<longleftrightarrow> n < unat (b_depth b) \<or> (\<exists>c cs. nanos_base I l w c cs \<and> nanos_lost l c cs)"

definition nanos_next :: "('m nvme_device \<Rightarrow> 'd world \<Rightarrow> bool) \<Rightarrow> (nat \<Rightarrow> 'd service) \<Rightarrow> bench \<Rightarrow> nat \<Rightarrow> (nanos_pc + unit) outcome \<Rightarrow> ('m, 'd) sh_state \<Rightarrow> bool" where
  "nanos_next A I b n r s \<longleftrightarrow> (case r of
     Ret (Inl pc) \<Rightarrow> nanos_inv A I b n pc s
   | Ret (Inr _) \<Rightarrow> n < unat (b_depth b)
   | _ \<Rightarrow> True)"

lemma nanos_base_world:
  "nanos_base I l w c cs \<Longrightarrow> I c cs (sub_queue (n_qp l)) (comp_queue (n_qp l)) w' \<Longrightarrow> nanos_base I l w' c cs"
  by (simp add: nanos_base_def)

text \<open>The rings of a new queue pair: empty, with no more slots than the length asked for.\<close>

lemma created_pair:
  assumes "create_io_queue_pair hw ops len (dev, w) = Some (Ret qp, (dev', w'))"
  obtains sd cd v v' u u' where "op_allocate ops (allocator dev) (64 * 16384) v = Some (Ret sd, v')"
    "op_allocate ops (allocator dev) (16 * 16384) u = Some (Ret cd, u')"
    "sub_queue qp = \<lparr>sq_commands = sd, sq_head = 0, sq_tail = 0, sq_len = min len 16384,
       sq_doorbell = dev_addr dev + 0x1000 + shl64 4 (dstrd dev) * ucast (2 * dev_q_id dev)\<rparr>"
    "comp_queue qp = \<lparr>cq_commands = cd, cq_head = 0, cq_phase = True, cq_len = min len 16384,
       cq_doorbell = dev_addr dev + (0x1000 + shl64 4 (dstrd dev) * ucast (2 * dev_q_id dev + 1))\<rparr>"
    "qp_id qp = dev_q_id dev"
  using assms unfolding create_io_queue_pair_def Let_def
  by (auto elim!: mbind_RetE simp: sq_new_def cq_new_def on_world_def mzoom_def split: option.splits outcome.splits)

lemma nanos_create_step:
  assumes "nanos_setting hw ops gen rnd A I b" and "nanos_inv A I b n (N_Create buf) (sh, w)"
    and "nanos_step hw ops gen rnd b (N_Create buf) (sh, w) = Some (r, (sh', w'))"
  shows "nanos_next A I b n r (sh', w')"
proof (cases r)
  case (Ret x)
  then obtain qp where x: "x = Inl (N_Fill buf qp)" "with_lock (create_io_queue_pair hw ops (b_depth b)) (sh, w) = Some (Ret qp, (sh', w'))"
    using assms(3) by (auto elim!: mbind_RetE)
  then obtain dev' where c: "create_io_queue_pair hw ops (b_depth b) (sh_dev sh, w) = Some (Ret qp, (dev', w'))"
    by (auto simp: with_lock_def mexpect_def split: option.splits outcome.splits if_splits)
  have "I 0 [] (sub_queue qp) (comp_queue qp) w'" using assms(1,2) c by (auto simp: nanos_setting_def opens_def)
  moreover have "fresh_ring b 0 (sub_queue qp)" using c assms(1)
    by (elim created_pair) (auto simp: fresh_ring_def nanos_setting_def min_def word_less_nat_alt)
  ultimately show ?thesis using assms(2) by (simp add: nanos_next_def Ret x)
qed (simp_all add: nanos_next_def)

lemma nanos_fill_step:
  assumes "nanos_setting hw ops gen rnd A I b" and "nanos_inv A I b n (N_Fill buf qp) (sh, w)"
    and "nanos_step hw ops gen rnd b (N_Fill buf qp) (sh, w) = Some (r, (sh', w'))"
  shows "nanos_next A I b n r (sh', w')"
proof -
  let ?I = "I 0 [] (sub_queue qp) (comp_queue qp)" and ?n = "unat (b_depth b * 4096)"
  have a: "answers_only hw I" "fills rnd (I 0)" using assms(1) by (simp_all add: nanos_setting_def)
  have i: "n = 0" "good_buffer I buf" "?I w" "fresh_ring b 0 (sub_queue qp)" using assms(2) by simp_all
  obtain bs w1 where 1: "rnd ?n w = (bs, w1)" by fastforce
  then have bs: "length bs = ?n" "?I w1" using a(2) i(3) by (auto simp: fills_def)
  then have len: "len_u64 bs = b_depth b * 4096" by (simp add: len_u64_def)
  show ?thesis
  proof (cases "b_depth b * 4096 \<le> dsize buf")
    case False
    then have "\<exists>p. r = Panic p" using assms(3) 1 len
      by (auto simp: mbind_run world_call_def dma_copy_def dma_index_to_def dma_index_range_def mlift_def split: if_splits)
    then show ?thesis by (auto simp: nanos_next_def)
  next
    case True
    let ?w = "w1\<lparr>wmem := mem_write (wmem w1) (virt buf) bs\<rparr>"
    have "length bs \<le> unat (dsize buf)" using True bs(1) by (simp add: word_le_nat_alt)
    then have w: "?I ?w" using i(2) bs(2) by (simp add: good_buffer_def buffer_apart_def)
    obtain t w2 where 2: "hw_now hw ?w = (t, w2)" by fastforce
    have "?I w2" by (rule answers_onlyD(4) [OF a(1) w 2])
    moreover have "r = Ret (Inl (N_Loop \<lparr>n_buf = buf, n_qp = qp, n_out = 0, n_start = t\<rparr>))" "w' = w2"
      using assms(3) 1 2 len True
      by (auto simp: mbind_run world_call_def dma_copy_def dma_index_to_def dma_index_range_def mlift_def instant_now_def)
    ultimately show ?thesis using i
      by (auto simp: nanos_next_def nanos_base_def nanos_fresh_def good_buffer_def intro!: exI [of _ 0] exI [of _ "[]"])
  qed
qed

lemma nanos_taken_only:
  assumes "answers_only hw I" and "nanos_base I l w c cs" and "nanos_lost l c cs" and "c < length cs"
    and "I (Suc c) cs (sub_queue qp') (comp_queue qp') w1" and "nanos_taken hw before l qp' (sh, w1) = Some (r, (sh', w'))"
  shows "\<exists>l'. r = Ret l' \<and> nanos_base I l' w' (Suc c) cs \<and> nanos_lost l' (Suc c) cs"
proof -
  let ?I = "I (Suc c) cs (sub_queue qp') (comp_queue qp')" and ?l = "l\<lparr>n_qp := qp', n_out := n_out l - 1\<rparr>"
  obtain t1 v1 where 1: "hw_now hw w1 = (t1, v1)" by fastforce
  obtain t2 v2 where 2: "hw_now hw v1 = (t2, v2)" by fastforce
  have I: "?I v1" "?I v2" using answers_onlyD(4) [OF assms(1)] assms(5) 1 2 by blast+
  then have r: "?I w' \<and> r = Ret ?l" using assms(6) 1 2
    by (cases before) (auto simp: nanos_taken_def mbind_run push_latency_def instant_now_def)
  have "0 < unat (n_out l)" using assms(3,4) by (simp add: nanos_lost_def)
  then have o: "unat (n_out l - 1) = unat (n_out l) - 1" "0 < unat (n_out l)" by (simp_all add: unat_pred)
  then have "nanos_base I ?l w' (Suc c) cs" "nanos_lost ?l (Suc c) cs"
    using assms(2-4) r by (auto simp: nanos_base_def nanos_lost_def)
  then show ?thesis using r by blast
qed

lemma nanos_loop_step:
  assumes "nanos_setting hw ops gen rnd A I b" and "nanos_inv A I b n (N_Loop l) (sh, w)"
    and "nanos_step hw ops gen rnd b (N_Loop l) (sh, w) = Some (r, (sh', w'))"
  shows "nanos_next A I b n r (sh', w')"
proof -
  have a: "answers_only hw I" "\<forall>c. draws gen (I c)" "0 < b_blocks b" using assms(1) by (simp_all add: nanos_setting_def)
  obtain c cs where b: "nanos_base I l w c cs" "nanos_fresh b n l c cs \<or> nanos_lost l c cs" using assms(2) by auto
  let ?I = "I c cs (sub_queue (n_qp l)) (comp_queue (n_qp l))"
  have I: "?I w" using b(1) by (simp add: nanos_base_def)
  obtain t w1 where 1: "hw_now hw w = (t, w1)" by fastforce
  have I1: "?I w1" by (rule answers_onlyD(4) [OF a(1) I 1])
  show ?thesis
  proof (cases "t - n_start l < b_duration b")
    case False
    then have "r = Ret (Inl (N_Drain l))" "w' = w1" using assms(3) 1 by (simp_all add: instant_now_def mbind_run)
    moreover have "nanos_base I l w1 c cs" by (rule nanos_base_world [OF b(1) I1])
    ultimately show ?thesis using b(2) by (auto simp: nanos_next_def nanos_fresh_def fresh_ring_def word_le_nat_alt)
  next
    case True
    obtain lba w2 where 2: "nanos_lba gen (b_random b) (b_blocks b) (n_out l) (sh, w1) = Some (Ret lba, (sh, w2))" "?I w2"
      using next_lba_in_range [OF a(2) [rule_format] I1 a(3), of True 0 sh] I1 word_neq_0_conv [of "b_blocks b"] a(3)
      by (cases "b_random b") (auto simp: nanos_lba_def)
    obtain t3 w3 where 3: "hw_now hw w2 = (t3, w3)" by fastforce
    have "nanos_base I l w3 c cs" by (rule nanos_base_world [OF b(1) answers_onlyD(4) [OF a(1) 2(2) 3]])
    moreover have "r = Ret (Inl (N_Submit l lba t3))" "w' = w3"
      using assms(3) 1 2(1) 3 True by (simp_all add: instant_now_def mbind_run)
    ultimately show ?thesis using b(2) by (auto simp: nanos_next_def)
  qed
qed

text \<open>A request: the command goes into the ring or is dropped, the thread counts it either way.\<close>

lemma nanos_request:
  assumes "answers_only hw I" and "nanos_base I l w c cs" and "nanos_fresh b n l c cs \<or> nanos_lost l c cs" and "dsize data = 4096"
    and "qp_submit_io hw data lba write (n_qp l, w) = Some (Ret k, (qp', w'))"
    and "Suc (unat (n_out l)) * 4096 \<le> unat (dsize (n_buf l))" and "unat (n_out l + 1) = Suc (unat (n_out l))"
  defines "l' \<equiv> l\<lparr>n_qp := qp', n_out := n_out l + 1\<rparr>"
  shows "\<exists>cs'. nanos_base I l' w' c cs' \<and> (nanos_fresh b (Suc n) l' c cs' \<or> nanos_lost l' c cs')"
proof -
  let ?sq = "sub_queue (n_qp l)"
  have I: "I c cs ?sq (comp_queue (n_qp l)) w" using assms(2) by (simp add: nanos_base_def)
  have inv: "sq_inv ?sq" by (rule answers_onlyD(1) [OF assms(1) I])
  note page = submit_page [OF assms(4) inv, of hw lba "write" w]
  show ?thesis
  proof (cases "sq_count ?sq = unat (sq_len ?sq) - 1")
    case True
    then have "qp' = n_qp l" "w' = w" using assms(5) page by auto
    then show ?thesis using assms(2,3,6,7)
      by (intro exI [of _ cs]) (auto simp: nanos_base_def nanos_lost_def nanos_fresh_def l'_def)
  next
    case False
    define e where "e = qp_entry write (qp_id (n_qp l)) (sq_tail ?sq) (nth_chunk data 8192 0) lba"
    have q: "qp' = qp_after e (n_qp l)" "w' = sq_rung hw (sq_doorbell ?sq) e ?sq w"
      using assms(5) page False by (auto simp: e_def Let_def)
    from answers_onlyD(5) [OF assms(1) I False, of e] have base: "nanos_base I l' w' c (cs @ [e])"
      using assms(2,6,7) by (simp add: nanos_base_def q qp_after_def l'_def)
    have "fresh_ring b (Suc n) (sq_after e ?sq)" if f: "fresh_ring b n ?sq"
    proof -
      have "sq_count ?sq = n" using f by (simp add: fresh_ring_def sq_count_def ring_dist_def)
      then have "Suc n < unat (sq_len ?sq)" using False f by (auto simp: fresh_ring_def)
      then show ?thesis using f inv by (simp add: fresh_ring_def sq_after_def unat_ring_succ sq_inv_def)
    qed
    then have "nanos_fresh b (Suc n) l' c (cs @ [e]) \<or> nanos_lost l' c (cs @ [e])"
      using assms(3,7) by (auto simp: nanos_fresh_def nanos_lost_def l'_def q qp_after_def)
    then show ?thesis using base by blast
  qed
qed

lemma nanos_submit_step:
  assumes "nanos_setting hw ops gen rnd A I b" and "nanos_inv A I b n (N_Submit l lba before) (sh, w)"
    and "nanos_step hw ops gen rnd b (N_Submit l lba before) (sh, w) = Some (r, (sh', w'))"
  shows "nanos_next A I b (Suc n) r (sh', w')"
proof -
  have a: "answers_only hw I" using assms(1) by (simp add: nanos_setting_def)
  obtain c cs where b: "nanos_base I l w c cs" "nanos_fresh b n l c cs \<or> nanos_lost l c cs" using assms(2) by auto
  have inv: "sq_inv (sub_queue (n_qp l))" using answers_onlyD(1) [OF a] b(1) by (auto simp: nanos_base_def)
  have bound: "unat (n_out l) * 4096 \<le> unat (dsize (n_buf l))" "unat (dsize (n_buf l)) < 2 ^ 63" using b(1) by (auto simp: nanos_base_def)
  then have o: "unat (n_out l + 1) = Suc (unat (n_out l))" by (subst unat_add_no_wrap) simp_all
  then have o': "unat ((n_out l + 1) * 4096) = Suc (unat (n_out l)) * 4096" using bound by (subst unat_mult_no_wrap) simp_all
  show ?thesis
  proof (cases "(n_out l + 1) * 4096 \<le> dsize (n_buf l)")
    case False
    then have "r = Panic Assertion_failed" using assms(3) by (simp add: submit_slice_def dma_slice_def mbind_run)
    then show ?thesis by (simp add: nanos_next_def)
  next
    case True
    then obtain data where d: "dma_slice (n_buf l) (n_out l * 4096) ((n_out l + 1) * 4096) = Inr data" "dsize data = 4096"
      by (simp add: dma_slice_def algebra_simps)
    have fit: "Suc (unat (n_out l)) * 4096 \<le> unat (dsize (n_buf l))" using True o' by (simp add: word_le_nat_alt)
    let ?l = "\<lambda>qp. l\<lparr>n_qp := qp, n_out := n_out l + 1\<rparr>"
    obtain qp' k w1 where run1: "qp_submit_io hw data (lba * 8) (b_write b) (n_qp l, w) = Some (Ret k, (qp', w1))"
      using submit_page [OF d(2) inv, of hw "lba * 8" "b_write b" w] by (simp add: Let_def split: if_splits)
    then have r: "r = Ret (Inl (if n_out l + 1 = b_depth b then N_Poll (?l qp') before else N_Loop (?l qp')))" and "w1 = w'"
      using assms(3) d(1) by (auto simp: submit_slice_def on_pair_def mbind_run Let_def)
    obtain cs' where i: "nanos_base I (?l qp') w' c cs'" "nanos_fresh b (Suc n) (?l qp') c cs' \<or> nanos_lost (?l qp') c cs'"
      using nanos_request [OF a b d(2) run1 [unfolded \<open>w1 = w'\<close>] fit o] by blast
    have "n_out l + 1 \<noteq> b_depth b" if "nanos_fresh b (Suc n) (?l qp') c cs'"
      using that by (auto simp: nanos_fresh_def fresh_ring_def word_le_nat_alt)
    then show ?thesis using i r by (fastforce simp: nanos_next_def)
  qed
qed

lemma nanos_poll_step:
  assumes "nanos_setting hw ops gen rnd A I b" and "nanos_inv A I b n (N_Poll l before) (sh, w)"
    and "nanos_step hw ops gen rnd b (N_Poll l before) (sh, w) = Some (r, (sh', w'))"
  shows "nanos_next A I b n r (sh', w')"
proof -
  have a: "answers_only hw I" using assms(1) by (simp add: nanos_setting_def)
  obtain c cs where b: "nanos_base I l w c cs" "nanos_lost l c cs" using assms(2) by auto
  then have I: "I c cs (sub_queue (n_qp l)) (comp_queue (n_qp l)) w" by (simp add: nanos_base_def)
  from poll_only [OF a I] show ?thesis
  proof (elim disjE exE conjE)
    assume "qp_quick_poll hw (n_qp l, w) = Some (Ret None, (n_qp l, w))"
    then have "r = Ret (Inl (N_Loop l))" "w' = w" using assms(3) by (simp_all add: on_pair_def mbind_run)
    then show ?thesis using b by (auto simp: nanos_next_def)
  next
    fix qp' w1
    assume 1: "qp_quick_poll hw (n_qp l, w) = Some (Ret (Some ()), (qp', w1))" "c < length cs" "I (Suc c) cs (sub_queue qp') (comp_queue qp') w1"
    then obtain r1 sh1 where 2: "nanos_taken hw (Some before) l qp' (sh, w1) = Some (r1, (sh1, w'))"
        "r = (case r1 of Ret l' \<Rightarrow> Ret (Inl (N_Poll l' before)) | Err e \<Rightarrow> Err e | Panic q \<Rightarrow> Panic q)"
      using assms(3) by (auto simp: on_pair_def mbind_run split: option.splits outcome.splits)
    from nanos_taken_only [OF a b 1(2,3) 2(1)] 2(2) show ?thesis by (fastforce simp: nanos_next_def)
  qed
qed

lemma nanos_drain_step:
  assumes "nanos_setting hw ops gen rnd A I b" and "nanos_inv A I b n (N_Drain l) (sh, w)"
    and "nanos_step hw ops gen rnd b (N_Drain l) (sh, w) = Some (r, (sh', w'))"
  shows "nanos_next A I b n r (sh', w')"
proof (cases "n < unat (b_depth b)")
  case True
  have "ends (\<lambda>_. True) (nanos_step hw ops gen rnd b (N_Drain l)) (sh, w) (\<lambda>v _. case v of Inl pc \<Rightarrow> \<exists>l'. pc = N_Drain l' | Inr _ \<Rightarrow> True)"
    by (auto intro!: ends_any simp del: mret_run split: option.splits)
  then show ?thesis using assms(3) True unfolding ends_def
    by (cases r) (auto simp: nanos_next_def split: sum.splits)
next
  case False
  have a: "answers_only hw I" using assms(1) by (simp add: nanos_setting_def)
  obtain c cs where b: "nanos_base I l w c cs" "nanos_lost l c cs" using assms(2) False by auto
  then have I: "I c cs (sub_queue (n_qp l)) (comp_queue (n_qp l)) w" by (simp add: nanos_base_def)
  have out: "0 < n_out l" using b by (simp add: nanos_base_def nanos_lost_def word_less_nat_alt)
  have taken: ?thesis if t: "c < length cs" "I (Suc c) cs (sub_queue qp') (comp_queue qp') w1"
      "nanos_taken hw None l qp' (sh, w1) = Some (r1, (sh1, w'))"
      "r = (case r1 of Ret l' \<Rightarrow> Ret (Inl (N_Drain l')) | Err e \<Rightarrow> Err e | Panic q \<Rightarrow> Panic q)" for qp' w1 r1 sh1
    using nanos_taken_only [OF a b t(1-3)] t(4) by (fastforce simp: nanos_next_def)
  from poll_only [OF a I] show ?thesis
  proof (elim disjE exE conjE)
    fix qp' w1
    assume 1: "qp_quick_poll hw (n_qp l, w) = Some (Ret (Some ()), (qp', w1))" "c < length cs" "I (Suc c) cs (sub_queue qp') (comp_queue qp') w1"
    then obtain r1 sh1 where "nanos_taken hw None l qp' (sh, w1) = Some (r1, (sh1, w'))"
        "r = (case r1 of Ret l' \<Rightarrow> Ret (Inl (N_Drain l')) | Err e \<Rightarrow> Err e | Panic q \<Rightarrow> Panic q)"
      using assms(3) out by (auto simp: on_pair_def mbind_run split: option.splits outcome.splits)
    then show ?thesis by (rule taken [OF 1(2,3)])
  next
    assume poll: "qp_quick_poll hw (n_qp l, w) = Some (Ret None, (n_qp l, w))"
    from complete_only [OF a I] show ?thesis
    proof (elim disjE exE conjE)
      assume "qp_complete_io hw 1 (n_qp l, w) = None"
      then show ?thesis using assms(3) out poll by (simp add: on_pair_def mbind_run)
    next
      fix d qp' w1
      assume 1: "qp_complete_io hw 1 (n_qp l, w) = Some (Ret d, (qp', w1))" "c < length cs" "I (Suc c) cs (sub_queue qp') (comp_queue qp') w1"
      show ?thesis
      proof (cases "d = None")
        case True
        then have "r = Panic Unwrap_failed" using assms(3) out poll 1(1) by (simp add: on_pair_def mbind_run)
        then show ?thesis by (simp add: nanos_next_def)
      next
        case some: False
        then obtain r1 sh1 where "nanos_taken hw None l qp' (sh, w1) = Some (r1, (sh1, w'))"
            "r = (case r1 of Ret l' \<Rightarrow> Ret (Inl (N_Drain l')) | Err e \<Rightarrow> Err e | Panic q \<Rightarrow> Panic q)"
          using assms(3) out poll 1(1) by (auto simp: on_pair_def mbind_run split: option.splits outcome.splits)
        then show ?thesis by (rule taken [OF 1(2,3)])
      qed
    qed
  qed
qed

subsection \<open>The thread never ends\<close>

lemma nanos_inv_tick:
  assumes "nanos_setting hw ops gen rnd A I b" and "nanos_inv A I b n pc (sh, w)"
  shows "nanos_inv A I b n pc (sh, hw_tick hw w)"
proof -
  have a: "answers_only hw I" "opens hw ops (b_depth b) A I" using assms(1) by (simp_all add: nanos_setting_def)
  have "nanos_base I l (hw_tick hw w) c cs" if "nanos_base I l w c cs" for l c cs
    using that answers_onlyD(3) [OF a(1)] by (auto simp: nanos_base_def)
  moreover have "A (sh_dev sh) w \<Longrightarrow> A (sh_dev sh) (hw_tick hw w)" using a(2) by (simp add: opens_def)
  moreover have "I 0 [] sq cq w \<Longrightarrow> I 0 [] sq cq (hw_tick hw w)" for sq cq by (rule answers_onlyD(3) [OF a(1)])
  ultimately show ?thesis using assms(2) by (cases pc; simp; blast)
qed

lemma nanos_advance:
  assumes "nanos_setting hw ops gen rnd A I b" and "nanos_inv A I b n pc (sh, w)"
    and "advance (nanos_step hw ops gen rnd b) pc (sh, w) = Some (t, (sh', w'))"
  shows "case t of Running pc' \<Rightarrow> nanos_inv A I b (n + (if is_nanos_submit pc then 1 else 0)) pc' (sh', w')
    | Finished _ \<Rightarrow> n + (if is_nanos_submit pc then 1 else 0) < unat (b_depth b) | Crashed _ \<Rightarrow> True"
proof -
  from assms(3) obtain r where run: "nanos_step hw ops gen rnd b pc (sh, w) = Some (r, (sh', w'))"
    and t: "t = (case r of Ret v \<Rightarrow> (case v of Inl p' \<Rightarrow> Running p' | Inr x \<Rightarrow> Finished x)
      | Err e \<Rightarrow> Crashed Unwrap_failed | Panic q \<Rightarrow> Crashed q)"
    by (rule advance_cases)
  note steps = nanos_create_step nanos_fill_step nanos_loop_step nanos_submit_step nanos_poll_step nanos_drain_step
  have "nanos_next A I b (n + (if is_nanos_submit pc then 1 else 0)) r (sh', w')"
  proof (cases pc)
    case N_Alloc
    then show ?thesis using assms(2) by simp
  next
    case (N_Create buf)
    then show ?thesis using steps(1) [OF assms(1) assms(2) [unfolded N_Create] run [unfolded N_Create]] by simp
  next
    case (N_Fill buf qp)
    then show ?thesis using steps(2) [OF assms(1) assms(2) [unfolded N_Fill] run [unfolded N_Fill]] by simp
  next
    case (N_Loop l)
    then show ?thesis using steps(3) [OF assms(1) assms(2) [unfolded N_Loop] run [unfolded N_Loop]] by simp
  next
    case (N_Submit l lba before)
    then show ?thesis using steps(4) [OF assms(1) assms(2) [unfolded N_Submit] run [unfolded N_Submit]] by simp
  next
    case (N_Poll l before)
    then show ?thesis using steps(5) [OF assms(1) assms(2) [unfolded N_Poll] run [unfolded N_Poll]] by simp
  next
    case (N_Drain l)
    then show ?thesis using steps(6) [OF assms(1) assms(2) [unfolded N_Drain] run [unfolded N_Drain]] by simp
  qed
  then show ?thesis unfolding t nanos_next_def by (cases r) (auto split: sum.splits)
qed

text \<open>
  C13. \<^verbatim>\<open>qd_n_multithread_latency_nanos\<close> cannot end once it has had as many requests in flight as it wants. From
  the point where a thread creates its queue pair, however its steps and those of the controller
  interleave, and with every controller that completes no more commands than it has been given, at
  whatever time, in whatever order and with whatever heads it reports: a thread that has made at least
  queue depth many requests never finishes. It runs on, waits forever for a completion of the request
  that was dropped, or panics.
\<close>

theorem nanos_never_finishes:
  assumes "par_runs (nanos_step hw ops gen rnd b) (world_tick hw) ([Running (N_Create buf)], (sh, w)) tr (ts, (sh', w'))"
    and "unat (b_depth b) \<le> length (filter (\<lambda>(i, pc). is_nanos_submit pc) tr)"
    and "A (sh_dev sh) w" and "opens hw ops (b_depth b) A I" and "answers_only hw I"
    and "\<forall>c. draws gen (I c)" and "fills rnd (I 0)" and "buffer_apart buf (I 0)"
    and "0 < b_depth b" and "0 < b_blocks b" and "unat (dsize buf) < 2 ^ 63"
  shows "ts \<noteq> [Finished ()]"
proof -
  let ?J = "\<lambda>n t (s :: ('a, 'b) sh_state). case t of Running pc \<Rightarrow> nanos_inv A I b n pc s | Finished _ \<Rightarrow> n < unat (b_depth b) | Crashed _ \<Rightarrow> True"
  have set: "nanos_setting hw ops gen rnd A I b" using assms(4-7,9,10) by (simp add: nanos_setting_def)
  have start: "?J 0 (Running (N_Create buf)) (sh, w)" using assms(3,8,11) by (simp add: good_buffer_def)
  have "\<exists>t. ts = [t] \<and> ?J (length (filter (\<lambda>(i, p). is_nanos_submit p) tr)) t (sh', w')"
    using assms(1) start
  proof (rule par_runs_single)
    show "?J n t (world_tick hw s)" if "?J n t s" for n t s
      using that nanos_inv_tick [OF set] by (cases s) (auto simp: world_tick_def split: thread.splits)
    show "?J (n + (if is_nanos_submit p then 1 else 0)) t s'"
      if J: "?J n (Running p) s" "advance (nanos_step hw ops gen rnd b) p s = Some (t, s')" for n p s t s'
    proof -
      obtain sh1 w1 sh2 w2 where s: "s = (sh1, w1)" "s' = (sh2, w2)" by (metis surj_pair)
      from J have "nanos_inv A I b n p (sh1, w1)" "advance (nanos_step hw ops gen rnd b) p (sh1, w1) = Some (t, (sh2, w2))" by (simp_all add: s)
      from nanos_advance [OF set this] show ?thesis by (simp only: s)
    qed
  qed
  then show ?thesis using assms(2) by auto
qed

subsection \<open>A concrete run\<close>

text \<open>
  A ring of two slots, which holds one command. The controller answers admin commands and the commands
  of this ring as soon as it is told of them; its state counts both. The memory of a queue depends on
  the size asked for.
\<close>

definition two_sq :: submission_queue where
  "two_sq = \<lparr>sq_commands = \<lparr>virt = 0x1000000, phys = 0x1000000, dsize = 64 * 16384\<rparr>, sq_head = 0, sq_tail = 0, sq_len = 2, sq_doorbell = 0x11010\<rparr>"

definition two_cq :: completion_queue where
  "two_cq = \<lparr>cq_commands = \<lparr>virt = 0x1200000, phys = 0x1200000, dsize = 16 * 16384\<rparr>, cq_head = 0, cq_phase = True, cq_len = 2, cq_doorbell = 0x11014\<rparr>"

definition two_ops :: "(unit, 'd) mapping_ops" where
  "two_ops = demo_ops\<lparr>op_allocate := \<lambda>_ n. let a = if n = 64 * 16384 then 0x1000000 else 0x1200000 in mret \<lparr>virt = a, phys = a, dsize = n\<rparr>\<rparr>"

abbreviation two_note :: "nvme_command \<Rightarrow> (nat \<times> nat) world \<Rightarrow> (nat \<times> nat) world" where
  "two_note e w \<equiv> w\<lparr>wdev := (Suc (fst (wdev w)), snd (wdev w))\<rparr>"

definition two_hw :: "(nat \<times> nat) hw" where
  "two_hw = \<lparr>hw_tick = (\<lambda>w. w),
     hw_write32 = (\<lambda>a v w.
       if a = 0x11000 then ring_answer two_note fst (admin_sq demo_dev) (admin_cq demo_dev) w
       else if a = 0x11010 then (post_answer two_sq two_cq (snd (wdev w)) w)\<lparr>wdev := (fst (wdev w), Suc (snd (wdev w)))\<rparr>
       else w),
     hw_write64 = (\<lambda>a v w. w), hw_read32 = (\<lambda>a w. (0, w)), hw_read64 = (\<lambda>a w. (0, w)), hw_now = (\<lambda>w. (0, w))\<rparr>"

definition two_admin :: "(nat \<times> nat) service" where
  "two_admin cs sq cq w \<longleftrightarrow> ring_state fst (admin_sq demo_dev) (admin_cq demo_dev) sq cq w
     \<and> (snd (wdev w) = 0 \<and> mem_read (wmem w) 0x1200000 32 = replicate 32 0)"

definition two_state :: "nat \<Rightarrow> (nat \<times> nat) service" where
  "two_state c cs sq cq w \<longleftrightarrow> sq_inv sq \<and> sq_frame sq = sq_frame two_sq \<and> cq_frame cq = cq_frame two_cq \<and> cq_consumed cq c
     \<and> c \<le> length cs \<and> length cs < c + 2 \<and> unat (sq_tail sq) = length cs mod 2 \<and> unat (sq_head sq) = c mod 2
     \<and> snd (wdev w) = length cs \<and> cq_posted cq (wmem w) (sync_answer 2 2) (length cs)"

lemma two_apart: "apart two_sq two_cq"
  by (simp add: apart_def two_sq_def two_cq_def disjoint_ranges_def)

lemma two_admin_serves: "admin_service two_hw demo_dev two_admin"
proof -
  have db: "doorbell demo_dev SQyTDBL 0 = 0x11000" "doorbell demo_dev CQyHDBL 0 = 0x11004"
    by (simp_all add: doorbell_def demo_dev_def shl16_def)
  have cells: "disjoint_ranges (cell 0x400000 64 j) 64 0x1200000 32" "disjoint_ranges (cell 0x600000 16 j) 16 0x1200000 32" if "j < 4" for j
  proof -
    consider "j = 0" | "j = 1" | "j = 2" | "j = 3" using \<open>j < 4\<close> by linarith
    then have "disjoint_ranges (cell 0x400000 64 j) 64 0x1200000 32 \<and> disjoint_ranges (cell 0x600000 16 j) 16 0x1200000 32"
      by cases (simp_all add: disjoint_ranges_def cell_def)
    then show "disjoint_ranges (cell 0x400000 64 j) 64 0x1200000 32" "disjoint_ranges (cell 0x600000 16 j) 16 0x1200000 32" by blast+
  qed
  have keep: "mem_read (wmem (post_answer (admin_sq demo_dev) (admin_cq demo_dev) k (two_note e (w\<lparr>wmem := sq_stored e sq (wmem w)\<rparr>)))) 0x1200000 32
      = mem_read (wmem w) 0x1200000 32" if "ring_state fst (admin_sq demo_dev) (admin_cq demo_dev) sq cq w" for k e sq cq w
  proof -
    have "unat (sq_tail sq) < 4" "virt (sq_commands sq) = 0x400000" using that sq_invD(4) [of sq] by (auto simp: ring_state_def demo_dev_def demo_ring_def)
    then show ?thesis using cells(1) [of "unat (sq_tail sq)"] cells(2) [of "k mod 4"]
      by (simp add: post_answer_def sq_stored_def mem_read_write_disjoint demo_dev_def demo_cring_def demo_ring_def)
  qed
  show ?thesis unfolding two_admin_def db
    by (rule ring_serves [where exec = two_note]) (simp_all only: keep, simp_all add: two_hw_def)
qed

lemma two_start:
  assumes "snd (wdev w) = 0" and "mem_read (wmem w) 0x1200000 32 = replicate 32 0"
  shows "two_state 0 [] two_sq two_cq w"
proof -
  have byte: "wmem w (0x1200000 + of_nat i) = 0" if "i < 32" for i
    using arg_cong [OF assms(2), of "\<lambda>bs. bs ! i"] that by (simp add: mem_read_def)
  have "even (ce_status (cq_slot two_cq (wmem w) j))" if "j < 2" for j
  proof -
    have "mem_read (wmem w) (cell 0x1200000 16 j) 16 = replicate 16 0"
      using byte [of "16 * j + i" for i] that by (auto intro!: nth_equalityI simp: mem_read_def cell_def add.assoc)
    then show ?thesis by (simp add: cq_slot_def two_cq_def decode_completion_def bytes_field_def numeral_eq_Suc)
  qed
  then have "cq_posted two_cq (wmem w) ces 0" for ces by (simp add: cq_posted_def two_cq_def)
  then show ?thesis using assms(1)
    by (simp add: two_state_def sq_inv_def cq_consumed_def cq_inv_def phase_of_def) (simp add: two_sq_def two_cq_def)
qed

lemma two_parts:
  assumes "two_state c cs sq cq w"
  shows "unat (sq_len sq) = 2" "sq_doorbell sq = 0x11010" "unat (cq_len cq) = 2" "cq_doorbell cq = 0x11014" "sq_inv sq" "cq_inv cq"
    "cq_commands cq = cq_commands two_cq" "sq_count sq = length cs - c"
proof -
  have s: "sq_frame sq = sq_frame two_sq" "cq_frame cq = cq_frame two_cq" "sq_inv sq" "cq_consumed cq c" "c \<le> length cs" "length cs < c + 2"
      "unat (sq_tail sq) = length cs mod 2" "unat (sq_head sq) = c mod 2"
    using assms by (simp_all add: two_state_def)
  show l: "unat (sq_len sq) = 2" "sq_doorbell sq = 0x11010" "unat (cq_len cq) = 2" "cq_doorbell cq = 0x11014" "sq_inv sq" "cq_inv cq"
      "cq_commands cq = cq_commands two_cq"
    using s(1-4) by (auto simp: sq_frame_def cq_frame_def cq_consumed_def) (simp_all add: two_sq_def two_cq_def)
  show "sq_count sq = length cs - c" using ring_dist_mod [OF s(5,6)] s(7,8) l(1) by (simp add: sq_count_def)
qed

lemma two_submit:
  assumes "two_state c cs sq cq w" and "sq_count sq \<noteq> unat (sq_len sq) - 1"
  shows "two_state c (cs @ [e]) (sq_after e sq) cq (sq_rung two_hw (sq_doorbell sq) e sq w)"
proof -
  let ?w = "sq_rung two_hw (sq_doorbell sq) e sq w"
  note p = two_parts [OF assms(1)]
  have s: "sq_frame sq = sq_frame two_sq" "cq_frame cq = cq_frame two_cq" "length cs < c + 2" "c \<le> length cs"
      "unat (sq_tail sq) = length cs mod 2" "snd (wdev w) = length cs" "cq_posted cq (wmem w) (sync_answer 2 2) (length cs)"
    using assms(1) by (simp_all add: two_state_def)
  have len: "length cs = c" using assms(2) p(1,8) s(3,4) by linarith
  have w: "snd (wdev ?w) = Suc (length cs)"
      "wmem ?w = mem_write (sq_stored e sq (wmem w)) (cell (virt (cq_commands cq)) 16 (length cs mod unat (cq_len cq))) (encode_completion (sync_answer 2 2 (length cs)))"
    using s(6) p(3,7) by (simp_all add: sq_rung_def p(2) two_hw_def post_answer_def) (simp_all add: two_sq_def two_cq_def)
  have "cq_posted cq (sq_stored e sq (wmem w)) (sync_answer 2 2) (length cs)"
    by (rule cq_posted_stored [OF two_apart p(5) s(1,2) p(6) s(7)])
  moreover have "odd (ce_status (sync_answer 2 2 (length cs))) = phase_of (unat (cq_len cq)) (length cs)" using p(3) by (simp add: sync_answer_def)
  ultimately have "cq_posted cq (wmem ?w) (sync_answer 2 2) (Suc (length cs))" using w(2) by (rule cq_posted_post [OF p(6)])
  moreover have "unat ((sq_tail sq + 1) mod sq_len sq) = Suc (length cs) mod 2"
    using p(1,5) s(5) by (simp add: unat_ring_succ sq_inv_def mod_Suc_eq)
  moreover have "sq_frame (sq_after e sq) = sq_frame sq" "sq_head (sq_after e sq) = sq_head sq" "sq_tail (sq_after e sq) = (sq_tail sq + 1) mod sq_len sq"
    by (simp_all add: sq_frame_def sq_after_def)
  ultimately show ?thesis using assms(1) len w(1) sq_inv_after [OF p(5)] by (simp add: two_state_def)
qed

lemma two_take:
  assumes "two_state c cs sq cq w" and "cq_slot cq (wmem w) (unat (cq_head cq)) = ce" and "odd (ce_status ce) = cq_phase cq"
  shows "c < length cs \<and> two_state (Suc c) cs (take_head ce sq) (cq_after cq) (hw_write32 two_hw (cq_doorbell cq) v w)"
proof -
  note p = two_parts [OF assms(1)]
  have s: "cq_consumed cq c" "length cs < c + 2" "c \<le> length cs" "cq_posted cq (wmem w) (sync_answer 2 2) (length cs)"
    using assms(1) by (simp_all add: two_state_def)
  note ph = phase_matches_iff [OF s(1,4)]
  have c: "c < length cs" using ph(1) assms(2,3) p(3) s(2,3) by simp
  then have ce: "ce = sync_answer 2 2 c" using ph(2) assms(2) p(3) s(2,3) by simp
  have w: "hw_write32 two_hw (cq_doorbell cq) v w = w" by (simp add: p(4) two_hw_def)
  have head: "unat (ucast (ce_sq_head ce) :: usize) = Suc c mod 2" using u16_head [of 2 "Suc c"] by (simp add: ce sync_answer_def unat_ucast_u16)
  then have "sq_inv (take_head ce sq)" using p(1,5) by (simp add: sq_inv_def word_less_nat_alt)
  moreover have "cq_posted (cq_after cq) = cq_posted cq" by (rule cq_posted_cong) simp_all
  ultimately show ?thesis unfolding w
    using assms(1) c s(2) head cq_consumed_after [OF s(1)] by (auto simp: two_state_def sq_frame_def cq_frame_def)
qed

lemma two_answers: "answers_only two_hw two_state"
proof -
  have "hw_tick two_hw w = w" "hw_now two_hw w = (0, w)" for w by (simp_all add: two_hw_def)
  then show ?thesis unfolding answers_only_def using two_parts(5,6) two_submit two_take by simp
qed

text \<open>Creating the pair.\<close>

lemma two_ops_allocates: "allocates two_ops m I"
  by (simp add: allocates_def two_ops_def Let_def)

lemma two_created:
  assumes "two_admin cs (admin_sq demo_dev) (admin_cq demo_dev) w"
  shows "\<exists>dev' w'. create_io_queue_pair two_hw two_ops 2 (demo_dev, w)
      = Some (Ret \<lparr>qp_id = 2, sub_queue = two_sq, comp_queue = two_cq\<rparr>, (dev', w')) \<and> two_state 0 [] two_sq two_cq w'"
proof -
  have b: "unat (dstrd demo_dev) < 16" "2 * unat (dev_q_id demo_dev) + 1 < 2 ^ 16"
    "0x1000 + (2 * unat (dev_q_id demo_dev) + 1) * 2 ^ (2 + unat (dstrd demo_dev)) + 4 \<le> unat (dev_len demo_dev)"
    by (simp_all add: demo_dev_def)
  have len: "(0 :: usize) < 2" "(2 :: usize) \<le> 65536" by simp_all
  obtain qp dev' w' cs' sq cq where c: "create_io_queue_pair two_hw two_ops 2 (demo_dev, w) = Some (Ret qp, (dev', w'))" "two_admin cs' sq cq w'"
    using create_served [OF two_admin_serves assms two_ops_allocates len b] by blast
  from c(1) have "qp = \<lparr>qp_id = 2, sub_queue = two_sq, comp_queue = two_cq\<rparr>"
    by (rule created_pair) (cases qp, simp add: two_sq_def two_cq_def two_ops_def demo_dev_def shl64_def Let_def)
  then show ?thesis using c two_start by (auto simp: two_admin_def)
qed

definition two_ready :: "unit nvme_device \<Rightarrow> (nat \<times> nat) world \<Rightarrow> bool" where
  "two_ready dev w \<longleftrightarrow> dev = demo_dev \<and> two_admin [] (admin_sq demo_dev) (admin_cq demo_dev) w"

lemma two_opens: "opens two_hw two_ops 2 two_ready two_state"
proof -
  have "hw_tick two_hw w = w" for w by (simp add: two_hw_def)
  moreover have "two_state 0 [] (sub_queue qp) (comp_queue qp) w'"
    if "two_ready dev w" "create_io_queue_pair two_hw two_ops 2 (dev, w) = Some (Ret qp, (dev', w'))" for dev w qp dev' w'
    using two_created [of "[]" w] that by (auto simp: two_ready_def)
  ultimately show ?thesis by (simp add: opens_def)
qed

definition two_buf :: dma where "two_buf = \<lparr>virt = 0x1400000, phys = 0x1400000, dsize = 2097152\<rparr>"

lemma two_buffer: "buffer_apart two_buf (two_state 0)"
  unfolding buffer_apart_def
proof (intro allI impI)
  fix cs sq cq w and bs :: "u8 list"
  assume I: "two_state 0 cs sq cq w" and len: "length bs \<le> unat (dsize two_buf)"
  note p = two_parts [OF I]
  have slot: "cq_slot cq (mem_write m (virt two_buf) bs) j = cq_slot cq m j" if "j < 2" for m j
  proof -
    consider "j = 0" | "j = 1" using \<open>j < 2\<close> by linarith
    then have "disjoint_ranges (virt two_buf) (length bs) (cell 0x1200000 16 j) 16"
      using len by cases (simp_all add: disjoint_ranges_def cell_def two_buf_def)
    then show ?thesis using p(7) by (simp add: cq_slot_def two_cq_def mem_read_write_disjoint)
  qed
  have "cq_posted cq (mem_write (wmem w) (virt two_buf) bs) ces k = cq_posted cq (wmem w) ces k" for ces k
    unfolding cq_posted_def p(3) by (simp add: slot)
  then show "two_state 0 cs sq cq (w\<lparr>wmem := mem_write (wmem w) (virt two_buf) bs\<rparr>)" using I by (simp add: two_state_def)
qed

definition two_bench :: bench where
  "two_bench = throughput_bench 2 5 False True 100"

abbreviation two_step :: "(nanos_pc, unit, (unit, nat \<times> nat) sh_state) closure" where
  "two_step \<equiv> nanos_step two_hw two_ops (\<lambda>lo hi w. (lo, w)) (\<lambda>n w. (replicate n 0, w)) two_bench"

lemma two_run:
  assumes "two_ready demo_dev w"
  shows "\<exists>tr ts s. par_runs two_step (world_tick two_hw) ([Running (N_Create two_buf)], (new_shared demo_dev, w)) tr (ts, s)
    \<and> 2 \<le> length (filter (\<lambda>(i, pc). is_nanos_submit pc) tr)"
proof -
  let ?qp = "\<lparr>qp_id = 2, sub_queue = two_sq, comp_queue = two_cq\<rparr>"
  obtain dev' w' where c: "create_io_queue_pair two_hw two_ops 2 (demo_dev, w) = Some (Ret ?qp, (dev', w'))"
    using two_created [of "[]" w] assms by (auto simp: two_ready_def)
  let ?start = "new_shared demo_dev" and ?sh = "(new_shared demo_dev)\<lparr>sh_dev := dev'\<rparr>"
  define l where "l = \<lparr>n_buf = two_buf, n_qp = ?qp, n_out = 0, n_start = 0\<rparr>"
  define v where "v = w'\<lparr>wmem := mem_write (wmem w') (virt two_buf) (replicate 8192 0)\<rparr>"
  define e where "e = qp_entry True 2 0 (nth_chunk \<lparr>virt = 0x1400000, phys = 0x1400000, dsize = 4096\<rparr> 8192 0) 0"
  define qp1 where "qp1 = qp_after e ?qp"
  define w1 where "w1 = sq_rung two_hw 0x11010 e two_sq v"
  have tw: "sq_tail two_sq = 0" "sq_len two_sq = 2" "sq_doorbell two_sq = 0x11010" by (simp_all add: two_sq_def)
  have inv: "sq_inv two_sq" "sq_inv (sub_queue qp1)"
    by (simp_all add: two_sq_def sq_inv_def qp1_def qp_after_def sq_after_def)
  have cnt: "sq_count two_sq = 0" "sq_count (sub_queue qp1) = 1" "sq_len (sub_queue qp1) = 2"
    by (simp_all add: two_sq_def sq_count_def ring_dist_def qp1_def qp_after_def sq_after_def)
  have now: "hw_now two_hw u = (0, u)" for u by (simp add: two_hw_def)
  have bench: "b_depth two_bench = 2" "b_blocks two_bench = 100" "b_duration two_bench = 5" "b_write two_bench" "\<not> b_random two_bench"
    by (simp_all add: two_bench_def throughput_bench_def)
  have 1: "two_step (N_Create two_buf) (?start, w) = Some (Ret (Inl (N_Fill two_buf ?qp)), (?sh, w'))"
    using with_lock_Ret [where sh = ?start and m = "create_io_queue_pair two_hw two_ops 2", of w ?qp dev' w'] c
    by (simp add: mbind_run bench new_shared_def)
  have 2: "two_step (N_Fill two_buf ?qp) (?sh, w') = Some (Ret (Inl (N_Loop l)), (?sh, v))"
    by (simp add: bench now mbind_run world_call_def dma_copy_def dma_index_to_def dma_index_range_def mlift_def instant_now_def
        len_u64_def l_def v_def two_buf_def)
  have 3: "two_step (N_Loop l) (?sh, v) = Some (Ret (Inl (N_Submit l 0 0)), (?sh, v))"
    by (simp add: l_def bench now mbind_run instant_now_def nanos_lba_def)
  have 4: "two_step (N_Submit l 0 0) (?sh, v) = Some (Ret (Inl (N_Loop (l\<lparr>n_qp := qp1, n_out := 1\<rparr>))), (?sh, w1))"
    using submit_page [of "\<lparr>virt = 0x1400000, phys = 0x1400000, dsize = 4096\<rparr>" ?qp two_hw 0 True v] inv cnt
    by (simp add: l_def bench submit_slice_def dma_slice_def on_pair_def mbind_run Let_def two_buf_def
        e_def [symmetric] qp1_def [symmetric] w1_def [symmetric] tw)
  have 5: "two_step (N_Loop (l\<lparr>n_qp := qp1, n_out := 1\<rparr>)) (?sh, w1) = Some (Ret (Inl (N_Submit (l\<lparr>n_qp := qp1, n_out := 1\<rparr>) 1 0)), (?sh, w1))"
    by (simp add: l_def bench now mbind_run instant_now_def nanos_lba_def)
  have 6: "two_step (N_Submit (l\<lparr>n_qp := qp1, n_out := 1\<rparr>) 1 0) (?sh, w1) = Some (Ret (Inl (N_Poll (l\<lparr>n_qp := qp1, n_out := 2\<rparr>) 0)), (?sh, w1))"
    using submit_page [of "\<lparr>virt = 0x1401000, phys = 0x1401000, dsize = 4096\<rparr>" qp1 two_hw 8 True w1] inv cnt
    by (simp add: l_def bench submit_slice_def dma_slice_def on_pair_def mbind_run Let_def two_buf_def)
  note go = par_runs_go [OF par_runs_go [OF par_runs_go [OF par_runs.start [of two_step "world_tick two_hw"] 1] 2] 3]
  show ?thesis
    using par_runs_go [OF par_runs_go [OF par_runs_go [OF go 4] 5] 6] by (intro exI conjI, assumption) simp
qed

theorem nanos_never_finishes_witness:
  "\<exists>tr ts s. par_runs two_step (world_tick two_hw) ([Running (N_Create two_buf)], (new_shared demo_dev, blank_world (0, 0))) tr (ts, s)
    \<and> 2 \<le> length (filter (\<lambda>(i, pc). is_nanos_submit pc) tr) \<and> ts \<noteq> [Finished ()]"
proof -
  have "mem_read (\<lambda>_. 0) 0x1200000 32 = replicate 32 0" by (simp add: mem_read_def map_replicate_const)
  then have ready: "two_ready demo_dev (blank_world (0, 0))"
    by (simp add: two_ready_def two_admin_def ring_state_def blank_world_def demo_dev_def demo_ring_def demo_cring_def
        sq_inv_def cq_consumed_def cq_inv_def phase_of_def)
  then obtain tr ts s where r: "par_runs two_step (world_tick two_hw) ([Running (N_Create two_buf)], (new_shared demo_dev, blank_world (0, 0)))
        tr (ts, (fst s, snd s))" "2 \<le> length (filter (\<lambda>(i, pc). is_nanos_submit pc) tr)"
    using two_run by fastforce
  have b: "b_depth two_bench = 2" "b_blocks two_bench = 100" by (simp_all add: two_bench_def throughput_bench_def)
  have "two_ready (sh_dev (new_shared demo_dev)) (blank_world (0, 0))" using ready by (simp add: new_shared_def)
  moreover have "opens two_hw two_ops (b_depth two_bench) two_ready two_state" using two_opens by (simp add: b)
  moreover have "\<forall>c. draws (\<lambda>lo hi w. (lo, w)) (two_state c)" by (auto simp: draws_def)
  moreover have "fills (\<lambda>n w. (replicate n 0, w)) (two_state 0)" by (simp add: fills_def)
  ultimately have "ts \<noteq> [Finished ()]"
    using nanos_never_finishes [where A = two_ready and I = two_state, OF r(1) _ _ _ two_answers _ _ two_buffer] r(2)
    by (simp add: b two_buf_def)
  then show ?thesis using r by blast
qed

end
