(* ===== verification/Spec2Isabelle.thy ===== *)
theory Spec2Isabelle
  imports Copied Bench_Safety Bench_Nanos
begin

text \<open>
  Verification of \<^verbatim>\<open>vroom\<close>, a user-space NVMe driver in Rust.

  \<^bold>\<open>The program.\<close> The driver maps the registers of an NVMe controller into its address space,
  allocates memory that the controller can reach, and talks to the controller through rings in
  that memory: it writes commands of 64 bytes into a submission queue and announces them by
  writing the queue's tail index to a doorbell register; the controller answers with completions
  of 16 bytes in a completion queue, marked by a phase bit that flips on every pass over the ring.
  The parts are, from the bottom up (files under \<^verbatim>\<open>src/src\<close>):
  \<^item> \<^verbatim>\<open>error.rs\<close>: the error enum;
  \<^item> \<^verbatim>\<open>memory.rs\<close>: page sizes and DMA regions, with an iterator over their chunks;
  \<^item> \<^verbatim>\<open>cmd.rs\<close>: the commands;
  \<^item> \<^verbatim>\<open>queues.rs\<close>: submission and completion queues;
  \<^item> \<^verbatim>\<open>nvme.rs\<close>: queue pairs that an application uses directly (\<^verbatim>\<open>NvmeQueuePair\<close>), and the device
    (\<^verbatim>\<open>NvmeDevice\<close>) with its admin queue, its own I/O queue, a buffer and a page list;
  \<^item> \<^verbatim>\<open>mapping.rs\<close>, \<^verbatim>\<open>physical.rs\<close>, \<^verbatim>\<open>vfio.rs\<close>, \<^verbatim>\<open>pci.rs\<close>, \<^verbatim>\<open>ioctl_op.rs\<close>, \<^verbatim>\<open>vfio_structs.rs\<close>,
    \<^verbatim>\<open>macros.rs\<close>, \<^verbatim>\<open>lib.rs\<close>: memory and register mappings through the operating system;
  \<^item> \<^verbatim>\<open>src/examples\<close>: five programs on top of the library, two of which measure a device with several
    threads.

  \<^bold>\<open>Conventions.\<close> Integers are words of their Rust width, with the wrap-around of the release
  profile; \<^verbatim>\<open>usize\<close> has 64 bits. A call ends with a value, an \<open>error\<close> or a \<open>panic\<close>
  (\<open>outcome\<close>), or never: a computation (\<open>comp\<close>) maps a state to an optional outcome and state.
  Loops that wait for the controller are partial functions, and what is claimed of them includes
  that they return. Driver and controller share a byte-addressed memory; structures in it are
  encoded and decoded by their layout. Everything outside the program is a parameter: the record
  \<open>hw\<close> holds the controller's reactions to register accesses and its steps between two polls, the
  record \<open>os\<close> the system calls and file operations, and the record \<open>mapping_ops\<close> the operations of
  trait \<^verbatim>\<open>Mapping\<close>, through which the device uses any allocator. The driver's own global variables
  are the record \<open>statics\<close>, next to the kernel's state. What the driver relies on is stated by name.
  Of the controller: \<open>doorbell_keeps\<close>, \<open>cq_posted\<close>, \<open>answered\<close>, \<open>serves\<close>, \<open>serves_first\<close>,
  \<open>register_file\<close>, \<open>starts\<close>, \<open>confined\<close>, \<open>stores\<close>, \<open>timed_service\<close>, \<open>async_pair\<close>, \<open>opens\<close>, \<open>answers_only\<close>. Of allocators
  and the kernel: \<open>allocates\<close>, \<open>grants\<close>, \<open>confined_ops\<close>, \<open>list_apart\<close>, \<open>buffer_apart\<close>, \<open>command_register\<close>,
  \<open>manages_memory\<close>, \<open>translates\<close>, \<open>device_files\<close>; of the package \<^verbatim>\<open>rand\<close>: \<open>draws\<close>, \<open>fills\<close>, \<open>rand_confined\<close>.
  Every property that assumes one of them is also applied to a concrete controller and kernel.
  Threads are lists of control points over a shared state; a step relation interleaves their steps with
  each other and with those of the controller, in any order. Console output is not modelled.

  \<^bold>\<open>The theories.\<close>
  \<^item> \<open>Errors\<close>, \<open>Prelude\<close>, \<open>Hardware\<close>, \<open>Fmt\<close>: outcomes and computations; words, byte layouts and
    memory with their read-over-write lemmas; the world and the controller's operations; numbers
    as text.
  \<^item> \<open>Comp_Logic\<close>: rules for computations, that they return (\<open>returns\<close>, \<open>yields\<close>) and what they preserve
    (\<open>keeps\<close>), with collections of facts that component proofs extend.
  \<^item> \<open>Memory\<close> (\<^verbatim>\<open>memory.rs\<close>): page sizes, \<open>dma\<close> regions, \<open>dma_chunks_next\<close>, slices and index ranges.
    Rounding up gives the least multiple of the page size; the chunks of a region tile it;
    slices stay inside their region.
  \<^item> \<open>Cmd\<close> (\<^verbatim>\<open>cmd.rs\<close>): the record \<open>nvme_command\<close>, its 64-byte layout and all constructors
    (\<open>cmd_io_read\<close> and so on). The layout loses nothing; the constructors carry their arguments
    in the fields the controller reads.
  \<^item> \<open>Fifo_Spec\<close>: the abstract specification of a bounded queue, as the locale \<open>bounded_fifo\<close>, and
    what follows for every sequence of operations. \<open>Queues\<close> and \<open>Queue_Pair\<close> interpret it.
  \<^item> \<open>Queues\<close> (\<^verbatim>\<open>queues.rs\<close>): \<open>sq_submit\<close>, \<open>sq_submit_checked\<close>, \<open>cq_complete\<close>, \<open>cq_complete_n\<close>,
    \<open>cq_complete_spin\<close> and the rest. The submission ring refines a bounded list; polling returns
    exactly the completions the controller posted, one by one or several at once.
  \<^item> \<open>Queue_Pair\<close> (\<^verbatim>\<open>NvmeQueuePair\<close>): \<open>qp_submit_io\<close>, \<open>qp_complete_io\<close>, \<open>qp_quick_poll\<close>,
    \<open>qp_quick_poll_result\<close>. A request becomes one command per chunk, as far as the ring has room.
  \<^item> \<open>Controller\<close>: the assumptions on a controller that answers commands, and one that meets them.
  \<^item> \<open>Nvme_Device\<close> (\<^verbatim>\<open>NvmeDevice\<close> without transfers): registers, doorbells, admin commands,
    identification, queue pair management and \<open>nvme_init\<close>. Register accesses stay inside the
    mapped region, doorbells are where the specification puts them, waiting ends exactly when the
    controller becomes ready, an admin command has the outcome the controller reports.
  \<^item> \<open>Device_Admin\<close>: what identification and the creation of queue pairs achieve, and the page list
    that initialisation leaves.
  \<^item> \<open>Device_Io\<close> (transfers of \<^verbatim>\<open>NvmeDevice\<close>): \<open>namespace_io\<close>, \<open>nvme_write\<close>, \<open>nvme_read\<close>,
    \<open>write_prp\<close>, \<open>write_copied\<close>, \<open>read_copied\<close>, \<open>batched_write\<close>, \<open>batched_read\<close>. A transfer gives
    the controller exactly the commands of its chunks and returns.
  \<^item> \<open>Page_Lists\<close>: which pages the controller finds for transfers of more than two pages, with the list that
    \<open>write_prp_chunk\<close> stores and with the one that initialisation leaves.
  \<^item> \<open>Device_Inv\<close>: the invariant \<open>dev_ok\<close> of a device. Any sequence of its operations, as the step
    relation \<open>dev_step\<close>, keeps it, leaves the layout of the device alone, and changes memory only
    where it may.
  \<^item> \<open>Os\<close> (\<^verbatim>\<open>macros.rs\<close>): the system, and the checked calls \<open>mmap_unsafe\<close>, \<open>ioctl_unsafe\<close> and so on.
  \<^item> \<open>Pci\<close> (\<^verbatim>\<open>pci.rs\<close>): configuration files and hexadecimal numbers. \<open>Ioctl_Op\<close> (\<^verbatim>\<open>ioctl_op.rs\<close>,
    \<^verbatim>\<open>vfio_structs.rs\<close>): request codes, and the layout of the structures passed to the kernel.
  \<^item> \<open>Physical\<close> (\<^verbatim>\<open>physical.rs\<close>): huge pages whose physical address is looked up. \<open>Vfio\<close> (\<^verbatim>\<open>vfio.rs\<close>):
    set-up with a container or an IOMMUFD, allocation and DMA mapping. \<open>Vfio_Memory\<close>: what
    allocation does to the address space and to the translation table.
  \<^item> \<open>Mapping_Spec\<close>, \<open>Mem_Access\<close> (\<^verbatim>\<open>mapping.rs\<close>): the contract of trait \<^verbatim>\<open>Mapping\<close> as the locales
    \<open>mapping_provider\<close> and \<open>mapping_resizable\<close>, with what follows for a device; \<^verbatim>\<open>Physical\<close>, \<^verbatim>\<open>Vfio\<close> and
    \<^verbatim>\<open>MemoryAccess\<close> interpret them.
  \<^item> \<open>Device_Init\<close>: initialisation against the registers of a controller, which reads the 12 bits of the admin
    queue sizes that the specification has and so uses 4096 entries. \<open>Sync_Ring\<close>: controllers
    that carry out a command when its doorbell is rung. \<open>Lib\<close> (\<^verbatim>\<open>lib.rs\<close>): \<open>lib_init\<close>, from the files
    of a PCI device to a device that is ready, with a concrete machine that runs it.
  \<^item> \<open>Storage\<close>: what commands do to the contents of the disk, with the assumption \<open>stores\<close>, and the round
    trip of data through \<open>nvme_write\<close> and \<open>nvme_read\<close>. \<open>Examples\<close> (\<^verbatim>\<open>src/examples\<close>): the programs \<open>simple_io\<close>,
    \<open>hello_world\<close> and \<open>fill_ns\<close>, and the measurements with one request at a time (\<open>qd_1_loop\<close>).
  \<^item> \<open>Copied\<close>: the round trip through the buffer of the device, \<open>write_copied\<close> and \<open>read_copied\<close>, for up to two
    pages, and what \<open>hello_world\<close> prints.
  \<^item> \<open>Threads\<close>: threads that share a state, as the step relation \<open>par_step\<close> (any interleaving) and the function
    \<open>run_threads\<close> (a given schedule), with rules for invariants, for counting events, and for what a thread
    reaches on every path (\<open>always_reaches\<close>). \<open>Bench\<close> (\<^verbatim>\<open>throughput.rs\<close>, \<^verbatim>\<open>latency.rs\<close>): the closures \<open>bench_step\<close>
    and \<open>nanos_step\<close> of the multi-threaded measurements, the lock around the device, and both programs.
  \<^item> \<open>Bench_Safety\<close>: in every interleaving the device and all queue pairs keep their invariants and no two
    threads share a queue; what the measurement prints is what was requested.
  \<^item> \<open>Async_Pair\<close>: a queue pair with many commands in flight, on a controller that completes them in its
    own time; \<open>Lazy_Ring\<close>: such a controller. \<open>Bench_Run\<close>: the loop of the measurements ends on it, with all its
    requests completed. \<open>Bench_Nanos\<close>: a thread of \<open>nanos_step\<close>, from the creation of its queue pair on,
    never finishes once it has made queue depth many requests, whatever the controller does, as long as it
    completes no more commands than it was given.

  \<^bold>\<open>Bounds.\<close> No fuel is used. Rings have at most \<open>QUEUE_LENGTH\<close> = 16384 slots, which keeps index
  arithmetic far from wrap-around; this is part of the invariants \<open>sq_inv\<close> and \<open>cq_inv\<close> and
  established by \<open>sq_new\<close> and \<open>cq_new\<close>. Up to 65536 threads are allowed, as queue identifiers have 16 bits.

  \<^bold>\<open>Not modelled.\<close> The tests, which need hardware; console output, and the rates of the measurements in
  floating point, which are only printed; the two interrupt structures of \<^verbatim>\<open>vfio_structs.rs\<close>, which no
  code uses; the closing of files on drop; the marker traits \<^verbatim>\<open>Send\<close> and \<^verbatim>\<open>Sync\<close>. A call that waits for
  the controller is one step of its thread, during which only the controller moves. The panic of a thread
  is reported once all threads have ended (\<open>spawn_join\<close>); the code does so while later ones may still run. The disk of
  \<open>stores\<close> has no end; the properties only use blocks inside the namespace. Planned: round
  trips of data through page lists.
\<close>

end
